(* ===== verification/Prelude.thy ===== *)
theory Prelude
  imports Main "HOL-Library.Word"
begin

text \<open>
  Shared vocabulary of the development.  The first part transcribes the integer
  types and the name and entry-bit macros of \<^verbatim>\<open>src/mach/port.h\<close>,
  \<^verbatim>\<open>src/ipc/port.h\<close> and \<^verbatim>\<open>src/ipc/ipc_entry.h\<close>; the second part collects the lemmas on
  bit fields, names and lists which the component theories use through the
  collections \<open>mask_bits\<close>, \<open>ie_fields\<close> and \<open>name_simps\<close>.

  Names, pointers, bit masks and reference words are 32-bit words, as in the
  ILP32 kernel.  Table indices, table sizes and entry counters are natural
  numbers; an index is turned back into a word where the code builds a name.
\<close>

unbundle bit_operations_syntax

named_theorems mask_bits \<open>which bits the entry masks contain\<close>
named_theorems ie_fields \<open>the bit fields of an entry after an update of its bits\<close>
named_theorems name_simps \<open>index and generation of port names\<close>

section \<open>Machine types and return codes\<close>

type_synonym u32 = "32 word"
type_synonym mach_port_t = u32
type_synonym ptr = u32
type_synonym ipc_entry_bits_t = u32

datatype kern_return =
    KERN_SUCCESS
  | KERN_INVALID_ADDRESS
  | KERN_PROTECTION_FAILURE
  | KERN_NO_SPACE
  | KERN_INVALID_ARGUMENT
  | KERN_FAILURE
  | KERN_RESOURCE_SHORTAGE
  | KERN_NOT_RECEIVER
  | KERN_NO_ACCESS
  | KERN_MEMORY_FAILURE
  | KERN_MEMORY_ERROR
  | KERN_ALREADY_IN_SET
  | KERN_NOT_IN_SET
  | KERN_NAME_EXISTS
  | KERN_ABORTED
  | KERN_INVALID_NAME
  | KERN_INVALID_TASK
  | KERN_INVALID_RIGHT
  | KERN_INVALID_VALUE
  | KERN_UREFS_OVERFLOW
  | KERN_INVALID_CAPABILITY
  | KERN_RIGHT_EXISTS
  | KERN_INVALID_HOST
  | KERN_MEMORY_PRESENT

section \<open>Port names\<close>

definition MACH_PORT_NULL :: mach_port_t where
  "MACH_PORT_NULL = 0"

definition MACH_PORT_DEAD :: mach_port_t where
  "MACH_PORT_DEAD = NOT 0"

definition MACH_PORT_VALID :: "mach_port_t \<Rightarrow> bool" where
  "MACH_PORT_VALID name \<longleftrightarrow> name \<noteq> MACH_PORT_NULL \<and> name \<noteq> MACH_PORT_DEAD"

definition MACH_PORT_INDEX :: "mach_port_t \<Rightarrow> nat" where
  "MACH_PORT_INDEX name = unat (drop_bit 8 name)"

definition MACH_PORT_GEN :: "mach_port_t \<Rightarrow> u32" where
  "MACH_PORT_GEN name = push_bit 24 (name AND 0xff)"

definition MACH_PORT_MAKE :: "nat \<Rightarrow> u32 \<Rightarrow> mach_port_t" where
  "MACH_PORT_MAKE index gen = push_bit 8 (of_nat index) OR drop_bit 24 gen"

section \<open>Entry bits\<close>

definition IE_BITS_UREFS_MASK :: u32 where "IE_BITS_UREFS_MASK = 0x0000ffff"
definition IE_BITS_TYPE_MASK :: u32 where "IE_BITS_TYPE_MASK = 0x001f0000"
definition IE_BITS_MAREQUEST :: u32 where "IE_BITS_MAREQUEST = 0x00200000"
definition IE_BITS_COMPAT :: u32 where "IE_BITS_COMPAT = 0x00400000"
definition IE_BITS_COLLISION :: u32 where "IE_BITS_COLLISION = 0x00800000"
definition IE_BITS_GEN_MASK :: u32 where "IE_BITS_GEN_MASK = 0xff000000"
definition IE_BITS_GEN_ONE :: u32 where "IE_BITS_GEN_ONE = 0x01000000"
definition IE_BITS_RIGHT_MASK :: u32 where "IE_BITS_RIGHT_MASK = 0x007fffff"

definition IE_BITS_UREFS :: "ipc_entry_bits_t \<Rightarrow> u32" where
  "IE_BITS_UREFS bits = bits AND IE_BITS_UREFS_MASK"

definition IE_BITS_TYPE :: "ipc_entry_bits_t \<Rightarrow> u32" where
  "IE_BITS_TYPE bits = bits AND IE_BITS_TYPE_MASK"

definition IE_BITS_GEN :: "ipc_entry_bits_t \<Rightarrow> u32" where
  "IE_BITS_GEN bits = bits AND IE_BITS_GEN_MASK"

definition MACH_PORT_TYPE_NONE :: u32 where "MACH_PORT_TYPE_NONE = 0"
definition MACH_PORT_TYPE_SEND :: u32 where "MACH_PORT_TYPE_SEND = push_bit 16 1"
definition MACH_PORT_TYPE_RECEIVE :: u32 where "MACH_PORT_TYPE_RECEIVE = push_bit 17 1"
definition MACH_PORT_TYPE_SEND_ONCE :: u32 where "MACH_PORT_TYPE_SEND_ONCE = push_bit 18 1"
definition MACH_PORT_TYPE_PORT_SET :: u32 where "MACH_PORT_TYPE_PORT_SET = push_bit 19 1"
definition MACH_PORT_TYPE_DEAD_NAME :: u32 where "MACH_PORT_TYPE_DEAD_NAME = push_bit 20 1"

definition MACH_PORT_MAKEB :: "nat \<Rightarrow> u32 \<Rightarrow> mach_port_t" where
  "MACH_PORT_MAKEB index bits = MACH_PORT_MAKE index (IE_BITS_GEN bits)"

section \<open>Lemmas on masks and fields\<close>

lemma UREFS_MASK_eq: "IE_BITS_UREFS_MASK = mask 16"
  by (simp add: IE_BITS_UREFS_MASK_def mask_eq_decr_exp)

lemma TYPE_MASK_eq: "IE_BITS_TYPE_MASK = push_bit 16 (mask 5)"
  by (simp add: IE_BITS_TYPE_MASK_def mask_eq_decr_exp)

lemma GEN_MASK_eq: "IE_BITS_GEN_MASK = push_bit 24 (mask 8)"
  by (simp add: IE_BITS_GEN_MASK_def mask_eq_decr_exp)

lemma RIGHT_MASK_eq: "IE_BITS_RIGHT_MASK = mask 23"
  by (simp add: IE_BITS_RIGHT_MASK_def mask_eq_decr_exp)

lemma bit_UREFS_MASK [mask_bits]: "bit IE_BITS_UREFS_MASK n \<longleftrightarrow> n < 16"
  unfolding UREFS_MASK_eq by (auto simp: bit_simps)

lemma bit_TYPE_MASK [mask_bits]: "bit IE_BITS_TYPE_MASK n \<longleftrightarrow> 16 \<le> n \<and> n < 21"
  unfolding TYPE_MASK_eq by (auto simp: bit_simps)

lemma bit_GEN_MASK [mask_bits]: "bit IE_BITS_GEN_MASK n \<longleftrightarrow> 24 \<le> n \<and> n < 32"
  unfolding GEN_MASK_eq by (auto simp: bit_simps)

lemma bit_RIGHT_MASK [mask_bits]: "bit IE_BITS_RIGHT_MASK n \<longleftrightarrow> n < 23"
  unfolding RIGHT_MASK_eq by (auto simp: bit_simps)

lemma single_bits:
  "IE_BITS_MAREQUEST = push_bit 21 1" "IE_BITS_COMPAT = push_bit 22 1"
  "IE_BITS_COLLISION = push_bit 23 1" "IE_BITS_GEN_ONE = push_bit 24 1"
  by (simp_all add: IE_BITS_MAREQUEST_def IE_BITS_COMPAT_def IE_BITS_COLLISION_def
      IE_BITS_GEN_ONE_def)

lemma bit_push_one: "bit (push_bit k (1::u32)) n \<longleftrightarrow> n = k \<and> k < 32"
  by (auto simp: bit_simps)

lemma bit_flags [mask_bits]:
  "bit IE_BITS_MAREQUEST n \<longleftrightarrow> n = 21" "bit IE_BITS_COMPAT n \<longleftrightarrow> n = 22"
  "bit IE_BITS_COLLISION n \<longleftrightarrow> n = 23" "bit IE_BITS_GEN_ONE n \<longleftrightarrow> n = 24"
  unfolding single_bits bit_push_one by auto

lemma bit_types [mask_bits]:
  "bit MACH_PORT_TYPE_SEND n \<longleftrightarrow> n = 16" "bit MACH_PORT_TYPE_RECEIVE n \<longleftrightarrow> n = 17"
  "bit MACH_PORT_TYPE_SEND_ONCE n \<longleftrightarrow> n = 18" "bit MACH_PORT_TYPE_PORT_SET n \<longleftrightarrow> n = 19"
  "bit MACH_PORT_TYPE_DEAD_NAME n \<longleftrightarrow> n = 20"
  unfolding MACH_PORT_TYPE_SEND_def MACH_PORT_TYPE_RECEIVE_def MACH_PORT_TYPE_SEND_ONCE_def
    MACH_PORT_TYPE_PORT_SET_def MACH_PORT_TYPE_DEAD_NAME_def bit_push_one by auto

lemmas field_defs = IE_BITS_TYPE_def IE_BITS_GEN_def IE_BITS_UREFS_def

lemma TYPE_or_COLLISION [ie_fields]: "IE_BITS_TYPE (b OR IE_BITS_COLLISION) = IE_BITS_TYPE b"
  by (rule bit_word_eqI) (auto simp: field_defs bit_simps mask_bits)

section \<open>Lemmas on names\<close>

lemma INDEX_eq_div: "MACH_PORT_INDEX name = unat name div 256"
  by (simp add: MACH_PORT_INDEX_def unat_drop_bit_eq drop_bit_eq_div unat_div)

lemma INDEX_less [name_simps]: "MACH_PORT_INDEX name < 2 ^ 24"
proof -
  have "unat name < 2 ^ LENGTH(32)" by (rule unsigned_less)
  then show ?thesis by (simp add: INDEX_eq_div less_mult_imp_div_less)
qed

lemma bit_nat_bound: "(index::nat) < 2 ^ 24 \<Longrightarrow> bit index n \<Longrightarrow> n < 24"
  by (metis bit_take_bit_iff take_bit_nat_eq_self)

lemma unat_of_nat_index: "index < 2 ^ 24 \<Longrightarrow> unat (of_nat index :: u32) = index"
  by (simp add: unat_of_nat take_bit_nat_eq_self)

lemma INDEX_MAKE [name_simps]:
  "index < 2 ^ 24 \<Longrightarrow> MACH_PORT_INDEX (MACH_PORT_MAKE index gen) = index"
proof -
  assume i: "index < 2 ^ 24"
  have "drop_bit 8 (MACH_PORT_MAKE index gen) = of_nat index"
  proof (rule bit_word_eqI)
    fix n assume "n < LENGTH(32)"
    then show "bit (drop_bit 8 (MACH_PORT_MAKE index gen)) n = bit (of_nat index :: u32) n"
      using bit_nat_bound [OF i, of n] bit_imp_le_length [of gen "24 + (8 + n)"]
      by (auto simp: MACH_PORT_MAKE_def bit_simps)
  qed
  with i show ?thesis
    by (simp add: MACH_PORT_INDEX_def unat_of_nat_index)
qed

lemma GEN_MAKE [name_simps]: "MACH_PORT_GEN (MACH_PORT_MAKE index gen) = IE_BITS_GEN gen"
proof (rule bit_word_eqI)
  fix n assume "n < LENGTH(32)"
  have m: "(255::u32) = mask 8" by (simp add: mask_eq_decr_exp)
  show "bit (MACH_PORT_GEN (MACH_PORT_MAKE index gen)) n = bit (IE_BITS_GEN gen) n"
    unfolding MACH_PORT_GEN_def m
    by (auto simp: MACH_PORT_MAKE_def field_defs bit_simps mask_bits dest: bit_imp_le_length)
qed

lemma MAKE_INDEX_GEN [name_simps]: "MACH_PORT_MAKE (MACH_PORT_INDEX name) (MACH_PORT_GEN name) = name"
proof (rule bit_word_eqI)
  fix n assume "n < LENGTH(32)"
  have m: "(255::u32) = mask 8" by (simp add: mask_eq_decr_exp)
  show "bit (MACH_PORT_MAKE (MACH_PORT_INDEX name) (MACH_PORT_GEN name)) n = bit name n"
    unfolding MACH_PORT_GEN_def m
    by (cases "n < 8")
      (auto simp: MACH_PORT_MAKE_def MACH_PORT_INDEX_def bit_simps dest: bit_imp_le_length)
qed

lemma name_eq_iff: "a = b \<longleftrightarrow> MACH_PORT_INDEX a = MACH_PORT_INDEX b \<and> MACH_PORT_GEN a = MACH_PORT_GEN b"
  by (metis MAKE_INDEX_GEN)

lemma INDEX_mono: "a \<le> b \<Longrightarrow> MACH_PORT_INDEX a \<le> MACH_PORT_INDEX b"
  by (simp add: INDEX_eq_div word_le_nat_alt div_le_mono)

lemma unat_MAKE0: "index < 2 ^ 24 \<Longrightarrow> unat (MACH_PORT_MAKE index 0) = index * 256"
  using unat_of_nat_index [of index]
  by (simp add: MACH_PORT_MAKE_def push_bit_eq_mult unat_word_ariths)

lemma less_MAKE0 [name_simps]:
  "index < 2 ^ 24 \<Longrightarrow> name < MACH_PORT_MAKE index 0 \<longleftrightarrow> MACH_PORT_INDEX name < index"
  by (simp add: word_less_nat_alt unat_MAKE0 INDEX_eq_div div_less_iff_less_mult)

end
