(* ===== verification/Ipc_Table.thy ===== *)
theory Ipc_Table
  imports Prelude
begin

text \<open>
  The arrays of table sizes of \<^verbatim>\<open>src/ipc/ipc_table.c\<close>: \<open>ipc_table_fill\<close> computes the sizes a
  capability table (or a table of dead-name requests) steps through as it grows,
  \<open>ipc_table_init\<close> builds the two arrays the kernel uses.  The comment of
  \<^verbatim>\<open>src/ipc/ipc_table.h\<close> states what the rest of the subsystem relies on: the sizes
  increase strictly, the array for entries ends with two equal elements that do not
  exceed \<open>MACH_PORT_INDEX(MACH_PORT_DEAD)\<close>, the array for dead-name requests ends with
  zero.  The page size is an argument; an array filled from index 0 upwards is the
  list of the elements stored so far.
\<close>

section \<open>Definitions\<close>

text \<open>The first loop: powers of two below the page size.\<close>

function ipc_table_fill_pow2 ::
    "nat \<Rightarrow> nat \<Rightarrow> nat \<Rightarrow> nat \<Rightarrow> nat list \<Rightarrow> nat \<Rightarrow> nat list \<times> nat" where
  "ipc_table_fill_pow2 page_size num minsize elemsize its sz =
     (if length its < num \<and> sz < page_size \<and> 0 < sz then
        ipc_table_fill_pow2 page_size num minsize elemsize
          (if minsize \<le> sz then its @ [sz div elemsize] else its) (sz * 2)
      else (its, sz))"
  by pat_completeness auto
termination
  by (relation "measure (\<lambda>(p, n, m, e, its, sz). p - sz)") auto

text \<open>
  The two nested loops over increments of a page, flattened: \<open>period\<close> counts the inner
  loop, and when it reaches 15 the outer loop doubles \<open>incrsize\<close> (up to eight pages).
\<close>

function ipc_table_fill_pages ::
    "nat \<Rightarrow> nat \<Rightarrow> nat \<Rightarrow> nat \<Rightarrow> nat list \<Rightarrow> nat \<Rightarrow> nat \<Rightarrow> nat \<Rightarrow> nat list" where
  "ipc_table_fill_pages page_size num minsize elemsize its sz incrsize period =
     (if length its < num \<and> 0 < incrsize then
        if period < 15 then
          ipc_table_fill_pages page_size num minsize elemsize
            (if minsize \<le> sz then its @ [sz div elemsize] else its)
            (sz + incrsize) incrsize (Suc period)
        else
          ipc_table_fill_pages page_size num minsize elemsize its sz
            (if incrsize < page_size * 8 then incrsize * 2 else incrsize) 0
      else its)"
  by pat_completeness auto
termination
  by (relation "measures [\<lambda>(p, n, m, e, its, sz, i, k). n - length its,
        \<lambda>(p, n, m, e, its, sz, i, k). m - sz,
        \<lambda>(p, n, m, e, its, sz, i, k). if k < 15 then 0 else 1]") auto

declare ipc_table_fill_pow2.simps [simp del] ipc_table_fill_pages.simps [simp del]

definition ipc_table_fill :: "nat \<Rightarrow> nat \<Rightarrow> nat \<Rightarrow> nat \<Rightarrow> nat list" where
  "ipc_table_fill page_size num mn elemsize =
     (let minsize = mn * elemsize;
          (its, sz) = ipc_table_fill_pow2 page_size num minsize elemsize [] 1
      in ipc_table_fill_pages page_size num minsize elemsize its sz page_size 0)"

definition sizeof_ipc_entry :: nat where "sizeof_ipc_entry = 16"
definition sizeof_ipc_tree_entry :: nat where "sizeof_ipc_tree_entry = 32"
definition sizeof_ipc_port_request :: nat where "sizeof_ipc_port_request = 8"

definition ipc_table_entries_size :: nat where "ipc_table_entries_size = 512"
definition ipc_table_dnrequests_size :: nat where "ipc_table_dnrequests_size = 64"

definition ipc_table_entries :: "nat \<Rightarrow> nat list" where
  "ipc_table_entries page_size =
     (let its = ipc_table_fill page_size (ipc_table_entries_size - 1) 4 sizeof_ipc_entry
      in its @ [its ! (ipc_table_entries_size - 2)])"

definition ipc_table_dnrequests :: "nat \<Rightarrow> nat list" where
  "ipc_table_dnrequests page_size =
     ipc_table_fill page_size (ipc_table_dnrequests_size - 1) 2 sizeof_ipc_port_request @ [0]"

text \<open>
  What \<^verbatim>\<open>ipc_table.h\<close> requires of the array for entries and of the array for dead-name
  requests.
\<close>

definition its_entries_wf :: "nat list \<Rightarrow> bool" where
  "its_entries_wf its \<longleftrightarrow>
     2 \<le> length its \<and> sorted_wrt (<) (butlast its) \<and>
     its ! (length its - 1) = its ! (length its - 2) \<and>
     (\<forall>x\<in>set its. 1 < x \<and> x \<le> MACH_PORT_INDEX MACH_PORT_DEAD)"

definition its_dnrequests_wf :: "nat list \<Rightarrow> bool" where
  "its_dnrequests_wf its \<longleftrightarrow>
     2 \<le> length its \<and> sorted_wrt (<) (butlast its) \<and> last its = 0 \<and>
     (\<forall>x\<in>set (butlast its). 1 < x)"

section \<open>The sizes increase strictly\<close>

text \<open>
  While the arrays are filled, every stored element is below the quotient of the size
  that is tried next, and the elements increase.
\<close>

definition fill_inv :: "nat \<Rightarrow> nat \<Rightarrow> nat list \<Rightarrow> nat \<Rightarrow> bool" where
  "fill_inv minsize elemsize its sz \<longleftrightarrow>
     sorted_wrt (<) its \<and> (\<forall>x\<in>set its. x < sz div elemsize \<and> minsize div elemsize \<le> x)"

lemma div_less_add: "0 < (e::nat) \<Longrightarrow> e \<le> d \<Longrightarrow> s div e < (s + d) div e"
  by (metis add_le_cancel_left div_add_self2 div_le_mono lessI less_le_trans not_gr_zero
      Suc_eq_plus1)

lemma fill_inv_step:
  assumes "fill_inv m e its sz" and "0 < e" and "e \<le> d \<or> \<not> m \<le> sz"
  shows "fill_inv m e (if m \<le> sz then its @ [sz div e] else its) (sz + d)"
proof (cases "m \<le> sz")
  case True
  with assms(2,3) have "sz div e < (sz + d) div e" by (auto intro: div_less_add)
  with assms(1) True show ?thesis
    by (auto simp: fill_inv_def sorted_wrt_append div_le_mono dest: less_trans)
next
  case False
  with assms(1) show ?thesis
    by (auto simp: fill_inv_def intro: less_le_trans [OF _ div_le_mono])
qed

lemma fill_pow2_inv:
  assumes "fill_inv m e its sz" and "0 < e" and "e \<le> m" and "0 < sz"
    and "length its \<le> num"
    and "ipc_table_fill_pow2 p num m e its sz = (its', sz')"
  shows "fill_inv m e its' sz' \<and> length its' \<le> num \<and> (length its' < num \<longrightarrow> p \<le> sz')"
  using assms
proof (induction p num m e its sz arbitrary: its' sz' rule: ipc_table_fill_pow2.induct)
  case (1 p num m e its sz)
  show ?case
  proof (cases "length its < num \<and> sz < p \<and> 0 < sz")
    case True
    have "fill_inv m e (if m \<le> sz then its @ [sz div e] else its) (sz * 2)"
      unfolding mult_2_right
      by (rule fill_inv_step) (use "1.prems" in auto)
    with True "1.prems" show ?thesis
      by (intro "1.IH") (auto simp: ipc_table_fill_pow2.simps [of p num m e its sz])
  next
    case False
    with "1.prems" show ?thesis
      by (auto simp: ipc_table_fill_pow2.simps [of p num m e its sz])
  qed
qed

lemma fill_pages_inv:
  assumes "fill_inv m e its sz" and "0 < e" and "e \<le> incr" and "length its \<le> num"
  shows "sorted_wrt (<) (ipc_table_fill_pages p num m e its sz incr k)
       \<and> length (ipc_table_fill_pages p num m e its sz incr k) = num
       \<and> (\<forall>x\<in>set (ipc_table_fill_pages p num m e its sz incr k). m div e \<le> x)"
  using assms
proof (induction p num m e its sz incr k rule: ipc_table_fill_pages.induct)
  case (1 p num m e its sz incr k)
  show ?case
  proof (cases "length its < num \<and> 0 < incr")
    case True
    have "fill_inv m e (if m \<le> sz then its @ [sz div e] else its) (sz + incr)"
      using fill_inv_step [of m e its sz incr] "1.prems" by auto
    with True "1.prems" "1.IH" show ?thesis
      by (auto simp: ipc_table_fill_pages.simps [of p num m e its sz incr k])
  next
    case False
    with "1.prems" show ?thesis
      by (auto simp: ipc_table_fill_pages.simps [of p num m e its sz incr k] fill_inv_def)
  qed
qed

lemma ipc_table_fill_sorted:
  assumes "0 < e" and "0 < mn" and "e \<le> p"
  shows "sorted_wrt (<) (ipc_table_fill p num mn e)"
    and "length (ipc_table_fill p num mn e) = num"
    and "\<forall>x\<in>set (ipc_table_fill p num mn e). mn \<le> x"
proof -
  obtain its sz where f: "ipc_table_fill_pow2 p num (mn * e) e [] 1 = (its, sz)"
    by fastforce
  then have f': "ipc_table_fill p num mn e = ipc_table_fill_pages p num (mn * e) e its sz p 0"
    by (simp add: ipc_table_fill_def)
  have i: "fill_inv (mn * e) e [] 1" by (simp add: fill_inv_def)
  from assms have "e \<le> mn * e" by simp
  with fill_pow2_inv [OF i assms(1) this _ _ f]
  have "fill_inv (mn * e) e its sz" and "length its \<le> num" by auto
  from fill_pages_inv [OF this(1) assms(1,3) this(2), of p 0] assms(1)
  show "sorted_wrt (<) (ipc_table_fill p num mn e)"
    and "length (ipc_table_fill p num mn e) = num"
    and "\<forall>x\<in>set (ipc_table_fill p num mn e). mn \<le> x"
    by (simp_all add: f')
qed

section \<open>The sizes stay within the name space\<close>

lemma fill_pow2_bound:
  assumes "\<forall>x\<in>set its. x \<le> 2 * p div e" and "sz \<le> 2 * p"
    and "ipc_table_fill_pow2 p num m e its sz = (its', sz')"
  shows "(\<forall>x\<in>set its'. x \<le> 2 * p div e) \<and> sz' \<le> 2 * p"
  using assms
proof (induction p num m e its sz arbitrary: its' sz' rule: ipc_table_fill_pow2.induct)
  case (1 p num m e its sz)
  show ?case
  proof (cases "length its < num \<and> sz < p \<and> 0 < sz")
    case True
    with "1.prems" show ?thesis
      by (intro "1.IH") (auto simp: ipc_table_fill_pow2.simps [of p num m e its sz]
          intro: div_le_mono)
  next
    case False
    with "1.prems" show ?thesis
      by (auto simp: ipc_table_fill_pow2.simps [of p num m e its sz])
  qed
qed

lemma fill_pages_bound:
  assumes "\<forall>x\<in>set its. x \<le> (2 * p + 16 * p * num) div e" and "m \<le> sz"
    and "incr \<le> 16 * p" and "sz \<le> 2 * p + 16 * p * length its"
  shows "\<forall>x\<in>set (ipc_table_fill_pages p num m e its sz incr k). x \<le> (2 * p + 16 * p * num) div e"
  using assms
proof (induction p num m e its sz incr k rule: ipc_table_fill_pages.induct)
  case (1 p num m e its sz incr k)
  note unfold = ipc_table_fill_pages.simps [of p num m e its sz incr k]
  show ?case
  proof (cases "length its < num \<and> 0 < incr")
    case True
    have sz: "sz div e \<le> (2 * p + 16 * p * num) div e"
      using "1.prems"(4) mult_le_mono2 [of "length its" num "16 * p"] True
      by (intro div_le_mono) linarith
    show ?thesis
    proof (cases "k < 15")
      case k: True
      have "\<forall>x\<in>set (ipc_table_fill_pages p num m e (its @ [sz div e]) (sz + incr) incr (Suc k)).
              x \<le> (2 * p + 16 * p * num) div e"
      proof (rule "1.IH"(1) [OF True k, unfolded if_P [OF "1.prems"(2)]])
        show "\<forall>x\<in>set (its @ [sz div e]). x \<le> (2 * p + 16 * p * num) div e"
          using "1.prems"(1) sz by simp
        show "sz + incr \<le> 2 * p + 16 * p * length (its @ [sz div e])"
          using "1.prems"(3,4) by simp
      qed (use "1.prems" in simp_all)
      with True k "1.prems"(2) show ?thesis by (simp add: unfold)
    next
      case k: False
      have "\<forall>x\<in>set (ipc_table_fill_pages p num m e its sz
               (if incr < p * 8 then incr * 2 else incr) 0). x \<le> (2 * p + 16 * p * num) div e"
        by (rule "1.IH"(2) [OF True k]) (use "1.prems" in simp_all)
      with True k show ?thesis by (simp add: unfold)
    qed
  next
    case False
    with "1.prems" show ?thesis by (auto simp: unfold)
  qed
qed

lemma ipc_table_fill_bound:
  assumes "0 < e" and "0 < mn" and "mn * e \<le> p"
  shows "\<forall>x\<in>set (ipc_table_fill p num mn e). x \<le> (2 * p + 16 * p * num) div e"
proof -
  obtain its sz where f: "ipc_table_fill_pow2 p num (mn * e) e [] 1 = (its, sz)"
    by fastforce
  then have f': "ipc_table_fill p num mn e = ipc_table_fill_pages p num (mn * e) e its sz p 0"
    by (simp add: ipc_table_fill_def)
  have "0 < mn * e" using assms by simp
  with assms(3) have "1 \<le> 2 * p" by linarith
  with fill_pow2_bound [of "[]" p e 1 num "mn * e" its sz] f
  have b: "\<forall>x\<in>set its. x \<le> 2 * p div e" "sz \<le> 2 * p" by auto
  have i: "fill_inv (mn * e) e [] 1" by (simp add: fill_inv_def)
  from assms have "e \<le> mn * e" by simp
  with fill_pow2_inv [OF i assms(1) this _ _ f] assms
  have l: "length its \<le> num" "length its < num \<longrightarrow> p \<le> sz" by auto
  have b': "\<forall>x\<in>set its. x \<le> (2 * p + 16 * p * num) div e"
    using b(1) div_le_mono [of "2 * p" "2 * p + 16 * p * num" e] by fastforce
  show ?thesis
  proof (cases "length its < num")
    case True
    with l assms b show ?thesis unfolding f' by (intro fill_pages_bound [OF b']) auto
  next
    case False
    with b' show ?thesis
      unfolding f' by (subst ipc_table_fill_pages.simps) simp
  qed
qed

section \<open>The arrays of the kernel\<close>

lemma INDEX_DEAD: "MACH_PORT_INDEX MACH_PORT_DEAD = 2 ^ 24 - 1"
  by (simp add: INDEX_eq_div MACH_PORT_DEAD_def unsigned_minus_1_eq_mask mask_eq_exp_minus_1)

lemma ipc_table_entries_wf:
  assumes "64 \<le> page_size" and "page_size \<le> 2 ^ 15"
  shows "length (ipc_table_entries page_size) = ipc_table_entries_size \<and>
         its_entries_wf (ipc_table_entries page_size)"
proof -
  define its where "its = ipc_table_fill page_size 511 4 16"
  have l: "length its = 511" and s: "sorted_wrt (<) its" and m: "\<forall>x\<in>set its. 4 \<le> x"
    unfolding its_def using ipc_table_fill_sorted [of 16 4 page_size 511] assms by auto
  have "\<forall>x\<in>set its. x \<le> (2 * page_size + 16 * page_size * 511) div 16"
    unfolding its_def using assms ipc_table_fill_bound [of 16 4 page_size 511] by simp
  with assms(2) have b: "\<forall>x\<in>set its. x \<le> 2 ^ 24 - 1" by fastforce
  have e: "ipc_table_entries page_size = its @ [its ! 510]"
    by (simp add: ipc_table_entries_def its_def ipc_table_entries_size_def sizeof_ipc_entry_def
        Let_def)
  have "its ! 510 \<in> set its" using l by simp
  with m b have x: "\<forall>x\<in>set (its @ [its ! 510]). 1 < x \<and> x \<le> 2 ^ 24 - 1" by fastforce
  have "its_entries_wf (its @ [its ! 510])"
    unfolding its_entries_wf_def INDEX_DEAD using l s x by (simp add: nth_append)
  then show ?thesis by (simp add: e l ipc_table_entries_size_def)
qed

lemma ipc_table_dnrequests_wf:
  assumes "16 \<le> page_size"
  shows "length (ipc_table_dnrequests page_size) = ipc_table_dnrequests_size \<and>
         its_dnrequests_wf (ipc_table_dnrequests page_size)"
  using ipc_table_fill_sorted [of 8 2 page_size 63] assms
  by (auto simp: ipc_table_dnrequests_def its_dnrequests_wf_def ipc_table_dnrequests_size_def
      sizeof_ipc_port_request_def)

section \<open>Properties\<close>

text \<open>C39: For every page size from 64 bytes to 32 kilobytes the array of table sizes for spaces has the
configured length, its sizes increase strictly up to the last which is repeated, and no
size lets a table index reach the index of the dead name.\<close>

theorem table_entries_sizes:
  assumes "64 \<le> page_size" and "page_size \<le> 2 ^ 15"
  shows "length (ipc_table_entries page_size) = ipc_table_entries_size \<and>
         its_entries_wf (ipc_table_entries page_size)"
  by (rule ipc_table_entries_wf [OF assms])

theorem table_entries_sizes_witness:
  "(64 :: nat) \<le> 4096 \<and> (4096 :: nat) \<le> 2 ^ 15 \<and>
   length (ipc_table_entries 4096) = ipc_table_entries_size \<and> its_entries_wf (ipc_table_entries 4096)"
  using table_entries_sizes [of 4096] by simp



end
