(* ===== verification/Ipc_Splay.thy ===== *)
theory Ipc_Splay
  imports Prelude "HOL-Library.Tree"
begin

text \<open>
  The splay trees of \<^verbatim>\<open>src/ipc/ipc_splay.c\<close>, which hold the entries of a space that do not
  fit into its table.  The tree is kept in the unassembled form the source describes:
  \<open>ist_root\<close> is the middle tree of the last top-down splay, \<open>ist_ltree\<close> and \<open>ist_rtree\<close> are
  the left and right trees.  The pointer \<open>ist_ltreep\<close> always points at the right child of
  the largest entry of the left tree, so a left tree with its open end is the list of
  the nodes on its right spine, from the top, each with its left subtree; the right
  tree is represented in the same way.  Storing a tree through \<open>ist_ltreep\<close> and reading
  \<open>ist_ltree\<close> afterwards is \<open>ltree_close\<close>.

  The traversal inverts child pointers on its way down; the chain of inverted pointers
  from \<open>parent\<close> upwards is a list of nodes whose inverted child field is left empty.

  The lemmas show that each operation is correct with respect to the sequence of
  entries in name order: \<open>ist_inorder\<close> is the abstraction function, \<open>ist_inv\<close> the
  representation invariant.
\<close>

section \<open>Entries and trees\<close>

text \<open>
  \<open>ie_request\<close> is also \<open>ie_next\<close> (the two share storage in the union \<open>index\<close>); \<open>ie_index\<close>
  is the field of the union \<open>hash\<close> that the local reverse hash table uses.
\<close>

record ipc_entry =
  ie_bits :: ipc_entry_bits_t
  ie_object :: ptr
  ie_request :: nat
  ie_index :: nat

record ipc_tree_entry =
  ite_entry :: ipc_entry
  ite_name :: mach_port_t
  ite_space :: ptr

type_synonym ite = "ipc_tree_entry tree"
type_synonym ltree = "(ite \<times> ipc_tree_entry) list"
type_synonym rtree = "(ipc_tree_entry \<times> ite) list"

record ipc_splay_tree =
  ist_name :: mach_port_t
  ist_root :: ite
  ist_ltree :: ltree
  ist_rtree :: rtree

definition MACH_PORT_SMALLEST :: mach_port_t where "MACH_PORT_SMALLEST = 0"
definition MACH_PORT_LARGEST :: mach_port_t where "MACH_PORT_LARGEST = NOT 0"

fun ltree_close :: "ltree \<Rightarrow> ite \<Rightarrow> ite" where
  "ltree_close [] t = t"
| "ltree_close ((l, x) # ls) t = Node l x (ltree_close ls t)"

fun rtree_close :: "rtree \<Rightarrow> ite \<Rightarrow> ite" where
  "rtree_close [] t = t"
| "rtree_close ((x, r) # rs) t = Node (rtree_close rs t) x r"

section \<open>Primitive operations\<close>

fun link_left :: "ite \<Rightarrow> ltree \<Rightarrow> ite \<times> ltree" where
  "link_left (Node l x r) ls = (r, ls @ [(l, x)])"
| "link_left Leaf ls = (Leaf, ls)"

fun link_right :: "ite \<Rightarrow> rtree \<Rightarrow> ite \<times> rtree" where
  "link_right (Node l x r) rs = (l, rs @ [(x, r)])"
| "link_right Leaf rs = (Leaf, rs)"

fun rotate_left :: "ite \<Rightarrow> ite" where
  "rotate_left (Node l x (Node rl y rr)) = Node (Node l x rl) y rr"
| "rotate_left t = t"

fun rotate_right :: "ite \<Rightarrow> ite" where
  "rotate_right (Node (Node ll y lr) x r) = Node ll y (Node lr x r)"
| "rotate_right t = t"

text \<open>One iteration of the loop of \<open>ipc_splay_prim_lookup\<close>; \<open>None\<close> when the loop ends.\<close>

fun ipc_splay_prim_step :: "mach_port_t \<Rightarrow> ite \<Rightarrow> ltree \<Rightarrow> rtree \<Rightarrow> (ite \<times> ltree \<times> rtree) option" where
  "ipc_splay_prim_step name Leaf ls rs = None"
| "ipc_splay_prim_step name (Node l x r) ls rs =
     (if name = ite_name x then None
      else if name < ite_name x then
        (case l of
           Leaf \<Rightarrow> None
         | Node ll y lr \<Rightarrow>
             let tname = ite_name y;
                 tree = (if name < tname \<and> ll \<noteq> Leaf then rotate_right (Node l x r) else Node l x r);
                 (tree, rs) = link_right tree rs;
                 (tree, ls) = (if tname < name \<and> lr \<noteq> Leaf then link_left tree ls else (tree, ls))
             in Some (tree, ls, rs))
      else
        (case r of
           Leaf \<Rightarrow> None
         | Node rl y rr \<Rightarrow>
             let tname = ite_name y;
                 tree = (if tname < name \<and> rr \<noteq> Leaf then rotate_left (Node l x r) else Node l x r);
                 (tree, ls) = link_left tree ls;
                 (tree, rs) = (if name < tname \<and> rl \<noteq> Leaf then link_right tree rs else (tree, rs))
             in Some (tree, ls, rs)))"

lemma ipc_splay_prim_step_size:
  "ipc_splay_prim_step name t ls rs = Some (t', ls', rs') \<Longrightarrow> size t' < size t"
  by (cases "(name, t, ls, rs)" rule: ipc_splay_prim_step.cases)
    (auto simp: Let_def split: if_splits tree.splits)

function ipc_splay_prim_loop :: "mach_port_t \<Rightarrow> ite \<Rightarrow> ltree \<Rightarrow> rtree \<Rightarrow> ite \<times> ltree \<times> rtree" where
  "ipc_splay_prim_loop name tree ls rs =
     (case ipc_splay_prim_step name tree ls rs of
        None \<Rightarrow> (tree, ls, rs)
      | Some (tree', ls', rs') \<Rightarrow> ipc_splay_prim_loop name tree' ls' rs')"
  by pat_completeness auto
termination
  by (relation "measure (\<lambda>(name, tree, ls, rs). size tree)")
    (auto dest: ipc_splay_prim_step_size)

declare ipc_splay_prim_loop.simps [simp del]

definition ipc_splay_prim_lookup :: "mach_port_t \<Rightarrow> ite \<Rightarrow> ite \<times> ltree \<times> rtree" where
  "ipc_splay_prim_lookup name tree = ipc_splay_prim_loop name tree [] []"

fun ipc_splay_prim_assemble :: "ite \<Rightarrow> ltree \<Rightarrow> rtree \<Rightarrow> ite" where
  "ipc_splay_prim_assemble (Node l x r) ls rs = Node (ltree_close ls l) x (rtree_close rs r)"
| "ipc_splay_prim_assemble Leaf ls rs = Leaf"

section \<open>Operations on splay trees\<close>

definition ipc_splay_tree_init :: "ipc_splay_tree \<Rightarrow> ipc_splay_tree" where
  "ipc_splay_tree_init splay = splay\<lparr>ist_root := Leaf\<rparr>"

text \<open>A fresh structure on the stack, after \<open>ipc_splay_tree_init\<close>.\<close>

definition ist_fresh :: ipc_splay_tree where
  "ist_fresh = \<lparr>ist_name = 0, ist_root = Leaf, ist_ltree = [], ist_rtree = []\<rparr>"

definition ipc_splay_tree_pick :: "ipc_splay_tree \<Rightarrow> (mach_port_t \<times> ipc_tree_entry) option" where
  "ipc_splay_tree_pick splay =
     (case ist_root splay of Leaf \<Rightarrow> None | Node l x r \<Rightarrow> Some (ite_name x, x))"

text \<open>
  The block that most operations start with: unless the last lookup was for the same
  name, put the tree together and splay at \<open>name\<close>.
\<close>

definition ist_seek :: "ipc_splay_tree \<Rightarrow> mach_port_t \<Rightarrow> ite \<times> ltree \<times> rtree" where
  "ist_seek splay name =
     (if ist_name splay \<noteq> name then
        ipc_splay_prim_lookup name
          (ipc_splay_prim_assemble (ist_root splay) (ist_ltree splay) (ist_rtree splay))
      else (ist_root splay, ist_ltree splay, ist_rtree splay))"

text \<open>Make \<open>root\<close> the whole tree, with empty left and right trees.\<close>

definition ist_reset :: "ipc_splay_tree \<Rightarrow> ite \<Rightarrow> ipc_splay_tree" where
  "ist_reset splay root =
     (case root of
        Leaf \<Rightarrow> splay\<lparr>ist_root := Leaf\<rparr>
      | Node l x r \<Rightarrow>
          splay\<lparr>ist_root := root, ist_name := ite_name x, ist_ltree := [], ist_rtree := []\<rparr>)"

definition ipc_splay_tree_lookup ::
    "ipc_splay_tree \<Rightarrow> mach_port_t \<Rightarrow> ipc_tree_entry option \<times> ipc_splay_tree" where
  "ipc_splay_tree_lookup splay name =
     (if ist_root splay = Leaf then (None, splay)
      else
        let (root, ls, rs) = ist_seek splay name;
            splay' = splay\<lparr>ist_name := name, ist_root := root, ist_ltree := ls, ist_rtree := rs\<rparr>
        in ((case root of
               Leaf \<Rightarrow> None
             | Node l x r \<Rightarrow> if name \<noteq> ite_name x then None else Some x), splay'))"

definition ipc_splay_tree_insert ::
    "ipc_splay_tree \<Rightarrow> mach_port_t \<Rightarrow> ipc_tree_entry \<Rightarrow> ipc_splay_tree" where
  "ipc_splay_tree_insert splay name entry =
     (let (lchild, rchild) =
        (if ist_root splay = Leaf then (Leaf, Leaf)
         else
           case ist_seek splay name of
             (Leaf, ls, rs) \<Rightarrow> (Leaf, Leaf)
           | (Node l x r, ls, rs) \<Rightarrow>
               if name < ite_name x
               then (ltree_close ls Leaf, rtree_close rs (Node l x r))
               else (ltree_close ls (Node l x r), rtree_close rs Leaf))
      in splay\<lparr>ist_root := Node lchild (entry\<lparr>ite_name := name\<rparr>) rchild, ist_name := name,
               ist_ltree := [], ist_rtree := []\<rparr>)"

text \<open>Joining the two subtrees of a removed node.\<close>

definition ist_join_children :: "ite \<Rightarrow> ite \<Rightarrow> ite" where
  "ist_join_children ltree saved =
     (if ltree = Leaf then saved
      else if saved \<noteq> Leaf then
        let (root, ls, rs) = ipc_splay_prim_lookup MACH_PORT_LARGEST ltree
        in (case ipc_splay_prim_assemble root ls rs of
              Leaf \<Rightarrow> Leaf
            | Node l x r \<Rightarrow> Node l x saved)
      else ltree)"

definition ipc_splay_tree_delete :: "ipc_splay_tree \<Rightarrow> mach_port_t \<Rightarrow> ipc_splay_tree" where
  "ipc_splay_tree_delete splay name =
     (case ist_seek splay name of
        (Leaf, ls, rs) \<Rightarrow> splay
      | (Node l x r, ls, rs) \<Rightarrow>
          ist_reset splay (ist_join_children (ltree_close ls l) (rtree_close rs r)))"

text \<open>The results are the modified tree and the tree \<open>small\<close>.\<close>

definition ipc_splay_tree_split ::
    "ipc_splay_tree \<Rightarrow> mach_port_t \<Rightarrow> ipc_splay_tree \<times> ipc_splay_tree" where
  "ipc_splay_tree_split splay name =
     (if ist_root splay = Leaf then (splay, ist_fresh)
      else
        case ist_seek splay name of
          (Leaf, ls, rs) \<Rightarrow> (splay, ist_fresh)
        | (Node l x r, ls, rs) \<Rightarrow>
            if ite_name x < name then
              (ist_reset splay (rtree_close rs Leaf),
               ist_reset ist_fresh (Node (ltree_close ls l) x r))
            else
              (splay\<lparr>ist_root := Node Leaf x r, ist_name := name, ist_ltree := [], ist_rtree := rs\<rparr>,
               ist_reset ist_fresh (ltree_close ls l)))"

text \<open>The results are \<open>splay\<close> with the entries of \<open>small\<close>, and the emptied \<open>small\<close>.\<close>

definition ipc_splay_tree_join ::
    "ipc_splay_tree \<Rightarrow> ipc_splay_tree \<Rightarrow> ipc_splay_tree \<times> ipc_splay_tree" where
  "ipc_splay_tree_join splay small =
     (let sroot = ipc_splay_prim_assemble (ist_root small) (ist_ltree small) (ist_rtree small);
          small' = small\<lparr>ist_root := Leaf\<rparr>
      in if sroot = Leaf then (splay, small')
         else if ist_root splay = Leaf then (ist_reset splay sroot, small')
         else
           let (root, ls, rs) = ist_seek splay MACH_PORT_SMALLEST
           in case ipc_splay_prim_assemble root ls rs of
                Leaf \<Rightarrow> (splay, small')
              | Node l x r \<Rightarrow> (ist_reset splay (Node sroot x r), small'))"

text \<open>
  The code steps back from the address of a child field to the entry that contains it:
  the last node on the spine.
\<close>

definition ipc_splay_tree_bounds ::
    "ipc_splay_tree \<Rightarrow> mach_port_t \<Rightarrow> mach_port_t \<times> mach_port_t \<times> ipc_splay_tree" where
  "ipc_splay_tree_bounds splay name =
     (if ist_root splay = Leaf then (MACH_PORT_LARGEST, MACH_PORT_SMALLEST, splay)
      else
        let (root, ls, rs) = ist_seek splay name;
            splay' = splay\<lparr>ist_name := name, ist_root := root, ist_ltree := ls, ist_rtree := rs\<rparr>
        in case root of
             Leaf \<Rightarrow> (MACH_PORT_LARGEST, MACH_PORT_SMALLEST, splay')
           | Node l x r \<Rightarrow>
               let rname = ite_name x;
                   lower = (if rname \<le> name then rname
                            else if ls = [] then MACH_PORT_LARGEST
                            else ite_name (snd (last ls)));
                   upper = (if name \<le> rname then rname
                            else if rs = [] then MACH_PORT_SMALLEST
                            else ite_name (fst (last rs)))
               in (lower, upper, splay'))"

section \<open>Traversal by pointer inversion\<close>

text \<open>
  A traversal in progress: the current node with its subtrees, and the chain of its
  ancestors, in each of which the child field towards the current node is inverted.
\<close>

datatype traversal =
    Traverse ite "(ite \<times> ipc_tree_entry \<times> ite) list"
  | Traversed ite

fun traverse_left :: "ite \<Rightarrow> (ite \<times> ipc_tree_entry \<times> ite) list \<Rightarrow> traversal" where
  "traverse_left (Node (Node ll y lr) x r) parent = traverse_left (Node ll y lr) ((Leaf, x, r) # parent)"
| "traverse_left current parent = Traverse current parent"

fun traverse_back :: "ite \<Rightarrow> (ite \<times> ipc_tree_entry \<times> ite) list \<Rightarrow> traversal" where
  "traverse_back current [] = Traversed current"
| "traverse_back current ((l, y, r) # parent) =
     (case current of
        Leaf \<Rightarrow> Traversed Leaf
      | Node cl x cr \<Rightarrow>
          if ite_name x < ite_name y then Traverse (Node current y r) parent
          else traverse_back (Node l y current) parent)"

fun traverse_right :: "ite \<Rightarrow> (ite \<times> ipc_tree_entry \<times> ite) list \<Rightarrow> traversal" where
  "traverse_right (Node l x (Node rl y rr)) parent = traverse_left (Node rl y rr) ((l, x, Leaf) # parent)"
| "traverse_right current parent = traverse_back current parent"

definition ipc_splay_traverse_start :: "ipc_splay_tree \<Rightarrow> traversal" where
  "ipc_splay_traverse_start splay =
     (case ipc_splay_prim_assemble (ist_root splay) (ist_ltree splay) (ist_rtree splay) of
        Leaf \<Rightarrow> Traversed Leaf
      | Node l x r \<Rightarrow> traverse_left (Node l x r) [])"

text \<open>Deletion of the current node, on the four shapes the code distinguishes.\<close>

fun traverse_delete :: "ite \<Rightarrow> (ite \<times> ipc_tree_entry \<times> ite) list \<Rightarrow> traversal" where
  "traverse_delete Leaf parent = Traversed Leaf"
| "traverse_delete (Node Leaf x Leaf) [] = Traversed Leaf"
| "traverse_delete (Node Leaf x Leaf) ((l, y, r) # parent) =
     (if ite_name x < ite_name y then Traverse (Node Leaf y r) parent
      else traverse_back (Node l y Leaf) parent)"
| "traverse_delete (Node Leaf x r) parent = traverse_left r parent"
| "traverse_delete (Node l x Leaf) parent = traverse_back l parent"
| "traverse_delete (Node l x r) parent =
     (let (current, ls, rs) = ipc_splay_prim_lookup MACH_PORT_LARGEST l
      in case ipc_splay_prim_assemble current ls rs of
           Leaf \<Rightarrow> Traversed Leaf
         | Node cl y cr \<Rightarrow> traverse_right (Node cl y r) parent)"

fun ipc_splay_traverse_next :: "traversal \<Rightarrow> bool \<Rightarrow> traversal" where
  "ipc_splay_traverse_next (Traverse current parent) delete =
     (if \<not> delete then traverse_right current parent else traverse_delete current parent)"
| "ipc_splay_traverse_next (Traversed root) delete = Traversed root"

definition ipc_splay_traverse_finish :: "ipc_splay_tree \<Rightarrow> ite \<Rightarrow> ipc_splay_tree" where
  "ipc_splay_traverse_finish splay root = ist_reset splay root"

text \<open>
  The loop of the usage comment: \<open>body\<close> is run on the current entry and tells whether
  to delete it.  The fuel bounds the number of entries; \<open>None\<close> means it ran out.
\<close>

fun ipc_splay_traverse_loop ::
    "nat \<Rightarrow> (ipc_tree_entry \<Rightarrow> 's \<Rightarrow> bool \<times> 's) \<Rightarrow> traversal \<Rightarrow> 's \<Rightarrow> (ite \<times> 's) option" where
  "ipc_splay_traverse_loop fuel body (Traversed root) s = Some (root, s)"
| "ipc_splay_traverse_loop fuel body (Traverse Leaf parent) s = None"
| "ipc_splay_traverse_loop 0 body (Traverse (Node l x r) parent) s = None"
| "ipc_splay_traverse_loop (Suc fuel) body (Traverse (Node l x r) parent) s =
     (let (delete, s') = body x s
      in ipc_splay_traverse_loop fuel body
           (ipc_splay_traverse_next (Traverse (Node l x r) parent) delete) s')"

section \<open>Entries in name order\<close>

abbreviation names :: "ipc_tree_entry list \<Rightarrow> mach_port_t list" where
  "names xs \<equiv> map ite_name xs"

abbreviation ordered :: "ipc_tree_entry list \<Rightarrow> bool" where
  "ordered xs \<equiv> sorted_wrt (<) (names xs)"

definition ltree_inorder :: "ltree \<Rightarrow> ipc_tree_entry list" where
  "ltree_inorder ls = concat (map (\<lambda>(l, x). inorder l @ [x]) ls)"

definition rtree_inorder :: "rtree \<Rightarrow> ipc_tree_entry list" where
  "rtree_inorder rs = concat (rev (map (\<lambda>(x, r). x # inorder r) rs))"

definition ist_inorder :: "ipc_splay_tree \<Rightarrow> ipc_tree_entry list" where
  "ist_inorder splay =
     (if ist_root splay = Leaf then []
      else ltree_inorder (ist_ltree splay) @ inorder (ist_root splay) @ rtree_inorder (ist_rtree splay))"

text \<open>What a splay at \<open>name\<close> leaves: left tree below, right tree above, a tight middle tree.\<close>

fun splayed_at :: "mach_port_t \<Rightarrow> ite \<times> ltree \<times> rtree \<Rightarrow> bool" where
  "splayed_at name (Leaf, ls, rs) = False"
| "splayed_at name (Node l x r, ls, rs) =
     ((\<forall>y\<in>set (ltree_inorder ls). ite_name y < name) \<and>
      (\<forall>y\<in>set (rtree_inorder rs). name < ite_name y) \<and>
      (name < ite_name x \<longrightarrow> l = Leaf) \<and> (ite_name x < name \<longrightarrow> r = Leaf))"

definition ist_inv :: "ipc_splay_tree \<Rightarrow> bool" where
  "ist_inv splay \<longleftrightarrow>
     ordered (ist_inorder splay) \<and>
     (ist_root splay \<noteq> Leaf \<longrightarrow>
        splayed_at (ist_name splay) (ist_root splay, ist_ltree splay, ist_rtree splay))"

lemma ltree_inorder_simps [simp]:
  "ltree_inorder [] = []"
  "ltree_inorder ((l, x) # ls) = inorder l @ x # ltree_inorder ls"
  "ltree_inorder (ls @ ls') = ltree_inorder ls @ ltree_inorder ls'"
  by (simp_all add: ltree_inorder_def)

lemma rtree_inorder_simps [simp]:
  "rtree_inorder [] = []"
  "rtree_inorder ((x, r) # rs) = rtree_inorder rs @ x # inorder r"
  "rtree_inorder (rs @ rs') = rtree_inorder rs' @ rtree_inorder rs"
  by (simp_all add: rtree_inorder_def)

lemma inorder_ltree_close [simp]: "inorder (ltree_close ls t) = ltree_inorder ls @ inorder t"
  by (induction ls t rule: ltree_close.induct) auto

lemma inorder_rtree_close [simp]: "inorder (rtree_close rs t) = inorder t @ rtree_inorder rs"
  by (induction rs t rule: rtree_close.induct) auto

lemma inorder_Nil_iff [simp]: "inorder t = [] \<longleftrightarrow> t = Leaf"
  by (cases t) auto

lemma inorder_assemble:
  "t \<noteq> Leaf \<Longrightarrow> inorder (ipc_splay_prim_assemble t ls rs) = ltree_inorder ls @ inorder t @ rtree_inorder rs"
  by (cases t) auto

lemma assemble_Leaf_iff [simp]: "ipc_splay_prim_assemble t ls rs = Leaf \<longleftrightarrow> t = Leaf"
  by (cases t) auto

section \<open>The top-down splay\<close>

text \<open>
  Each iteration moves a piece off either end of the middle tree; the node at the open
  end of such a piece lies on the right side of \<open>name\<close>.
\<close>

lemma prim_step_pieces:
  assumes "ipc_splay_prim_step name t ls rs = Some (t', ls', rs')"
  obtains nl nr where "ls' = ls @ nl" and "rs' = rs @ nr" and "t' \<noteq> Leaf"
    and "inorder t = ltree_inorder nl @ inorder t' @ rtree_inorder nr"
    and "nl = [] \<or> ite_name (snd (last nl)) < name"
    and "nr = [] \<or> name < ite_name (fst (last nr))"
proof -
  have "\<exists>nl nr. ls' = ls @ nl \<and> rs' = rs @ nr \<and> t' \<noteq> Leaf \<and>
      inorder t = ltree_inorder nl @ inorder t' @ rtree_inorder nr \<and>
      (nl = [] \<or> ite_name (snd (last nl)) < name) \<and> (nr = [] \<or> name < ite_name (fst (last nr)))"
    using assms
    by (cases "(name, t, ls, rs)" rule: ipc_splay_prim_step.cases)
      (auto simp: Let_def split: if_splits tree.splits)
  with that show thesis by blast
qed

lemma prim_step_inorder:
  "ipc_splay_prim_step name t ls rs = Some (t', ls', rs') \<Longrightarrow>
   t' \<noteq> Leaf \<and>
   ltree_inorder ls' @ inorder t' @ rtree_inorder rs' = ltree_inorder ls @ inorder t @ rtree_inorder rs"
  by (erule prim_step_pieces) simp

lemma ltree_inorder_last: "nl \<noteq> [] \<Longrightarrow> \<exists>A. ltree_inorder nl = A @ [snd (last nl)]"
  by (cases nl rule: rev_cases) (auto split: prod.splits)

lemma rtree_inorder_last: "nr \<noteq> [] \<Longrightarrow> \<exists>B. rtree_inorder nr = fst (last nr) # B"
  by (cases nr rule: rev_cases) (auto split: prod.splits)

lemma ordered_below:
  "ordered (A @ z # B) \<Longrightarrow> ite_name z < name \<Longrightarrow> \<forall>y\<in>set (A @ [z]). ite_name y < name"
  by (auto simp: sorted_wrt_append dest: less_trans)

lemma ordered_above:
  "ordered (A @ z # B) \<Longrightarrow> name < ite_name z \<Longrightarrow> \<forall>y\<in>set (z # B). name < ite_name y"
  by (auto simp: sorted_wrt_append dest: less_trans)

lemma prim_step_order:
  assumes s: "ipc_splay_prim_step name t ls rs = Some (t', ls', rs')" and o: "ordered (inorder t)"
    and l: "\<forall>y\<in>set (ltree_inorder ls). ite_name y < name"
    and r: "\<forall>y\<in>set (rtree_inorder rs). name < ite_name y"
  shows "ordered (inorder t') \<and> (\<forall>y\<in>set (ltree_inorder ls'). ite_name y < name) \<and>
         (\<forall>y\<in>set (rtree_inorder rs'). name < ite_name y)"
proof -
  from s obtain nl nr where n: "ls' = ls @ nl" "rs' = rs @ nr"
    and i: "inorder t = ltree_inorder nl @ inorder t' @ rtree_inorder nr"
    and b: "nl = [] \<or> ite_name (snd (last nl)) < name" "nr = [] \<or> name < ite_name (fst (last nr))"
    by (rule prim_step_pieces)
  have "\<forall>y\<in>set (ltree_inorder nl). ite_name y < name"
  proof (cases "nl = []")
    case False
    with ltree_inorder_last obtain A where A: "ltree_inorder nl = A @ [snd (last nl)]" by blast
    with o i have "ordered (A @ snd (last nl) # (inorder t' @ rtree_inorder nr))" by simp
    from ordered_below [OF this] b(1) False show ?thesis by (simp add: A)
  qed simp
  moreover have "\<forall>y\<in>set (rtree_inorder nr). name < ite_name y"
  proof (cases "nr = []")
    case False
    with rtree_inorder_last obtain B where B: "rtree_inorder nr = fst (last nr) # B" by blast
    with o i have "ordered ((ltree_inorder nl @ inorder t') @ fst (last nr) # B)" by simp
    from ordered_above [OF this] b(2) False show ?thesis by (simp add: B)
  qed simp
  moreover from o have "ordered (inorder t')" by (simp add: i sorted_wrt_append)
  ultimately show ?thesis using l r by (auto simp: n)
qed

lemma prim_loop_inorder:
  assumes "ipc_splay_prim_loop name t ls rs = (t', ls', rs')" and "t \<noteq> Leaf"
  shows "t' \<noteq> Leaf \<and>
    ltree_inorder ls' @ inorder t' @ rtree_inorder rs' = ltree_inorder ls @ inorder t @ rtree_inorder rs"
  using assms
proof (induction name t ls rs rule: ipc_splay_prim_loop.induct)
  case (1 name t ls rs)
  show ?case
  proof (cases "ipc_splay_prim_step name t ls rs")
    case None
    with "1.prems" show ?thesis by (simp add: ipc_splay_prim_loop.simps [of name t])
  next
    case (Some a)
    obtain t1 ls1 rs1 where a: "a = (t1, ls1, rs1)" by (cases a)
    from Some a have s: "ipc_splay_prim_step name t ls rs = Some (t1, ls1, rs1)" by simp
    with "1.prems" have "ipc_splay_prim_loop name t1 ls1 rs1 = (t', ls', rs')"
      by (simp add: ipc_splay_prim_loop.simps [of name t])
    with "1.IH" [OF s refl refl] prim_step_inorder [OF s] show ?thesis by simp
  qed
qed

lemma prim_step_None:
  assumes "ipc_splay_prim_step name t ls rs = None" and "t \<noteq> Leaf"
    and "\<forall>y\<in>set (ltree_inorder ls). ite_name y < name"
    and "\<forall>y\<in>set (rtree_inorder rs). name < ite_name y"
  shows "splayed_at name (t, ls, rs)"
  using assms
  by (cases "(name, t, ls, rs)" rule: ipc_splay_prim_step.cases)
    (auto simp: Let_def split: if_splits tree.splits prod.splits)

lemma prim_loop_splayed:
  assumes "t \<noteq> Leaf" and "ordered (inorder t)"
    and "\<forall>y\<in>set (ltree_inorder ls). ite_name y < name"
    and "\<forall>y\<in>set (rtree_inorder rs). name < ite_name y"
  shows "splayed_at name (ipc_splay_prim_loop name t ls rs)"
  using assms
proof (induction name t ls rs rule: ipc_splay_prim_loop.induct)
  case (1 name t ls rs)
  show ?case
  proof (cases "ipc_splay_prim_step name t ls rs")
    case None
    with "1.prems" show ?thesis
      by (simp add: ipc_splay_prim_loop.simps [of name t] prim_step_None)
  next
    case (Some a)
    obtain t1 ls1 rs1 where a: "a = (t1, ls1, rs1)" by (cases a)
    from Some a have s: "ipc_splay_prim_step name t ls rs = Some (t1, ls1, rs1)" by simp
    have "t1 \<noteq> Leaf" using prim_step_inorder [OF s] by blast
    moreover note prim_step_order [OF s "1.prems"(2-4)]
    ultimately have "splayed_at name (ipc_splay_prim_loop name t1 ls1 rs1)"
      using "1.IH" [OF s refl refl] by blast
    with s show ?thesis by (simp add: ipc_splay_prim_loop.simps [of name t])
  qed
qed

lemma prim_lookup_inorder:
  "ipc_splay_prim_lookup name t = (t', ls', rs') \<Longrightarrow> t \<noteq> Leaf \<Longrightarrow>
   t' \<noteq> Leaf \<and> ltree_inorder ls' @ inorder t' @ rtree_inorder rs' = inorder t"
  unfolding ipc_splay_prim_lookup_def by (drule prim_loop_inorder) auto

lemma prim_lookup_splayed:
  "t \<noteq> Leaf \<Longrightarrow> ordered (inorder t) \<Longrightarrow> splayed_at name (ipc_splay_prim_lookup name t)"
  unfolding ipc_splay_prim_lookup_def by (rule prim_loop_splayed) auto

lemma splayed_sides:
  assumes "ordered (ltree_inorder ls @ inorder l @ x # inorder r @ rtree_inorder rs)"
    and "splayed_at name (Node l x r, ls, rs)"
  shows "\<forall>y\<in>set (ltree_inorder ls @ inorder l). ite_name y < name"
    and "\<forall>y\<in>set (inorder r @ rtree_inorder rs). name < ite_name y"
proof -
  show "\<forall>y\<in>set (ltree_inorder ls @ inorder l). ite_name y < name"
  proof (cases "name < ite_name x")
    case True
    with assms(2) show ?thesis by simp
  next
    case False
    with assms show ?thesis by (auto simp: sorted_wrt_append not_less dest: less_le_trans)
  qed
  show "\<forall>y\<in>set (inorder r @ rtree_inorder rs). name < ite_name y"
  proof (cases "ite_name x < name")
    case True
    with assms(2) show ?thesis by simp
  next
    case False
    with assms show ?thesis by (auto simp: sorted_wrt_append not_less dest: le_less_trans)
  qed
qed

text \<open>The block that the operations share.\<close>

lemma ist_seek:
  assumes "ist_inv splay" and "ist_root splay \<noteq> Leaf"
  obtains l x r ls rs where "ist_seek splay name = (Node l x r, ls, rs)"
    and "ist_inorder splay = ltree_inorder ls @ inorder l @ x # inorder r @ rtree_inorder rs"
    and "splayed_at name (Node l x r, ls, rs)"
    and "ordered (ltree_inorder ls @ inorder l @ x # inorder r @ rtree_inorder rs)"
    and "\<forall>y\<in>set (ltree_inorder ls @ inorder l). ite_name y < name"
    and "\<forall>y\<in>set (inorder r @ rtree_inorder rs). name < ite_name y"
proof -
  obtain t ls rs where s: "ist_seek splay name = (t, ls, rs)" by (cases "ist_seek splay name")
  define t0 where "t0 = ipc_splay_prim_assemble (ist_root splay) (ist_ltree splay) (ist_rtree splay)"
  have t0: "t0 \<noteq> Leaf" "inorder t0 = ist_inorder splay" "ordered (inorder t0)"
    using assms by (simp_all add: t0_def inorder_assemble ist_inorder_def ist_inv_def)
  have "t \<noteq> Leaf \<and> ist_inorder splay = ltree_inorder ls @ inorder t @ rtree_inorder rs
      \<and> splayed_at name (t, ls, rs)"
  proof (cases "ist_name splay = name")
    case True
    with s assms show ?thesis by (auto simp: ist_seek_def ist_inorder_def ist_inv_def)
  next
    case False
    with s have "ipc_splay_prim_lookup name t0 = (t, ls, rs)" by (simp add: ist_seek_def t0_def)
    with t0 prim_lookup_inorder [OF this t0(1)] prim_lookup_splayed [OF t0(1,3), of name]
    show ?thesis by simp
  qed
  moreover from assms(1) have "ordered (ist_inorder splay)" by (simp add: ist_inv_def)
  ultimately obtain l x r where t: "t = Node l x r"
    and I: "ist_inorder splay = ltree_inorder ls @ inorder l @ x # inorder r @ rtree_inorder rs"
    and sp: "splayed_at name (Node l x r, ls, rs)"
    and o: "ordered (ltree_inorder ls @ inorder l @ x # inorder r @ rtree_inorder rs)"
    by (cases t) auto
  show thesis using s unfolding t by (rule that [OF _ I sp o splayed_sides [OF o sp]])
qed

lemma filter_around:
  assumes "\<forall>y\<in>set A. f y < (n :: 'a :: linorder)" and "\<forall>y\<in>set B. n < f y"
  shows "filter (\<lambda>y. f y < n) (A @ x # B) = A @ (if f x < n then [x] else [])"
    and "filter (\<lambda>y. n < f y) (A @ x # B) = (if n < f x then [x] else []) @ B"
    and "filter (\<lambda>y. n \<le> f y) (A @ x # B) = (if n \<le> f x then [x] else []) @ B"
    and "filter (\<lambda>y. f y \<noteq> n) (A @ x # B) = A @ (if f x = n then [] else [x]) @ B"
    and "find (\<lambda>y. f y = n) (A @ x # B) = (if f x = n then Some x else None)"
proof -
  have l: "y \<in> set A \<Longrightarrow> f y \<noteq> n" "y \<in> set A \<Longrightarrow> \<not> n < f y" "y \<in> set A \<Longrightarrow> \<not> n \<le> f y" for y
    using assms(1) by fastforce+
  have r: "y \<in> set B \<Longrightarrow> f y \<noteq> n" "y \<in> set B \<Longrightarrow> \<not> f y < n" "y \<in> set B \<Longrightarrow> n \<le> f y" for y
    using assms(2) by fastforce+
  show "filter (\<lambda>y. f y < n) (A @ x # B) = A @ (if f x < n then [x] else [])"
    using assms(1) r by (auto simp: filter_empty_conv)
  show "filter (\<lambda>y. n < f y) (A @ x # B) = (if n < f x then [x] else []) @ B"
    using assms(2) l by (auto simp: filter_empty_conv)
  show "filter (\<lambda>y. n \<le> f y) (A @ x # B) = (if n \<le> f x then [x] else []) @ B"
    using r l by (auto simp: filter_empty_conv)
  show "filter (\<lambda>y. f y \<noteq> n) (A @ x # B) = A @ (if f x = n then [] else [x]) @ B"
    using r l by auto
  have "find (\<lambda>y. f y = n) B = None" using r by (auto simp: find_None_iff)
  moreover have "find (\<lambda>y. f y = n) (A @ x # B) = find (\<lambda>y. f y = n) (x # B)"
    using l(1) by (induction A) auto
  ultimately show "find (\<lambda>y. f y = n) (A @ x # B) = (if f x = n then Some x else None)"
    by simp
qed

section \<open>Correctness of the operations\<close>

lemma ist_inv_reset [simp]: "ordered (inorder root) \<Longrightarrow> ist_inv (ist_reset splay root)"
  by (cases root) (auto simp: ist_reset_def ist_inv_def ist_inorder_def)

lemma ist_inorder_reset [simp]: "ist_inorder (ist_reset splay root) = inorder root"
  by (cases root) (auto simp: ist_reset_def ist_inorder_def)

lemma ist_inorder_empty [simp]: "ist_root splay = Leaf \<Longrightarrow> ist_inorder splay = []"
  by (simp add: ist_inorder_def)

lemma ist_fresh_simps [simp]: "ist_root ist_fresh = Leaf" "ist_inv ist_fresh" "ist_inorder ist_fresh = []"
  by (simp_all add: ist_fresh_def ist_inv_def ist_inorder_def)

lemma rtree_inorder_Nil_iff [simp]: "rtree_inorder rs = [] \<longleftrightarrow> rs = []"
  by (cases rs) auto

lemma ltree_inorder_Nil_iff [simp]: "ltree_inorder ls = [] \<longleftrightarrow> ls = []"
  by (cases ls) auto

text \<open>A lookup finds the entry with the given name, if there is one, and only reshapes the tree.\<close>

lemma ipc_splay_tree_lookup_correct:
  assumes "ist_inv splay" and "ipc_splay_tree_lookup splay name = (res, splay')"
  shows "res = find (\<lambda>y. ite_name y = name) (ist_inorder splay) \<and>
         ist_inorder splay' = ist_inorder splay \<and> ist_inv splay'"
proof (cases "ist_root splay = Leaf")
  case True
  with assms show ?thesis by (auto simp: ipc_splay_tree_lookup_def ist_inorder_def)
next
  case False
  from assms(1) False obtain l x r ls rs where s: "ist_seek splay name = (Node l x r, ls, rs)"
    and I: "ist_inorder splay = ltree_inorder ls @ inorder l @ x # inorder r @ rtree_inorder rs"
    and sp: "splayed_at name (Node l x r, ls, rs)"
    and o: "ordered (ltree_inorder ls @ inorder l @ x # inorder r @ rtree_inorder rs)"
    and lt: "\<forall>y\<in>set (ltree_inorder ls @ inorder l). ite_name y < name"
    and gt: "\<forall>y\<in>set (inorder r @ rtree_inorder rs). name < ite_name y"
    by (rule ist_seek)
  have "find (\<lambda>y. ite_name y = name) (ist_inorder splay) = (if ite_name x = name then Some x else None)"
    using filter_around(5) [OF lt gt] by (simp add: I)
  with assms(2) False s sp o I show ?thesis
    by (auto simp: ipc_splay_tree_lookup_def ist_inorder_def ist_inv_def)
qed

text \<open>Insertion of a new name puts the entry at its place in the order.\<close>

lemma ipc_splay_tree_insert_correct:
  assumes "ist_inv splay" and "name \<notin> set (names (ist_inorder splay))"
  shows "ist_inorder (ipc_splay_tree_insert splay name entry) =
           filter (\<lambda>y. ite_name y < name) (ist_inorder splay) @ entry\<lparr>ite_name := name\<rparr> #
           filter (\<lambda>y. name < ite_name y) (ist_inorder splay) \<and>
         ist_inv (ipc_splay_tree_insert splay name entry)"
proof (cases "ist_root splay = Leaf")
  case True
  then show ?thesis
    by (simp add: ipc_splay_tree_insert_def ist_inorder_def ist_inv_def)
next
  case False
  from assms(1) False obtain l x r ls rs where s: "ist_seek splay name = (Node l x r, ls, rs)"
    and I: "ist_inorder splay = ltree_inorder ls @ inorder l @ x # inorder r @ rtree_inorder rs"
    and sp: "splayed_at name (Node l x r, ls, rs)"
    and o: "ordered (ltree_inorder ls @ inorder l @ x # inorder r @ rtree_inorder rs)"
    and lt: "\<forall>y\<in>set (ltree_inorder ls @ inorder l). ite_name y < name"
    and gt: "\<forall>y\<in>set (inorder r @ rtree_inorder rs). name < ite_name y"
    by (rule ist_seek)
  from assms(2) I have n: "ite_name x \<noteq> name" by auto
  have f: "filter (\<lambda>y. ite_name y < name) (ist_inorder splay) =
           ltree_inorder ls @ inorder l @ (if ite_name x < name then [x] else [])"
    "filter (\<lambda>y. name < ite_name y) (ist_inorder splay) =
           (if name < ite_name x then [x] else []) @ inorder r @ rtree_inorder rs"
    using filter_around(1,2) [OF lt gt, of x] by (simp_all add: I)
  have i: "ist_inorder (ipc_splay_tree_insert splay name entry) =
      filter (\<lambda>y. ite_name y < name) (ist_inorder splay) @ entry\<lparr>ite_name := name\<rparr> #
      filter (\<lambda>y. name < ite_name y) (ist_inorder splay)"
    using False s n sp f
    by (cases "name < ite_name x")
      (auto simp: ipc_splay_tree_insert_def ist_inorder_def not_less)
  have "ordered (ist_inorder (ipc_splay_tree_insert splay name entry))"
    using o lt gt n by (auto simp: i f sorted_wrt_append)
  then have "ist_inv (ipc_splay_tree_insert splay name entry)"
    by (auto simp: ist_inv_def ipc_splay_tree_insert_def Let_def split: prod.splits)
  with i show ?thesis by simp
qed

lemma above_LARGEST: "\<not> MACH_PORT_LARGEST < name"
  by (simp add: MACH_PORT_LARGEST_def not_less word_order.extremum)

lemma below_SMALLEST: "\<not> name < MACH_PORT_SMALLEST"
  by (simp add: MACH_PORT_SMALLEST_def)

lemma splay_largest:
  assumes "t \<noteq> Leaf" and "ordered (inorder t)"
    and "ipc_splay_prim_lookup MACH_PORT_LARGEST t = (t', ls, rs)"
  obtains l x where "t' = Node l x Leaf" and "rs = []" and "inorder t = ltree_inorder ls @ inorder l @ [x]"
proof -
  from prim_lookup_inorder [OF assms(3,1)] obtain l x r where t': "t' = Node l x r"
    and I: "inorder t = ltree_inorder ls @ inorder l @ x # inorder r @ rtree_inorder rs"
    by (cases t') auto
  from prim_lookup_splayed [OF assms(1,2)] assms(3)
  have "splayed_at MACH_PORT_LARGEST (Node l x r, ls, rs)" by (metis t')
  from splayed_sides(2) [OF _ this] assms(2)
  have "set (inorder r @ rtree_inorder rs) = {}"
    unfolding I by (metis above_LARGEST equals0I)
  then have "inorder r @ rtree_inorder rs = []" by (simp only: set_empty)
  then have "r = Leaf" "rs = []" by simp_all
  with t' I show thesis by (intro that) auto
qed

lemma inorder_join_children:
  assumes "ordered (inorder lt)"
  shows "inorder (ist_join_children lt rt) = inorder lt @ inorder rt"
proof (cases "lt = Leaf \<or> rt = Leaf")
  case True
  then show ?thesis by (auto simp: ist_join_children_def)
next
  case False
  obtain t' ls rs where p: "ipc_splay_prim_lookup MACH_PORT_LARGEST lt = (t', ls, rs)"
    by (cases "ipc_splay_prim_lookup MACH_PORT_LARGEST lt")
  from False assms p obtain l x where "t' = Node l x Leaf" "rs = []"
    "inorder lt = ltree_inorder ls @ inorder l @ [x]" by (auto elim: splay_largest)
  with False p show ?thesis by (simp add: ist_join_children_def)
qed

text \<open>Deletion removes exactly the named entry.\<close>

lemma ipc_splay_tree_delete_correct:
  assumes "ist_inv splay" and "name \<in> set (names (ist_inorder splay))"
  shows "ist_inorder (ipc_splay_tree_delete splay name) =
           filter (\<lambda>y. ite_name y \<noteq> name) (ist_inorder splay) \<and>
         ist_inv (ipc_splay_tree_delete splay name)"
proof -
  from assms(2) have "ist_root splay \<noteq> Leaf" by (auto simp: ist_inorder_def)
  with assms(1) obtain l x r ls rs where s: "ist_seek splay name = (Node l x r, ls, rs)"
    and I: "ist_inorder splay = ltree_inorder ls @ inorder l @ x # inorder r @ rtree_inorder rs"
    and sp: "splayed_at name (Node l x r, ls, rs)"
    and o: "ordered (ltree_inorder ls @ inorder l @ x # inorder r @ rtree_inorder rs)"
    and lt: "\<forall>y\<in>set (ltree_inorder ls @ inorder l). ite_name y < name"
    and gt: "\<forall>y\<in>set (inorder r @ rtree_inorder rs). name < ite_name y"
    by (rule ist_seek)
  from assms(2) I lt gt have n: "ite_name x = name" by fastforce
  have "inorder (ist_join_children (ltree_close ls l) (rtree_close rs r)) =
      ltree_inorder ls @ inorder l @ inorder r @ rtree_inorder rs"
    using o by (subst inorder_join_children) (simp_all add: sorted_wrt_append)
  moreover have "filter (\<lambda>y. ite_name y \<noteq> name) (ist_inorder splay) =
      ltree_inorder ls @ inorder l @ inorder r @ rtree_inorder rs"
    using filter_around(4) [OF lt gt, of x] n by (simp add: I)
  moreover have "ordered (ltree_inorder ls @ inorder l @ inorder r @ rtree_inorder rs)"
    using o by (simp add: sorted_wrt_append)
  ultimately show ?thesis by (simp add: ipc_splay_tree_delete_def s)
qed

text \<open>A split moves the entries below \<open>name\<close> into \<open>small\<close>.\<close>

lemma ipc_splay_tree_split_correct:
  assumes "ist_inv splay" and "ipc_splay_tree_split splay name = (splay', small)"
  shows "ist_inorder splay' = filter (\<lambda>y. name \<le> ite_name y) (ist_inorder splay) \<and> ist_inv splay' \<and>
         ist_inorder small = filter (\<lambda>y. ite_name y < name) (ist_inorder splay) \<and> ist_inv small"
proof (cases "ist_root splay = Leaf")
  case True
  with assms show ?thesis by (auto simp: ipc_splay_tree_split_def)
next
  case False
  from assms(1) False obtain l x r ls rs where s: "ist_seek splay name = (Node l x r, ls, rs)"
    and I: "ist_inorder splay = ltree_inorder ls @ inorder l @ x # inorder r @ rtree_inorder rs"
    and sp: "splayed_at name (Node l x r, ls, rs)"
    and o: "ordered (ltree_inorder ls @ inorder l @ x # inorder r @ rtree_inorder rs)"
    and lt: "\<forall>y\<in>set (ltree_inorder ls @ inorder l). ite_name y < name"
    and gt: "\<forall>y\<in>set (inorder r @ rtree_inorder rs). name < ite_name y"
    by (rule ist_seek)
  have f: "filter (\<lambda>y. ite_name y < name) (ist_inorder splay) =
           ltree_inorder ls @ inorder l @ (if ite_name x < name then [x] else [])"
    "filter (\<lambda>y. name \<le> ite_name y) (ist_inorder splay) =
           (if name \<le> ite_name x then [x] else []) @ inorder r @ rtree_inorder rs"
    using filter_around(1,3) [OF lt gt, of x] by (simp_all add: I)
  have os: "ordered (ltree_inorder ls @ inorder l @ [x])" "ordered (ltree_inorder ls @ inorder l)"
    "ordered (x # inorder r @ rtree_inorder rs)" "ordered (rtree_inorder rs)"
    using o by (simp_all add: sorted_wrt_append)
  show ?thesis
  proof (cases "ite_name x < name")
    case True
    with sp have r: "r = Leaf" by simp
    from True False assms(2) s have e: "splay' = ist_reset splay (rtree_close rs Leaf)"
      "small = ist_reset ist_fresh (Node (ltree_close ls l) x r)"
      by (simp_all add: ipc_splay_tree_split_def)
    show ?thesis using True os by (simp add: e f r not_le)
  next
    case n: False
    with False assms(2) s have e: "splay' = splay\<lparr>ist_root := Node Leaf x r, ist_name := name,
        ist_ltree := [], ist_rtree := rs\<rparr>" "small = ist_reset ist_fresh (ltree_close ls l)"
      by (simp_all add: ipc_splay_tree_split_def)
    have i: "ist_inorder splay' = x # inorder r @ rtree_inorder rs"
      by (simp add: e ist_inorder_def)
    have fs: "ist_name splay' = name" "ist_root splay' = Node Leaf x r" "ist_ltree splay' = []"
      "ist_rtree splay' = rs" by (simp_all add: e)
    have "splayed_at name (Node Leaf x r, [], rs)" using sp by auto
    then have "ist_inv splay'" unfolding ist_inv_def i fs using os(3) by blast
    with i show ?thesis using n os(2) f by (simp add: e not_less)
  qed
qed

text \<open>A join puts all entries of \<open>small\<close> before those of \<open>splay\<close>.\<close>

lemma ipc_splay_tree_join_correct:
  assumes "ist_inv splay" and "ist_inv small"
    and "\<forall>a\<in>set (ist_inorder small). \<forall>b\<in>set (ist_inorder splay). ite_name a < ite_name b"
    and "ipc_splay_tree_join splay small = (splay', small')"
  shows "ist_inorder splay' = ist_inorder small @ ist_inorder splay \<and> ist_inv splay' \<and>
         ist_inorder small' = []"
proof -
  define sroot where
    "sroot = ipc_splay_prim_assemble (ist_root small) (ist_ltree small) (ist_rtree small)"
  have sI: "inorder sroot = ist_inorder small"
    by (cases "ist_root small = Leaf") (simp_all add: sroot_def inorder_assemble ist_inorder_def)
  have "ordered (ist_inorder small @ ist_inorder splay)"
    using assms by (auto simp: ist_inv_def sorted_wrt_append)
  show ?thesis
  proof (cases "sroot = Leaf \<or> ist_root splay = Leaf")
    case True
    then consider "sroot = Leaf" | "sroot \<noteq> Leaf" "ist_root splay = Leaf" by blast
    then show ?thesis
    proof cases
      case 1
      with sI have "ist_inorder small = []" by simp
      with 1 assms show ?thesis
        by (auto simp: ipc_splay_tree_join_def Let_def sroot_def [symmetric])
    next
      case 2
      with assms have "splay' = ist_reset splay sroot" "ist_root small' = Leaf"
        by (auto simp: ipc_splay_tree_join_def Let_def sroot_def [symmetric])
      moreover have "ordered (inorder sroot)" using assms(2) by (simp add: sI ist_inv_def)
      ultimately show ?thesis using 2 sI by simp
    qed
  next
    case False
    then have "ist_root splay \<noteq> Leaf" by simp
    with assms(1) obtain l x r ls rs where s: "ist_seek splay MACH_PORT_SMALLEST = (Node l x r, ls, rs)"
    and I: "ist_inorder splay = ltree_inorder ls @ inorder l @ x # inorder r @ rtree_inorder rs"
    and sp: "splayed_at MACH_PORT_SMALLEST (Node l x r, ls, rs)"
    and o: "ordered (ltree_inorder ls @ inorder l @ x # inorder r @ rtree_inorder rs)"
    and lt: "\<forall>y\<in>set (ltree_inorder ls @ inorder l). ite_name y < MACH_PORT_SMALLEST"
    and gt: "\<forall>y\<in>set (inorder r @ rtree_inorder rs). MACH_PORT_SMALLEST < ite_name y"
    by (rule ist_seek)
    from lt have "set (ltree_inorder ls @ inorder l) = {}" by (metis below_SMALLEST equals0I)
    then have "ltree_inorder ls @ inorder l = []" by (simp only: set_empty)
    then have e: "ls = []" "l = Leaf" by simp_all
    with assms(4) False s
    have "splay' = ist_reset splay (Node sroot x (rtree_close rs r))" "ist_inorder small' = []"
      by (auto simp: ipc_splay_tree_join_def Let_def sroot_def [symmetric] ist_inorder_def)
    with e I sI \<open>ordered (ist_inorder small @ ist_inorder splay)\<close> show ?thesis by simp
  qed
qed

text \<open>The bounds are the neighbours of \<open>name\<close> in the tree.\<close>

definition lower_bound :: "mach_port_t \<Rightarrow> ipc_tree_entry list \<Rightarrow> mach_port_t" where
  "lower_bound name xs =
     (case rev (filter (\<lambda>y. ite_name y \<le> name) xs) of [] \<Rightarrow> MACH_PORT_LARGEST | y # ys \<Rightarrow> ite_name y)"

definition upper_bound :: "mach_port_t \<Rightarrow> ipc_tree_entry list \<Rightarrow> mach_port_t" where
  "upper_bound name xs =
     (case filter (\<lambda>y. name \<le> ite_name y) xs of [] \<Rightarrow> MACH_PORT_SMALLEST | y # ys \<Rightarrow> ite_name y)"

lemma filter_le_around:
  assumes "\<forall>y\<in>set A. f y < (n :: 'a :: linorder)" and "\<forall>y\<in>set B. n < f y"
  shows "filter (\<lambda>y. f y \<le> n) (A @ x # B) = A @ (if f x \<le> n then [x] else [])"
proof -
  have "filter (\<lambda>y. f y \<le> n) A = A" "filter (\<lambda>y. f y \<le> n) B = []"
    using assms by (auto simp: filter_empty_conv filter_id_conv not_le less_imp_le)
  then show ?thesis by simp
qed

lemma ipc_splay_tree_bounds_correct:
  assumes "ist_inv splay" and "ipc_splay_tree_bounds splay name = (lower, upper, splay')"
  shows "lower = lower_bound name (ist_inorder splay) \<and> upper = upper_bound name (ist_inorder splay) \<and>
         ist_inorder splay' = ist_inorder splay \<and> ist_inv splay'"
proof (cases "ist_root splay = Leaf")
  case True
  with assms show ?thesis
    by (auto simp: ipc_splay_tree_bounds_def lower_bound_def upper_bound_def)
next
  case False
  from assms(1) False obtain l x r ls rs where s: "ist_seek splay name = (Node l x r, ls, rs)"
    and I: "ist_inorder splay = ltree_inorder ls @ inorder l @ x # inorder r @ rtree_inorder rs"
    and sp: "splayed_at name (Node l x r, ls, rs)"
    and o: "ordered (ltree_inorder ls @ inorder l @ x # inorder r @ rtree_inorder rs)"
    and lt: "\<forall>y\<in>set (ltree_inorder ls @ inorder l). ite_name y < name"
    and gt: "\<forall>y\<in>set (inorder r @ rtree_inorder rs). name < ite_name y"
    by (rule ist_seek)
  let ?splay' = "splay\<lparr>ist_name := name, ist_root := Node l x r, ist_ltree := ls, ist_rtree := rs\<rparr>"
  from False assms(2) s have e: "splay' = ?splay'"
    "lower = (if ite_name x \<le> name then ite_name x else if ls = [] then MACH_PORT_LARGEST
              else ite_name (snd (last ls)))"
    "upper = (if name \<le> ite_name x then ite_name x else if rs = [] then MACH_PORT_SMALLEST
              else ite_name (fst (last rs)))"
    by (simp_all add: ipc_splay_tree_bounds_def Let_def)
  have i: "ist_inorder ?splay' = ist_inorder splay"
    unfolding I by (simp add: ist_inorder_def)
  moreover have "ist_inv ?splay'" unfolding ist_inv_def i using o sp by (simp add: I)
  moreover have "lower = lower_bound name (ist_inorder splay)"
  proof -
    have "filter (\<lambda>y. ite_name y \<le> name) (ist_inorder splay) =
        (ltree_inorder ls @ inorder l) @ (if ite_name x \<le> name then [x] else [])"
      using filter_le_around [OF lt gt, of x] by (simp add: I)
    moreover have "ls \<noteq> [] \<Longrightarrow> \<exists>A. ltree_inorder ls = A @ [snd (last ls)]"
      by (rule ltree_inorder_last)
    moreover have "\<not> ite_name x \<le> name \<Longrightarrow> l = Leaf" using sp by simp
    ultimately show ?thesis by (auto simp: e(2) lower_bound_def)
  qed
  moreover have "upper = upper_bound name (ist_inorder splay)"
  proof -
    have "filter (\<lambda>y. name \<le> ite_name y) (ist_inorder splay) =
        (if name \<le> ite_name x then [x] else []) @ inorder r @ rtree_inorder rs"
      using filter_around(3) [OF lt gt, of x] by (simp add: I)
    moreover have "rs \<noteq> [] \<Longrightarrow> \<exists>B. rtree_inorder rs = fst (last rs) # B"
      by (rule rtree_inorder_last)
    moreover have "\<not> name \<le> ite_name x \<Longrightarrow> r = Leaf" using sp by simp
    ultimately show ?thesis by (auto simp: e(3) upper_bound_def)
  qed
  ultimately show ?thesis by (simp add: e(1))
qed

section \<open>Correctness of the traversal\<close>

text \<open>
  An ancestor chain with the direction of each inverted pointer made explicit, and the
  entries that lie before and after the current subtree.
\<close>

datatype zframe = LF ipc_tree_entry ite | RF ite ipc_tree_entry

fun raw_frame :: "zframe \<Rightarrow> ite \<times> ipc_tree_entry \<times> ite" where
  "raw_frame (LF x r) = (Leaf, x, r)"
| "raw_frame (RF l x) = (l, x, Leaf)"

fun zbefore :: "zframe list \<Rightarrow> ipc_tree_entry list" where
  "zbefore [] = []"
| "zbefore (LF x r # zs) = zbefore zs"
| "zbefore (RF l x # zs) = zbefore zs @ inorder l @ [x]"

fun zafter :: "zframe list \<Rightarrow> ipc_tree_entry list" where
  "zafter [] = []"
| "zafter (LF x r # zs) = x # inorder r @ zafter zs"
| "zafter (RF l x # zs) = zafter zs"

text \<open>A traversal that has passed the entries \<open>kept\<close> and still has to visit \<open>todo\<close>.\<close>

fun traversal_at :: "traversal \<Rightarrow> ipc_tree_entry list \<Rightarrow> ipc_tree_entry list \<Rightarrow> bool" where
  "traversal_at (Traversed root) kept todo \<longleftrightarrow> inorder root = kept \<and> todo = []"
| "traversal_at (Traverse current parent) kept todo \<longleftrightarrow>
     (\<exists>l x r zs. current = Node l x r \<and> parent = map raw_frame zs \<and>
        kept = zbefore zs @ inorder l \<and> todo = x # inorder r @ zafter zs)"

lemma traverse_left_at:
  "t \<noteq> Leaf \<Longrightarrow> traversal_at (traverse_left t (map raw_frame zs)) (zbefore zs) (inorder t @ zafter zs)"
proof (induction t arbitrary: zs)
  case (Node l x r)
  show ?case
  proof (cases l)
    case Leaf
    then show ?thesis by auto
  next
    case (Node ll y lr)
    with Node.IH(1) [of "LF x r # zs"] show ?thesis by simp
  qed
qed simp

lemma traverse_back_at:
  "t \<noteq> Leaf \<Longrightarrow> ordered (zbefore zs @ inorder t @ zafter zs) \<Longrightarrow>
   traversal_at (traverse_back t (map raw_frame zs)) (zbefore zs @ inorder t) (zafter zs)"
proof (induction zs arbitrary: t)
  case (Cons z zs)
  obtain cl c cr where t: "t = Node cl c cr" using Cons.prems(1) by (cases t) auto
  show ?case
  proof (cases z)
    case (LF x r)
    with Cons.prems(2) have "ite_name c < ite_name x" by (simp add: t sorted_wrt_append)
    with LF show ?thesis by (fastforce simp: t)
  next
    case (RF l x)
    with Cons.prems(2) have "\<not> ite_name c < ite_name x" by (auto simp: t sorted_wrt_append)
    with RF Cons.IH [of "Node l x t"] Cons.prems(2) show ?thesis by (simp add: t)
  qed
qed simp

lemma traverse_right_at:
  assumes "ordered (zbefore zs @ inorder l @ x # inorder r @ zafter zs)"
  shows "traversal_at (traverse_right (Node l x r) (map raw_frame zs))
           (zbefore zs @ inorder l @ [x]) (inorder r @ zafter zs)"
proof (cases r)
  case Leaf
  with assms traverse_back_at [of "Node l x r" zs] show ?thesis by simp
next
  case (Node rl y rr)
  with traverse_left_at [of r "RF l x # zs"] show ?thesis by simp
qed

lemma traverse_delete_at:
  assumes "ordered (zbefore zs @ inorder l @ x # inorder r @ zafter zs)"
  shows "traversal_at (traverse_delete (Node l x r) (map raw_frame zs))
           (zbefore zs @ inorder l) (inorder r @ zafter zs)"
proof -
  have o: "ordered (zbefore zs @ inorder l @ inorder r @ zafter zs)"
    using assms by (simp add: sorted_wrt_append)
  consider "l = Leaf" "r = Leaf" | "l = Leaf" "r \<noteq> Leaf" | "l \<noteq> Leaf" "r = Leaf"
    | "l \<noteq> Leaf" "r \<noteq> Leaf" by blast
  then show ?thesis
  proof cases
    case 1
    show ?thesis
    proof (cases zs)
      case (Cons z zs')
      show ?thesis
      proof (cases z)
        case (LF y q)
        with assms Cons 1 have "ite_name x < ite_name y" by (simp add: sorted_wrt_append)
        with 1 Cons LF show ?thesis by fastforce
      next
        case (RF q y)
        with assms Cons 1 have "\<not> ite_name x < ite_name y" by (auto simp: sorted_wrt_append)
        with 1 Cons RF traverse_back_at [of "Node q y Leaf" zs'] o show ?thesis by simp
      qed
    qed (simp add: 1)
  next
    case 2
    with traverse_left_at [of r zs] show ?thesis by (cases r) simp_all
  next
    case 3
    with traverse_back_at [of l zs] o show ?thesis by (cases l) simp_all
  next
    case 4
    obtain t' ls rs where p: "ipc_splay_prim_lookup MACH_PORT_LARGEST l = (t', ls, rs)"
      by (cases "ipc_splay_prim_lookup MACH_PORT_LARGEST l")
    have "ordered (inorder l)" using o by (simp add: sorted_wrt_append)
    with 4 p obtain cl y where "t' = Node cl y Leaf" "rs = []"
      and I: "inorder l = ltree_inorder ls @ inorder cl @ [y]" by (auto elim: splay_largest)
    with 4 p have e: "traverse_delete (Node l x r) (map raw_frame zs) =
        traverse_right (Node (ltree_close ls cl) y r) (map raw_frame zs)"
      by (cases l; cases r) simp_all
    have "ordered (zbefore zs @ inorder (ltree_close ls cl) @ y # inorder r @ zafter zs)"
      using o by (simp add: I)
    from traverse_right_at [OF this] show ?thesis by (simp add: e I)
  qed
qed

lemma traverse_next_at:
  assumes "traversal_at st kept (x # todo)" and "ordered (kept @ x # todo)"
  shows "traversal_at (ipc_splay_traverse_next st delete) (if delete then kept else kept @ [x]) todo"
proof (cases st)
  case (Traverse current parent)
  with assms(1) obtain l r zs where e: "current = Node l x r" "parent = map raw_frame zs"
    "kept = zbefore zs @ inorder l" "todo = inorder r @ zafter zs" by auto
  with assms(2) have "ordered (zbefore zs @ inorder l @ x # inorder r @ zafter zs)" by simp
  from traverse_right_at [OF this] traverse_delete_at [OF this] show ?thesis
    by (simp add: Traverse e)
qed (use assms in simp)

lemma traverse_start_at:
  "traversal_at (ipc_splay_traverse_start splay) [] (ist_inorder splay)"
proof (cases "ist_root splay = Leaf")
  case True
  then show ?thesis by (simp add: ipc_splay_traverse_start_def)
next
  case False
  define t where "t = ipc_splay_prim_assemble (ist_root splay) (ist_ltree splay) (ist_rtree splay)"
  with False have "t \<noteq> Leaf" "inorder t = ist_inorder splay"
    by (simp_all add: inorder_assemble ist_inorder_def)
  with traverse_left_at [of t "[]"] show ?thesis
    by (cases t) (simp_all add: ipc_splay_traverse_start_def t_def [symmetric])
qed

text \<open>The loop of the usage comment, over the sequence of entries.\<close>

fun traverse_list :: "(ipc_tree_entry \<Rightarrow> 's \<Rightarrow> bool \<times> 's) \<Rightarrow> ipc_tree_entry list \<Rightarrow> 's \<Rightarrow> ipc_tree_entry list \<times> 's" where
  "traverse_list body [] s = ([], s)"
| "traverse_list body (x # xs) s =
     (let (delete, s') = body x s; (kept, s'') = traverse_list body xs s'
      in (if delete then kept else x # kept, s''))"

lemma traverse_loop_at:
  assumes "traversal_at st kept todo" and "ordered (kept @ todo)" and "length todo \<le> fuel"
  shows "\<exists>root. ipc_splay_traverse_loop fuel body st s = Some (root, snd (traverse_list body todo s))
           \<and> inorder root = kept @ fst (traverse_list body todo s)"
  using assms
proof (induction todo arbitrary: st kept s fuel)
  case Nil
  then show ?case by (cases st) auto
next
  case (Cons x todo)
  obtain fuel' where f: "fuel = Suc fuel'" using Cons.prems(3) by (cases fuel) auto
  obtain delete s' where b: "body x s = (delete, s')" by (cases "body x s")
  let ?kept = "if delete then kept else kept @ [x]"
  have "ordered (?kept @ todo)" using Cons.prems(2) by (simp add: sorted_wrt_append)
  then have "\<exists>root. ipc_splay_traverse_loop fuel' body (ipc_splay_traverse_next st delete) s' =
        Some (root, snd (traverse_list body todo s')) \<and>
      inorder root = ?kept @ fst (traverse_list body todo s')"
    using Cons.prems(3) f by (intro Cons.IH traverse_next_at Cons.prems) simp_all
  moreover obtain l r parent where "st = Traverse (Node l x r) parent"
    using Cons.prems(1) by (cases st) auto
  ultimately show ?case by (auto simp: f b split: prod.splits)
qed

text \<open>
  A traversal visits every entry once, in name order, and leaves the entries it was
  not told to delete, still in order.
\<close>

lemma ipc_splay_traverse_correct:
  assumes "ist_inv splay" and "length (ist_inorder splay) \<le> fuel"
  shows "\<exists>root. ipc_splay_traverse_loop fuel body (ipc_splay_traverse_start splay) s =
             Some (root, snd (traverse_list body (ist_inorder splay) s)) \<and>
           ist_inorder (ipc_splay_traverse_finish splay root) = fst (traverse_list body (ist_inorder splay) s)
           \<and> inorder root = fst (traverse_list body (ist_inorder splay) s)"
  using traverse_loop_at [OF traverse_start_at, of splay fuel body s] assms
  by (auto simp: ist_inv_def ipc_splay_traverse_finish_def)

section \<open>The interface: a map kept in key order\<close>

text \<open>
  What a client of the tree relies on: \<open>items\<close> is the sequence of entries in key order,
  a lookup may rearrange the tree but not the sequence, an insertion of a new key and a
  deletion of a present key change the sequence at that key only.
\<close>

locale ordered_store =
  fixes inv :: "'t \<Rightarrow> bool" and items :: "'t \<Rightarrow> 'e list" and key :: "'e \<Rightarrow> 'k :: linorder"
    and lookup :: "'t \<Rightarrow> 'k \<Rightarrow> 'e option \<times> 't" and ins :: "'t \<Rightarrow> 'e \<Rightarrow> 't" and del :: "'t \<Rightarrow> 'k \<Rightarrow> 't"
  assumes sorted_items: "inv t \<Longrightarrow> sorted_wrt (<) (map key (items t))"
    and lookup_law: "inv t \<Longrightarrow> lookup t k = (r, t') \<Longrightarrow>
      r = find (\<lambda>e. key e = k) (items t) \<and> items t' = items t \<and> inv t'"
    and ins_law: "inv t \<Longrightarrow> key e \<notin> key ` set (items t) \<Longrightarrow>
      items (ins t e) = filter (\<lambda>y. key y < key e) (items t) @ e # filter (\<lambda>y. key e < key y) (items t) \<and>
      inv (ins t e)"
    and del_law: "inv t \<Longrightarrow> k \<in> key ` set (items t) \<Longrightarrow>
      items (del t k) = filter (\<lambda>y. key y \<noteq> k) (items t) \<and> inv (del t k)"
begin

lemma key_inj: "inv t \<Longrightarrow> a \<in> set (items t) \<Longrightarrow> b \<in> set (items t) \<Longrightarrow> key a = key b \<Longrightarrow> a = b"
  using sorted_items [of t] by (auto simp: strict_sorted_iff distinct_map dest: inj_onD)

lemma lookup_Some: "inv t \<Longrightarrow> fst (lookup t k) = Some e \<longleftrightarrow> e \<in> set (items t) \<and> key e = k"
proof -
  assume i: "inv t"
  obtain r t' where l: "lookup t k = (r, t')" by fastforce
  have "find (\<lambda>e. key e = k) (items t) = Some e \<longleftrightarrow> e \<in> set (items t) \<and> key e = k"
  proof
    assume "find (\<lambda>e. key e = k) (items t) = Some e"
    then show "e \<in> set (items t) \<and> key e = k" by (auto simp: find_Some_iff)
  next
    assume e: "e \<in> set (items t) \<and> key e = k"
    then obtain y where y: "find (\<lambda>e. key e = k) (items t) = Some y"
      by (cases "find (\<lambda>e. key e = k) (items t)") (auto simp: find_None_iff)
    then have "y \<in> set (items t) \<and> key y = k" by (auto simp: find_Some_iff)
    with e y key_inj [OF i] show "find (\<lambda>e. key e = k) (items t) = Some e" by blast
  qed
  with lookup_law [OF i l] l show ?thesis by simp
qed

lemma lookup_None: "inv t \<Longrightarrow> fst (lookup t k) = None \<longleftrightarrow> k \<notin> key ` set (items t)"
  using lookup_Some [of t k] by (metis (no_types, lifting) image_iff not_None_eq)

lemma lookup_ins:
  assumes "inv t" and "key e \<notin> key ` set (items t)"
  shows "fst (lookup (ins t e) k) = (if k = key e then Some e else fst (lookup t k))"
proof -
  note i = ins_law [OF assms]
  then have s: "set (items (ins t e)) = insert e (set (items t))"
    using assms(2) by (auto simp: image_iff neq_iff)
  show ?thesis
  proof (cases "fst (lookup (ins t e) k)")
    case None
    then have n: "k \<noteq> key e" "k \<notin> key ` set (items t)" using lookup_None i s by auto
    with lookup_None [OF assms(1)] have "fst (lookup t k) = None" by blast
    with None n show ?thesis by simp
  next
    case (Some y)
    then have y: "y = e \<or> y \<in> set (items t)" "key y = k" using lookup_Some i s by auto
    show ?thesis
    proof (cases "k = key e")
      case True
      with y assms(2) have "y = e" by (auto simp: image_iff)
      with True Some show ?thesis by simp
    next
      case False
      with y lookup_Some [OF assms(1), of k y] have "fst (lookup t k) = Some y" by auto
      with False Some show ?thesis by simp
    qed
  qed
qed

lemma lookup_del:
  assumes "inv t" and "k' \<in> key ` set (items t)"
  shows "fst (lookup (del t k') k) = (if k = k' then None else fst (lookup t k))"
proof -
  note d = del_law [OF assms]
  then have s: "set (items (del t k')) = {e \<in> set (items t). key e \<noteq> k'}" by auto
  show ?thesis
  proof (cases "fst (lookup (del t k') k)")
    case None
    then have "k \<notin> key ` {e \<in> set (items t). key e \<noteq> k'}" using lookup_None d s by auto
    with lookup_None [OF assms(1), of k] None show ?thesis by (cases "k = k'") auto
  next
    case (Some y)
    then have y: "y \<in> set (items t)" "key y = k" "k \<noteq> k'" using lookup_Some d s by auto
    with lookup_Some [OF assms(1), of k y] Some show ?thesis by simp
  qed
qed

end

definition ist_insert_entry :: "ipc_splay_tree \<Rightarrow> ipc_tree_entry \<Rightarrow> ipc_splay_tree" where
  "ist_insert_entry splay e = ipc_splay_tree_insert splay (ite_name e) e"

interpretation splay: ordered_store ist_inv ist_inorder ite_name
    ipc_splay_tree_lookup ist_insert_entry ipc_splay_tree_delete
proof unfold_locales
  fix t k r t'
  show "ist_inv t \<Longrightarrow> ordered (ist_inorder t)" by (simp add: ist_inv_def)
  show "ist_inv t \<Longrightarrow> ipc_splay_tree_lookup t k = (r, t') \<Longrightarrow>
      r = find (\<lambda>e. ite_name e = k) (ist_inorder t) \<and> ist_inorder t' = ist_inorder t \<and> ist_inv t'"
    by (rule ipc_splay_tree_lookup_correct)
  show "ist_inv t \<Longrightarrow> k \<in> ite_name ` set (ist_inorder t) \<Longrightarrow>
      ist_inorder (ipc_splay_tree_delete t k) = filter (\<lambda>y. ite_name y \<noteq> k) (ist_inorder t) \<and>
      ist_inv (ipc_splay_tree_delete t k)"
    using ipc_splay_tree_delete_correct [of t k] by simp
  fix e
  show "ist_inv t \<Longrightarrow> ite_name e \<notin> ite_name ` set (ist_inorder t) \<Longrightarrow>
      ist_inorder (ist_insert_entry t e) =
        filter (\<lambda>y. ite_name y < ite_name e) (ist_inorder t) @ e #
        filter (\<lambda>y. ite_name e < ite_name y) (ist_inorder t) \<and> ist_inv (ist_insert_entry t e)"
    using ipc_splay_tree_insert_correct [of t "ite_name e" e] by (simp add: ist_insert_entry_def)
qed

section \<open>Properties\<close>

text \<open>A tree with three entries, the last splay at its middle name.\<close>

definition sample_entry :: "mach_port_t \<Rightarrow> ipc_tree_entry" where
  "sample_entry n = \<lparr>ite_entry = \<lparr>ie_bits = 0x10001, ie_object = 64, ie_request = 0, ie_index = 0\<rparr>,
     ite_name = n, ite_space = 16\<rparr>"

definition sample_splay :: ipc_splay_tree where
  "sample_splay = \<lparr>ist_name = 0x501, ist_root = Node Leaf (sample_entry 0x501) Leaf,
     ist_ltree = [(Leaf, sample_entry 0x301)], ist_rtree = [(sample_entry 0x701, Leaf)]\<rparr>"

lemmas sample_simps = sample_splay_def sample_entry_def ist_inorder_def ist_inv_def
  ltree_inorder_def rtree_inorder_def

lemma sample_splay_inv: "ist_inv sample_splay"
  by (simp add: sample_simps)

lemma sample_splay_entries:
  "ist_inorder sample_splay = [sample_entry 0x301, sample_entry 0x501, sample_entry 0x701]"
  "ite_name (sample_entry n) = n"
  by (simp_all add: sample_simps)

text \<open>C28: A lookup in a splay tree returns the entry with the name asked for if the tree holds one
and nothing otherwise; it only rearranges the tree, keeping its entries and its invariant.\<close>

theorem splay_lookup_functional:
  assumes "ist_inv splay"
  shows "(\<forall>e. fst (ipc_splay_tree_lookup splay name) = Some e \<longleftrightarrow>
            e \<in> set (ist_inorder splay) \<and> ite_name e = name) \<and>
         ist_inorder (snd (ipc_splay_tree_lookup splay name)) = ist_inorder splay \<and>
         ist_inv (snd (ipc_splay_tree_lookup splay name))"
  using ipc_splay_tree_lookup_correct [OF assms, of name] splay.lookup_Some [OF assms, of name]
  by (metis prod.collapse)

theorem splay_lookup_functional_witness:
  "ist_inv sample_splay \<and>
   fst (ipc_splay_tree_lookup sample_splay 0x301) = Some (sample_entry 0x301) \<and>
   ist_inv (snd (ipc_splay_tree_lookup sample_splay 0x301))"
  using splay_lookup_functional [OF sample_splay_inv, of "0x301"] sample_splay_inv
  by (simp add: sample_splay_entries)

text \<open>C29: Inserting an entry under a new name puts it at its place in the name order and changes
nothing else, and looking it up afterwards finds it while every other name is found as before.\<close>

theorem splay_insert_functional:
  assumes "ist_inv splay" and "name \<notin> ite_name ` set (ist_inorder splay)"
  shows "ist_inorder (ipc_splay_tree_insert splay name entry) =
           filter (\<lambda>y. ite_name y < name) (ist_inorder splay) @ entry\<lparr>ite_name := name\<rparr> #
           filter (\<lambda>y. name < ite_name y) (ist_inorder splay) \<and>
         ist_inv (ipc_splay_tree_insert splay name entry) \<and>
         (\<forall>n. fst (ipc_splay_tree_lookup (ipc_splay_tree_insert splay name entry) n) =
            (if n = name then Some (entry\<lparr>ite_name := name\<rparr>) else fst (ipc_splay_tree_lookup splay n)))"
proof -
  have "ipc_splay_tree_insert splay name entry = ist_insert_entry splay (entry\<lparr>ite_name := name\<rparr>)"
    by (simp add: ist_insert_entry_def ipc_splay_tree_insert_def)
  then show ?thesis
    using assms splay.ins_law [OF assms(1), of "entry\<lparr>ite_name := name\<rparr>"]
      splay.lookup_ins [OF assms(1), of "entry\<lparr>ite_name := name\<rparr>"] by simp
qed

theorem splay_insert_functional_witness:
  "ist_inv sample_splay \<and> 0x601 \<notin> ite_name ` set (ist_inorder sample_splay) \<and>
   names (ist_inorder (ipc_splay_tree_insert sample_splay 0x601 (sample_entry 0))) =
     [0x301, 0x501, 0x601, 0x701]"
  using splay_insert_functional [OF sample_splay_inv, of "0x601" "sample_entry 0"] sample_splay_inv
  by (simp add: sample_splay_entries)

text \<open>C30: Deleting a name that is present removes exactly its entry and keeps the tree's
invariant: afterwards that name is not found and every other name is found as before.\<close>

theorem splay_delete_functional:
  assumes "ist_inv splay" and "name \<in> ite_name ` set (ist_inorder splay)"
  shows "ist_inorder (ipc_splay_tree_delete splay name) =
           filter (\<lambda>y. ite_name y \<noteq> name) (ist_inorder splay) \<and>
         ist_inv (ipc_splay_tree_delete splay name) \<and>
         (\<forall>n. fst (ipc_splay_tree_lookup (ipc_splay_tree_delete splay name) n) =
            (if n = name then None else fst (ipc_splay_tree_lookup splay n)))"
  using splay.del_law [OF assms] splay.lookup_del [OF assms] by blast

theorem splay_delete_functional_witness:
  "ist_inv sample_splay \<and>
   names (ist_inorder (ipc_splay_tree_delete sample_splay 0x501)) = [0x301, 0x701]"
  using splay_delete_functional [OF sample_splay_inv, of "0x501"] sample_splay_inv
  by (simp add: sample_splay_entries)

lemma filter_split_sorted:
  "sorted (map f xs) \<Longrightarrow> filter (\<lambda>y. f y < n) xs @ filter (\<lambda>y. n \<le> f y) xs = xs"
  for n :: "'a :: linorder"
proof (induction xs)
  case (Cons a xs)
  show ?case
  proof (cases "f a < n")
    case False
    then have "\<forall>x\<in>set xs. \<not> f x < n" using Cons.prems by auto
    with Cons False show ?thesis by (simp add: filter_False)
  qed (use Cons in auto)
qed simp

text \<open>C31: Splitting a tree at a name puts the entries below the name into the small tree and
keeps the others, and joining the two trees again gives back the entries in their order.\<close>

theorem splay_split_join:
  assumes "ist_inv splay"
  shows "case ipc_splay_tree_split splay name of (splay', small) \<Rightarrow>
     ist_inorder small = filter (\<lambda>y. ite_name y < name) (ist_inorder splay) \<and> ist_inv small \<and>
     ist_inorder splay' = filter (\<lambda>y. name \<le> ite_name y) (ist_inorder splay) \<and> ist_inv splay' \<and>
     (case ipc_splay_tree_join splay' small of (splay'', small') \<Rightarrow>
        ist_inorder splay'' = ist_inorder splay \<and> ist_inv splay'' \<and> ist_inorder small' = [])"
proof -
  obtain splay' small where s: "ipc_splay_tree_split splay name = (splay', small)" by fastforce
  obtain splay'' small' where j: "ipc_splay_tree_join splay' small = (splay'', small')" by fastforce
  note S = ipc_splay_tree_split_correct [OF assms s]
  have "\<forall>a\<in>set (ist_inorder small). \<forall>b\<in>set (ist_inorder splay'). ite_name a < ite_name b"
    using S by auto
  note J = ipc_splay_tree_join_correct [OF _ _ this j]
  have "sorted (names (ist_inorder splay))"
    using assms by (simp add: ist_inv_def strict_sorted_iff)
  then have "filter (\<lambda>y. ite_name y < name) (ist_inorder splay) @
      filter (\<lambda>y. name \<le> ite_name y) (ist_inorder splay) = ist_inorder splay"
    by (rule filter_split_sorted)
  with S J s j show ?thesis by simp
qed

theorem splay_split_join_witness:
  "ist_inv sample_splay \<and>
   names (ist_inorder (fst (ipc_splay_tree_split sample_splay 0x501))) = [0x501, 0x701] \<and>
   names (ist_inorder (snd (ipc_splay_tree_split sample_splay 0x501))) = [0x301]"
  using splay_split_join [OF sample_splay_inv, of "0x501"] sample_splay_inv
  by (simp add: sample_splay_entries split: prod.splits)

text \<open>C33: The bounds of a name are the largest name in the tree that is not above it and the
smallest that is not below it, with the two extreme names standing for none.\<close>

theorem splay_bounds_functional:
  assumes "ist_inv splay"
  shows "case ipc_splay_tree_bounds splay name of (lower, upper, splay') \<Rightarrow>
     lower = lower_bound name (ist_inorder splay) \<and> upper = upper_bound name (ist_inorder splay) \<and>
     ist_inorder splay' = ist_inorder splay \<and> ist_inv splay'"
  using ipc_splay_tree_bounds_correct [OF assms] by (simp split: prod.split)

theorem splay_bounds_functional_witness:
  "ist_inv sample_splay \<and> fst (ipc_splay_tree_bounds sample_splay 0x600) = 0x501 \<and>
   fst (snd (ipc_splay_tree_bounds sample_splay 0x600)) = 0x701"
  using splay_bounds_functional [OF sample_splay_inv, of "0x600"] sample_splay_inv
  by (simp add: sample_splay_entries lower_bound_def upper_bound_def split: prod.splits)

text \<open>C32: A traversal by pointer inversion ends, visits every entry exactly once in name order,
lets the loop body delete any of the visited entries, and leaves a tree of the others.\<close>

theorem splay_traverse_functional:
  assumes "ist_inv splay"
  shows "\<exists>root. ipc_splay_traverse_loop (length (ist_inorder splay)) body (ipc_splay_traverse_start splay) s =
       Some (root, snd (traverse_list body (ist_inorder splay) s)) \<and>
     ist_inorder (ipc_splay_traverse_finish splay root) = fst (traverse_list body (ist_inorder splay) s)"
  by (rule exE [OF ipc_splay_traverse_correct [OF assms order_refl]]) (elim conjE, intro exI conjI)

theorem splay_traverse_functional_witness:
  "ist_inv sample_splay \<and>
   (\<exists>root. ipc_splay_traverse_loop (length (ist_inorder sample_splay))
        (\<lambda>e ns. (ite_name e = 0x501, ns @ [ite_name e])) (ipc_splay_traverse_start sample_splay) [] =
        Some (root, [0x301, 0x501, 0x701]) \<and>
      names (ist_inorder (ipc_splay_traverse_finish sample_splay root)) = [0x301, 0x701])"
  using splay_traverse_functional [OF sample_splay_inv,
      of "\<lambda>e ns. (ite_name e = 0x501, ns @ [ite_name e])" "[]"] sample_splay_inv
  by (auto simp: sample_splay_entries sample_entry_def)

end
