(* ===== verification/Ipc_Space.thy ===== *)
theory Ipc_Space
  imports Ipc_Table Ipc_Splay
begin

text \<open>
  The capability space of a task: the structure \<open>ipc_space\<close> of \<^verbatim>\<open>src/ipc/ipc_space.h\<close>, its
  creation and its reference count (\<^verbatim>\<open>src/ipc/ipc_space.c\<close>), and the two kinds of entry
  pointers.  An \<open>ipc_entry_t\<close> points either at an element of the table or into a tree
  entry; the model keeps the index or the name.  \<open>is_table_next\<close> is an index into the
  array of table sizes.
\<close>

section \<open>The space\<close>

record ipc_space =
  is_references :: nat
  is_active :: bool
  is_growing :: bool
  is_table :: "ipc_entry list"
  is_table_size :: nat
  is_table_next :: nat
  is_tree :: ipc_splay_tree
  is_tree_total :: nat
  is_tree_small :: nat
  is_tree_hash :: nat
  is_notify :: ptr

datatype ipc_entry_ptr = TableEntry nat | TreeEntry mach_port_t

section \<open>Reading and writing through an entry pointer\<close>

definition tree_find :: "ipc_splay_tree \<Rightarrow> mach_port_t \<Rightarrow> ipc_tree_entry option" where
  "tree_find splay name = find (\<lambda>y. ite_name y = name) (ist_inorder splay)"

definition tree_update :: "ipc_splay_tree \<Rightarrow> mach_port_t \<Rightarrow> (ipc_entry \<Rightarrow> ipc_entry) \<Rightarrow> ipc_splay_tree" where
  "tree_update splay name f =
     (let g = (\<lambda>y. if ite_name y = name then y\<lparr>ite_entry := f (ite_entry y)\<rparr> else y)
      in splay\<lparr>ist_root := map_tree g (ist_root splay),
               ist_ltree := map (map_prod (map_tree g) g) (ist_ltree splay),
               ist_rtree := map (map_prod g (map_tree g)) (ist_rtree splay)\<rparr>)"

text \<open>Dereferencing an entry pointer.  A dangling pointer has no entry.\<close>

fun entry_at :: "ipc_space \<Rightarrow> ipc_entry_ptr \<Rightarrow> ipc_entry option" where
  "entry_at s (TableEntry i) = (if i < length (is_table s) then Some (is_table s ! i) else None)"
| "entry_at s (TreeEntry n) = map_option ite_entry (tree_find (is_tree s) n)"

text \<open>Assigning fields of the entry behind a pointer.\<close>

fun entry_update :: "ipc_space \<Rightarrow> ipc_entry_ptr \<Rightarrow> (ipc_entry \<Rightarrow> ipc_entry) \<Rightarrow> ipc_space" where
  "entry_update s (TableEntry i) f = s\<lparr>is_table := (is_table s)[i := f (is_table s ! i)]\<rparr>"
| "entry_update s (TreeEntry n) f = s\<lparr>is_tree := tree_update (is_tree s) n f\<rparr>"

section \<open>References and creation\<close>

definition ipc_space_reference :: "ipc_space \<Rightarrow> ipc_space" where
  "ipc_space_reference s = s\<lparr>is_references := is_references s + 1\<rparr>"

text \<open>\<open>None\<close>: the last reference is gone and the space has been freed.\<close>

definition ipc_space_release :: "ipc_space \<Rightarrow> ipc_space option" where
  "ipc_space_release s =
     (let refs = is_references s - 1
      in if refs = 0 then None else Some (s\<lparr>is_references := refs\<rparr>))"

definition ipc_space_init_table :: "nat \<Rightarrow> ipc_entry list" where
  "ipc_space_init_table new_size =
     map (\<lambda>index. \<lparr>ie_bits = IE_BITS_GEN_MASK, ie_object = 0,
             ie_request = (if index = new_size - 1 then 0 else index + 1), ie_index = 0\<rparr>)
       [0..<new_size]"

text \<open>
  \<open>its\<close> is the array of table sizes and \<open>initial\<close> the position in it; the two booleans are
  the outcomes of \<open>is_alloc\<close> and \<open>it_entries_alloc\<close>.
\<close>

definition ipc_space_create :: "nat list \<Rightarrow> bool \<Rightarrow> bool \<Rightarrow> nat \<Rightarrow> kern_return + ipc_space" where
  "ipc_space_create its space_ok table_ok initial =
     (if \<not> space_ok then Inl KERN_RESOURCE_SHORTAGE
      else if \<not> table_ok then Inl KERN_RESOURCE_SHORTAGE
      else
        let new_size = its ! initial
        in Inr \<lparr>is_references = 2, is_active = True, is_growing = False,
                is_table = ipc_space_init_table new_size,
                is_table_size = new_size, is_table_next = initial + 1,
                is_tree = ipc_splay_tree_init ist_fresh,
                is_tree_total = 0, is_tree_small = 0, is_tree_hash = 0,
                is_notify = 0\<rparr>)"

text \<open>Only the reference count and the active flag of a special space are initialised.\<close>

definition ipc_space_create_special :: "bool \<Rightarrow> ipc_space \<Rightarrow> kern_return + ipc_space" where
  "ipc_space_create_special space_ok garbage =
     (if \<not> space_ok then Inl KERN_RESOURCE_SHORTAGE
      else Inr (garbage\<lparr>is_references := 1, is_active := False\<rparr>))"

section \<open>Lemmas on entry pointers\<close>

lemma inorder_map_tree [simp]: "inorder (map_tree g t) = map g (inorder t)"
  by (induction t) auto

lemma ltree_inorder_map [simp]:
  "ltree_inorder (map (map_prod (map_tree g) g) ls) = map g (ltree_inorder ls)"
  by (induction ls) auto

lemma rtree_inorder_map [simp]:
  "rtree_inorder (map (map_prod g (map_tree g)) rs) = map g (rtree_inorder rs)"
  by (induction rs) auto

definition ite_modify :: "mach_port_t \<Rightarrow> (ipc_entry \<Rightarrow> ipc_entry) \<Rightarrow> ipc_tree_entry \<Rightarrow> ipc_tree_entry" where
  "ite_modify name f y = (if ite_name y = name then y\<lparr>ite_entry := f (ite_entry y)\<rparr> else y)"

lemma ite_modify_simps [simp]:
  "ite_name (ite_modify name f y) = ite_name y" "ite_space (ite_modify name f y) = ite_space y"
  by (simp_all add: ite_modify_def)

lemma tree_update_eq:
  "tree_update splay name f =
     splay\<lparr>ist_root := map_tree (ite_modify name f) (ist_root splay),
           ist_ltree := map (map_prod (map_tree (ite_modify name f)) (ite_modify name f)) (ist_ltree splay),
           ist_rtree := map (map_prod (ite_modify name f) (map_tree (ite_modify name f))) (ist_rtree splay)\<rparr>"
  by (simp add: tree_update_def ite_modify_def [abs_def] Let_def)

lemma inorder_tree_update [simp]:
  "ist_inorder (tree_update splay name f) = map (ite_modify name f) (ist_inorder splay)"
  by (simp add: tree_update_eq ist_inorder_def)

lemma names_modify [simp]: "names (map (ite_modify name f) xs) = names xs"
  by simp

lemma ist_inv_tree_update [simp]: "ist_inv (tree_update splay name f) = ist_inv splay"
proof (cases "ist_root splay")
  case Leaf
  then show ?thesis by (simp add: ist_inv_def tree_update_eq ist_inorder_def)
next
  case (Node l x r)
  have "splayed_at n (map_tree (ite_modify name f) (ist_root splay),
      map (map_prod (map_tree (ite_modify name f)) (ite_modify name f)) (ist_ltree splay),
      map (map_prod (ite_modify name f) (map_tree (ite_modify name f))) (ist_rtree splay)) =
    splayed_at n (ist_root splay, ist_ltree splay, ist_rtree splay)" for n
    by (simp add: Node)
  moreover have "ordered (ist_inorder (tree_update splay name f)) = ordered (ist_inorder splay)"
    by (simp add: comp_def)
  ultimately show ?thesis
    unfolding ist_inv_def by (simp add: tree_update_eq del: inorder_tree_update)
qed

lemma find_modify:
  "find (\<lambda>y. ite_name y = n) (map (ite_modify name f) xs) =
   map_option (ite_modify name f) (find (\<lambda>y. ite_name y = n) xs)"
  by (induction xs) auto

lemma tree_find_update [simp]:
  "tree_find (tree_update splay name f) n = map_option (ite_modify name f) (tree_find splay n)"
  by (simp add: tree_find_def find_modify)

end
