(* ===== verification/Ipc_Hash.thy ===== *)
theory Ipc_Hash
  imports Ipc_Space "HOL-Library.Monad_Syntax"
begin

text \<open>
  The reverse hash tables of \<^verbatim>\<open>src/ipc/ipc_hash.c\<close>, which find the name a space has for an
  object.  Entries in a space's table are kept in the local hash table, an open
  addressing table with linear probing that lives in the \<open>ie_index\<close> fields of the table
  itself; tree entries are kept in the global table of buckets with move-to-front.

  A pointer to a tree entry in a bucket is the pair of its space and its name.  The
  probe loops get the size of the table as fuel; \<open>None\<close> is a loop that never ends.
  The lemmas show that under the invariant \<open>lhash_inv\<close> every loop ends, that a lookup
  finds exactly the hashed entries, and that insertion and deletion (which moves
  displaced entries back into the hole it leaves) keep the invariant.
\<close>

section \<open>The local hash table\<close>

definition IH_LOCAL_HASH :: "ptr \<Rightarrow> nat \<Rightarrow> nat" where
  "IH_LOCAL_HASH obj sz = unat (drop_bit 6 obj) mod sz"

text \<open>\<open>if (++hindex == size) hindex = 0;\<close>\<close>

definition hnext :: "nat \<Rightarrow> nat \<Rightarrow> nat" where
  "hnext sz hindex = (if Suc hindex = sz then 0 else Suc hindex)"

definition set_ie_index :: "ipc_entry list \<Rightarrow> nat \<Rightarrow> nat \<Rightarrow> ipc_entry list" where
  "set_ie_index table hindex index = table[hindex := (table ! hindex)\<lparr>ie_index := index\<rparr>]"

fun ipc_hash_local_lookup_loop :: "nat \<Rightarrow> ipc_entry list \<Rightarrow> nat \<Rightarrow> ptr \<Rightarrow> nat \<Rightarrow> nat option option" where
  "ipc_hash_local_lookup_loop 0 table sz obj hindex = None"
| "ipc_hash_local_lookup_loop (Suc fuel) table sz obj hindex =
     (let index = ie_index (table ! hindex)
      in if index = 0 then Some None
         else if ie_object (table ! index) = obj then Some (Some index)
         else ipc_hash_local_lookup_loop fuel table sz obj (hnext sz hindex))"

definition ipc_hash_local_lookup :: "ipc_space \<Rightarrow> ptr \<Rightarrow> (mach_port_t \<times> ipc_entry_ptr) option option" where
  "ipc_hash_local_lookup s obj =
     (let table = is_table s; sz = is_table_size s; hindex = IH_LOCAL_HASH obj sz
      in map_option (map_option (\<lambda>index. (MACH_PORT_MAKEB index (ie_bits (table ! index)), TableEntry index)))
           (ipc_hash_local_lookup_loop sz table sz obj hindex))"

fun ipc_hash_local_insert_loop :: "nat \<Rightarrow> ipc_entry list \<Rightarrow> nat \<Rightarrow> nat \<Rightarrow> nat option" where
  "ipc_hash_local_insert_loop 0 table sz hindex = None"
| "ipc_hash_local_insert_loop (Suc fuel) table sz hindex =
     (if ie_index (table ! hindex) \<noteq> 0
      then ipc_hash_local_insert_loop fuel table sz (hnext sz hindex)
      else Some hindex)"

definition ipc_hash_local_insert :: "ipc_space \<Rightarrow> ptr \<Rightarrow> nat \<Rightarrow> ipc_space option" where
  "ipc_hash_local_insert s obj index =
     (let table = is_table s; sz = is_table_size s; hindex = IH_LOCAL_HASH obj sz
      in do {
        hindex \<leftarrow> ipc_hash_local_insert_loop sz table sz hindex;
        Some (s\<lparr>is_table := set_ie_index table hindex index\<rparr>)
      })"

fun ipc_hash_local_find_loop :: "nat \<Rightarrow> ipc_entry list \<Rightarrow> nat \<Rightarrow> nat \<Rightarrow> nat \<Rightarrow> nat option" where
  "ipc_hash_local_find_loop 0 table sz index hindex = None"
| "ipc_hash_local_find_loop (Suc fuel) table sz index hindex =
     (if ie_index (table ! hindex) \<noteq> index
      then ipc_hash_local_find_loop fuel table sz index (hnext sz hindex)
      else Some hindex)"

text \<open>May the object at \<open>dindex\<close>, whose probe sequence starts at \<open>tindex\<close>, fill the hole at \<open>hindex\<close>?\<close>

definition ih_displaced :: "nat \<Rightarrow> nat \<Rightarrow> nat \<Rightarrow> bool" where
  "ih_displaced dindex hindex tindex \<longleftrightarrow>
     (if dindex < hindex then dindex < tindex \<and> tindex \<le> hindex
      else dindex < tindex \<or> tindex \<le> hindex)"

text \<open>
  The two nested loops that close the hole, flattened: each round looks at the next
  \<open>dindex\<close>; the end of the clump clears the hole, a displaced object moves into it and
  leaves a new hole.
\<close>

fun ipc_hash_local_close_loop ::
    "nat \<Rightarrow> ipc_entry list \<Rightarrow> nat \<Rightarrow> nat \<Rightarrow> nat \<Rightarrow> ipc_entry list option" where
  "ipc_hash_local_close_loop 0 table sz hindex dindex = None"
| "ipc_hash_local_close_loop (Suc fuel) table sz hindex dindex =
     (let dindex = hnext sz dindex;
          index = ie_index (table ! dindex)
      in if index = 0 then Some (set_ie_index table hindex 0)
         else
           let tindex = IH_LOCAL_HASH (ie_object (table ! index)) sz
           in if ih_displaced dindex hindex tindex
              then ipc_hash_local_close_loop fuel (set_ie_index table hindex index) sz dindex dindex
              else ipc_hash_local_close_loop fuel table sz hindex dindex)"

definition ipc_hash_local_delete :: "ipc_space \<Rightarrow> ptr \<Rightarrow> nat \<Rightarrow> ipc_space option" where
  "ipc_hash_local_delete s obj index =
     (let table = is_table s; sz = is_table_size s; hindex = IH_LOCAL_HASH obj sz
      in do {
        hindex \<leftarrow> ipc_hash_local_find_loop sz table sz index hindex;
        table \<leftarrow> ipc_hash_local_close_loop sz table sz hindex hindex;
        Some (s\<lparr>is_table := table\<rparr>)
      })"

section \<open>The global hash table\<close>

type_synonym ipc_hash = "(ptr \<times> mach_port_t) list list"

definition IH_GLOBAL_HASH :: "ipc_hash \<Rightarrow> ptr \<Rightarrow> ptr \<Rightarrow> nat" where
  "IH_GLOBAL_HASH h space obj =
     unat ((drop_bit 4 space + drop_bit 6 obj) AND (of_nat (length h) - 1))"

definition ih_match :: "ptr \<Rightarrow> ipc_space \<Rightarrow> ptr \<Rightarrow> ptr \<times> mach_port_t \<Rightarrow> bool" where
  "ih_match space s obj this \<longleftrightarrow>
     fst this = space \<and>
     (case tree_find (is_tree s) (snd this) of
        None \<Rightarrow> False
      | Some e \<Rightarrow> ie_object (ite_entry e) = obj)"

definition ipc_hash_global_lookup ::
    "ipc_hash \<Rightarrow> ptr \<Rightarrow> ipc_space \<Rightarrow> ptr \<Rightarrow> (mach_port_t \<times> ipc_entry_ptr) option \<times> ipc_hash" where
  "ipc_hash_global_lookup h space s obj =
     (let b = IH_GLOBAL_HASH h space obj
      in case h ! b of
           [] \<Rightarrow> (None, h)
         | this # rest \<Rightarrow>
             if ih_match space s obj this then (Some (snd this, TreeEntry (snd this)), h)
             else
               case find (ih_match space s obj) rest of
                 None \<Rightarrow> (None, h)
               | Some found \<Rightarrow>
                   (Some (snd found, TreeEntry (snd found)),
                    h[b := found # this # remove1 found rest]))"

definition ipc_hash_global_insert ::
    "ipc_hash \<Rightarrow> ptr \<Rightarrow> ipc_space \<Rightarrow> ptr \<Rightarrow> mach_port_t \<Rightarrow> ipc_hash \<times> ipc_space" where
  "ipc_hash_global_insert h space s obj name =
     (let b = IH_GLOBAL_HASH h space obj
      in (h[b := (space, name) # (h ! b)], s\<lparr>is_tree_hash := is_tree_hash s + 1\<rparr>))"

definition ipc_hash_global_delete ::
    "ipc_hash \<Rightarrow> ptr \<Rightarrow> ipc_space \<Rightarrow> ptr \<Rightarrow> mach_port_t \<Rightarrow> ipc_hash \<times> ipc_space" where
  "ipc_hash_global_delete h space s obj name =
     (let b = IH_GLOBAL_HASH h space obj
      in (h[b := remove1 (space, name) (h ! b)], s\<lparr>is_tree_hash := is_tree_hash s - 1\<rparr>))"

text \<open>
  Initialisation: the configured size (by default a share of the largest number of
  tree entries) rounded up to a power of two with a loop over the bits.
\<close>

fun ipc_hash_round_loop :: "nat \<Rightarrow> u32 \<Rightarrow> u32 \<Rightarrow> u32 option" where
  "ipc_hash_round_loop 0 msk b = None"
| "ipc_hash_round_loop (Suc fuel) msk b =
     (let msk = msk OR b;
          sz = msk + 1
      in if sz AND msk = 0 then Some sz else ipc_hash_round_loop fuel msk (push_bit 1 b))"

definition ipc_hash_global_size :: "u32 \<Rightarrow> u32 \<Rightarrow> u32 option" where
  "ipc_hash_global_size configured ipc_tree_entry_max =
     (let sz = (if configured = 0
                then let sz = drop_bit 8 ipc_tree_entry_max in if sz < 32 then 32 else sz
                else configured);
          msk = sz - 1
      in if sz AND msk \<noteq> 0 then ipc_hash_round_loop 33 msk 1 else Some sz)"

definition ipc_hash_init :: "u32 \<Rightarrow> u32 \<Rightarrow> ipc_hash option" where
  "ipc_hash_init configured ipc_tree_entry_max =
     map_option (\<lambda>sz. replicate (unat sz) []) (ipc_hash_global_size configured ipc_tree_entry_max)"

text \<open>The debugging call: the buffer filled as far as it goes, and the size it should have.\<close>

definition ipc_hash_info :: "ipc_hash \<Rightarrow> nat list \<Rightarrow> nat list \<times> nat" where
  "ipc_hash_info h info =
     (let count = (if length h < length info then length h else length info)
      in (map length (take count h) @ drop count info, length h))"

section \<open>The interface\<close>

definition ipc_hash_lookup ::
    "ipc_hash \<Rightarrow> ptr \<Rightarrow> ipc_space \<Rightarrow> ptr \<Rightarrow> ((mach_port_t \<times> ipc_entry_ptr) option \<times> ipc_hash) option" where
  "ipc_hash_lookup h space s obj =
     do {
       rv \<leftarrow> ipc_hash_local_lookup s obj;
       Some (case rv of
               Some r \<Rightarrow> (Some r, h)
             | None \<Rightarrow> if is_tree_hash s > 0 then ipc_hash_global_lookup h space s obj else (None, h))
     }"

definition ipc_hash_insert ::
    "ipc_hash \<Rightarrow> ptr \<Rightarrow> ipc_space \<Rightarrow> ptr \<Rightarrow> mach_port_t \<Rightarrow> ipc_entry_ptr \<Rightarrow> (ipc_hash \<times> ipc_space) option" where
  "ipc_hash_insert h space s obj name entry =
     (let index = MACH_PORT_INDEX name
      in if index < is_table_size s \<and> entry = TableEntry index
         then map_option (Pair h) (ipc_hash_local_insert s obj index)
         else Some (ipc_hash_global_insert h space s obj name))"

definition ipc_hash_delete ::
    "ipc_hash \<Rightarrow> ptr \<Rightarrow> ipc_space \<Rightarrow> ptr \<Rightarrow> mach_port_t \<Rightarrow> ipc_entry_ptr \<Rightarrow> (ipc_hash \<times> ipc_space) option" where
  "ipc_hash_delete h space s obj name entry =
     (let index = MACH_PORT_INDEX name
      in if index < is_table_size s \<and> entry = TableEntry index
         then map_option (Pair h) (ipc_hash_local_delete s obj index)
         else Some (ipc_hash_global_delete h space s obj name))"

section \<open>Cyclic distance\<close>

definition cdist :: "nat \<Rightarrow> nat \<Rightarrow> nat \<Rightarrow> nat" where
  "cdist n a b = (if a \<le> b then b - a else b + n - a)"

lemma cdist_less: "a < n \<Longrightarrow> b < n \<Longrightarrow> cdist n a b < n"
  by (auto simp: cdist_def)

lemma cdist_self [simp]: "cdist n a a = 0"
  by (simp add: cdist_def)

lemma cdist_0_iff: "a < n \<Longrightarrow> b < n \<Longrightarrow> cdist n a b = 0 \<longleftrightarrow> a = b"
  by (auto simp: cdist_def)

lemma cdist_inj: "a < n \<Longrightarrow> b < n \<Longrightarrow> c < n \<Longrightarrow> cdist n a b = cdist n a c \<longleftrightarrow> b = c"
  by (auto simp: cdist_def)

lemma hnext_less: "h < n \<Longrightarrow> hnext n h < n"
  by (auto simp: hnext_def)

lemma cdist_hnext: "h < n \<Longrightarrow> j < n \<Longrightarrow> j \<noteq> h \<Longrightarrow> cdist n h j = Suc (cdist n (hnext n h) j)"
  by (auto simp: cdist_def hnext_def)

lemma cdist_hnext_self: "h < n \<Longrightarrow> cdist n (hnext n h) h = n - 1"
  by (auto simp: cdist_def hnext_def)

section \<open>The invariant of the local hash table\<close>

abbreviation hx :: "ipc_entry list \<Rightarrow> nat \<Rightarrow> nat" where
  "hx T i \<equiv> ie_index (T ! i)"

definition home :: "ipc_entry list \<Rightarrow> nat \<Rightarrow> nat" where
  "home T k = IH_LOCAL_HASH (ie_object (T ! k)) (length T)"

text \<open>
  The slots hold exactly the indices in \<open>S\<close>, each once, and no probe sequence is cut by
  an empty slot before it reaches its entry.
\<close>

definition lhash_inv :: "ipc_entry list \<Rightarrow> nat set \<Rightarrow> bool" where
  "lhash_inv T S \<longleftrightarrow>
     0 < length T \<and> S \<subseteq> {0<..<length T} \<and>
     (\<forall>i<length T. hx T i \<noteq> 0 \<longrightarrow> hx T i \<in> S) \<and>
     (\<forall>k\<in>S. \<exists>i<length T. hx T i = k) \<and>
     (\<forall>i<length T. \<forall>j<length T. hx T i \<noteq> 0 \<longrightarrow> hx T i = hx T j \<longrightarrow> i = j) \<and>
     (\<forall>i<length T. hx T i \<noteq> 0 \<longrightarrow>
        (\<forall>j<length T. cdist (length T) (home T (hx T i)) j < cdist (length T) (home T (hx T i)) i \<longrightarrow>
           hx T j \<noteq> 0))"

lemma lhash_pos: "lhash_inv T S \<Longrightarrow> 0 < length T"
  by (simp only: lhash_inv_def)

lemma lhash_members: "lhash_inv T S \<Longrightarrow> k \<in> S \<Longrightarrow> 0 < k \<and> k < length T"
  unfolding lhash_inv_def by (meson greaterThanLessThan_iff subsetD)

lemma lhash_slot_in: "lhash_inv T S \<Longrightarrow> i < length T \<Longrightarrow> hx T i \<noteq> 0 \<Longrightarrow> hx T i \<in> S"
  unfolding lhash_inv_def by blast

lemma lhash_slot_of: "lhash_inv T S \<Longrightarrow> k \<in> S \<Longrightarrow> \<exists>i<length T. hx T i = k"
  unfolding lhash_inv_def by blast

lemma lhash_inj:
  "lhash_inv T S \<Longrightarrow> i < length T \<Longrightarrow> j < length T \<Longrightarrow> hx T i \<noteq> 0 \<Longrightarrow> hx T i = hx T j \<Longrightarrow> i = j"
  unfolding lhash_inv_def by blast

lemma lhash_path:
  "lhash_inv T S \<Longrightarrow> i < length T \<Longrightarrow> hx T i \<noteq> 0 \<Longrightarrow> j < length T \<Longrightarrow>
   cdist (length T) (home T (hx T i)) j < cdist (length T) (home T (hx T i)) i \<Longrightarrow> hx T j \<noteq> 0"
  unfolding lhash_inv_def by blast

lemma home_less: "T \<noteq> [] \<Longrightarrow> home T k < length T"
  by (simp add: home_def IH_LOCAL_HASH_def)

lemma lhash_free_slot:
  assumes "lhash_inv T S"
  shows "\<exists>z<length T. hx T z = 0"
proof (rule ccontr)
  assume n: "\<not> (\<exists>z<length T. hx T z = 0)"
  with assms have "hx T ` {..<length T} \<subseteq> {0<..<length T}" by (auto simp: lhash_inv_def)
  moreover have "inj_on (hx T) {..<length T}"
    using assms n by (auto simp: lhash_inv_def inj_on_def)
  ultimately have "card {..<length T} \<le> card {0<..<length T}"
    by (metis card_inj_on_le finite_greaterThanLessThan)
  moreover have "0 < length T" using assms by (simp only: lhash_inv_def)
  ultimately show False by (simp del: length_greater_0_conv)
qed

text \<open>The first empty slot of a probe sequence.\<close>

lemma first_free_slot:
  assumes "lhash_inv T S" and "h < length T"
  obtains z where "z < length T" and "hx T z = 0"
    and "\<forall>j<length T. cdist (length T) h j < cdist (length T) h z \<longrightarrow> hx T j \<noteq> 0"
proof -
  let ?P = "\<lambda>z. z < length T \<and> hx T z = 0"
  obtain z0 where "?P z0" using lhash_free_slot [OF assms(1)] by blast
  from ex_has_least_nat [of ?P, OF this, of "cdist (length T) h"]
  obtain z where z: "?P z" and m: "\<And>j. ?P j \<Longrightarrow> cdist (length T) h z \<le> cdist (length T) h j"
    by blast
  have "\<forall>j<length T. cdist (length T) h j < cdist (length T) h z \<longrightarrow> hx T j \<noteq> 0"
    using m not_le by blast
  with z show thesis using that by blast
qed

section \<open>Lookup and insertion in the local hash table\<close>

text \<open>The part of a probe sequence between \<open>h\<close> and \<open>z\<close>, seen from the slot after \<open>h\<close>.\<close>

lemma cdist_hnext_less:
  assumes "h < n" and "z < n" and "j < n" and "h \<noteq> z"
  shows "cdist n (hnext n h) j < cdist n (hnext n h) z \<longleftrightarrow> j \<noteq> h \<and> cdist n h j < cdist n h z"
  using assms by (auto simp: cdist_def hnext_def)

lemma lookup_loop:
  assumes "h < length T" and "z < length T" and "hx T z = 0"
    and "\<forall>j<length T. cdist (length T) h j < cdist (length T) h z \<longrightarrow> hx T j \<noteq> 0"
    and "cdist (length T) h z < fuel"
  shows "\<exists>r. ipc_hash_local_lookup_loop fuel T (length T) obj h = Some r \<and>
     (r = None \<longrightarrow>
        (\<forall>j<length T. cdist (length T) h j < cdist (length T) h z \<longrightarrow> ie_object (T ! hx T j) \<noteq> obj)) \<and>
     (\<forall>k. r = Some k \<longrightarrow> k \<noteq> 0 \<and> ie_object (T ! k) = obj \<and> (\<exists>j<length T. hx T j = k))"
  using assms
proof (induction fuel arbitrary: h)
  case (Suc fuel)
  show ?case
  proof (cases "h = z")
    case True
    with Suc.prems(3) show ?thesis by simp
  next
    case hz: False
    have nz: "hx T h \<noteq> 0" using hz Suc.prems(1,2,4) cdist_0_iff by fastforce
    show ?thesis
    proof (cases "ie_object (T ! hx T h) = obj")
      case True
      with nz Suc.prems(1) show ?thesis by auto
    next
      case False
      let ?h = "hnext (length T) h"
      note step = cdist_hnext_less [OF Suc.prems(1,2) _ hz]
      have "\<forall>j<length T. cdist (length T) ?h j < cdist (length T) ?h z \<longrightarrow> hx T j \<noteq> 0"
        using Suc.prems(4) step by blast
      moreover have "cdist (length T) ?h z < fuel"
        using Suc.prems(1,2,5) hz by (simp add: cdist_hnext)
      ultimately obtain r where
        r: "ipc_hash_local_lookup_loop fuel T (length T) obj ?h = Some r"
        and n: "r = None \<longrightarrow> (\<forall>j<length T. cdist (length T) ?h j < cdist (length T) ?h z \<longrightarrow>
            ie_object (T ! hx T j) \<noteq> obj)"
        and s: "\<forall>k. r = Some k \<longrightarrow> k \<noteq> 0 \<and> ie_object (T ! k) = obj \<and> (\<exists>j<length T. hx T j = k)"
        using Suc.IH [OF hnext_less [OF Suc.prems(1)] Suc.prems(2,3)] by blast
      from r nz False have "ipc_hash_local_lookup_loop (Suc fuel) T (length T) obj h = Some r" by simp
      moreover from n step False have "r = None \<longrightarrow> (\<forall>j<length T.
          cdist (length T) h j < cdist (length T) h z \<longrightarrow> ie_object (T ! hx T j) \<noteq> obj)" by blast
      ultimately show ?thesis using s by blast
    qed
  qed
qed simp

lemma insert_loop:
  assumes "h < length T" and "z < length T" and "hx T z = 0"
    and "\<forall>j<length T. cdist (length T) h j < cdist (length T) h z \<longrightarrow> hx T j \<noteq> 0"
    and "cdist (length T) h z < fuel"
  shows "ipc_hash_local_insert_loop fuel T (length T) h = Some z"
  using assms
proof (induction fuel arbitrary: h)
  case (Suc fuel)
  show ?case
  proof (cases "h = z")
    case False
    let ?h = "hnext (length T) h"
    have nz: "hx T h \<noteq> 0" using False Suc.prems by (auto simp: cdist_0_iff)
    have "ipc_hash_local_insert_loop fuel T (length T) ?h = Some z"
    proof (rule Suc.IH)
      show "\<forall>j<length T. cdist (length T) ?h j < cdist (length T) ?h z \<longrightarrow> hx T j \<noteq> 0"
        using Suc.prems(4) cdist_hnext_less [OF Suc.prems(1,2) _ False] by blast
      show "cdist (length T) ?h z < fuel"
        using Suc.prems(1,2,5) False by (simp add: cdist_hnext)
    qed (use Suc.prems hnext_less in auto)
    with nz show ?thesis by simp
  qed (use Suc.prems in simp)
qed simp

lemma find_loop:
  assumes "h < length T" and "z < length T" and "hx T z = index"
    and "\<forall>j<length T. j \<noteq> z \<longrightarrow> hx T j \<noteq> index" and "cdist (length T) h z < fuel"
  shows "ipc_hash_local_find_loop fuel T (length T) index h = Some z"
  using assms
proof (induction fuel arbitrary: h)
  case (Suc fuel)
  show ?case
  proof (cases "h = z")
    case False
    have "ipc_hash_local_find_loop fuel T (length T) index (hnext (length T) h) = Some z"
      using Suc.prems False by (intro Suc.IH) (auto simp: cdist_hnext hnext_less)
    with False Suc.prems show ?thesis by simp
  qed (use Suc.prems in simp)
qed simp

section \<open>The operations on the local hash table are correct\<close>

text \<open>The hash operations only touch the \<open>ie_index\<close> fields of a table.\<close>

definition same_entries :: "ipc_entry list \<Rightarrow> ipc_entry list \<Rightarrow> bool" where
  "same_entries T T' \<longleftrightarrow> map (\<lambda>e. e\<lparr>ie_index := 0\<rparr>) T = map (\<lambda>e. e\<lparr>ie_index := 0\<rparr>) T'"

lemma same_entries_refl [simp]: "same_entries T T"
  by (simp add: same_entries_def)

lemma same_entries_trans: "same_entries T T' \<Longrightarrow> same_entries T' T'' \<Longrightarrow> same_entries T T''"
  by (simp add: same_entries_def)

lemma same_entries_length: "same_entries T T' \<Longrightarrow> length T' = length T"
  by (metis same_entries_def length_map)

lemma same_entries_nth:
  assumes "same_entries T T'" and "i < length T"
  shows "ie_bits (T' ! i) = ie_bits (T ! i)" "ie_object (T' ! i) = ie_object (T ! i)"
    "ie_request (T' ! i) = ie_request (T ! i)"
proof -
  have "(T ! i)\<lparr>ie_index := 0\<rparr> = (T' ! i)\<lparr>ie_index := 0\<rparr>"
    using assms(2) same_entries_length [OF assms(1)]
      nth_map [of i T "\<lambda>e. e\<lparr>ie_index := 0\<rparr>"] nth_map [of i T' "\<lambda>e. e\<lparr>ie_index := 0\<rparr>"]
      assms(1) [unfolded same_entries_def] by simp
  from arg_cong [OF this, of ie_bits] arg_cong [OF this, of ie_object]
    arg_cong [OF this, of ie_request]
  show "ie_bits (T' ! i) = ie_bits (T ! i)" "ie_object (T' ! i) = ie_object (T ! i)"
    "ie_request (T' ! i) = ie_request (T ! i)"
    by simp_all
qed

lemma same_entries_set_index [simp]: "same_entries T (set_ie_index T h v)"
  unfolding same_entries_def set_ie_index_def
proof (rule nth_equalityI)
  fix i assume "i < length (map (\<lambda>e. e\<lparr>ie_index := 0\<rparr>) T)"
  then show "map (\<lambda>e. e\<lparr>ie_index := 0\<rparr>) T ! i =
      map (\<lambda>e. e\<lparr>ie_index := 0\<rparr>) (T[h := (T ! h)\<lparr>ie_index := v\<rparr>]) ! i"
    by (cases "i = h") simp_all
qed simp

lemma length_set_index [simp]: "length (set_ie_index T h v) = length T"
  by (simp add: set_ie_index_def)

lemma hx_set_index: "h < length T \<Longrightarrow> hx (set_ie_index T h v) i = (if i = h then v else hx T i)"
  by (auto simp: set_ie_index_def nth_list_update)

lemma home_set_index [simp]: "home (set_ie_index T h v) k = home T k"
  by (cases "h < length T"; cases "k = h")
    (auto simp: home_def set_ie_index_def nth_list_update list_update_beyond)

lemma ipc_hash_local_lookup_correct:
  assumes inv: "lhash_inv (is_table s) S" and sz: "is_table_size s = length (is_table s)"
  shows "\<exists>r. ipc_hash_local_lookup s obj = Some r \<and>
     (r = None \<longrightarrow> (\<forall>k\<in>S. ie_object (is_table s ! k) \<noteq> obj)) \<and>
     (\<forall>name e. r = Some (name, e) \<longrightarrow> (\<exists>k\<in>S. ie_object (is_table s ! k) = obj \<and>
         name = MACH_PORT_MAKEB k (ie_bits (is_table s ! k)) \<and> e = TableEntry k))"
proof -
  let ?T = "is_table s" and ?n = "length (is_table s)"
  define h where "h = IH_LOCAL_HASH obj ?n"
  have n: "0 < ?n" using inv by (simp only: lhash_inv_def)
  then have h: "h < ?n" by (simp add: h_def IH_LOCAL_HASH_def)
  obtain z where z: "z < ?n" "hx ?T z = 0"
    and nz: "\<forall>j<?n. cdist ?n h j < cdist ?n h z \<longrightarrow> hx ?T j \<noteq> 0"
    using first_free_slot [OF inv h] .
  from lookup_loop [OF h z nz cdist_less [OF h z(1)], of obj] obtain r where
    r: "ipc_hash_local_lookup_loop ?n ?T ?n obj h = Some r"
    and rn: "r = None \<longrightarrow> (\<forall>j<?n. cdist ?n h j < cdist ?n h z \<longrightarrow> ie_object (?T ! hx ?T j) \<noteq> obj)"
    and rs: "\<forall>k. r = Some k \<longrightarrow> k \<noteq> 0 \<and> ie_object (?T ! k) = obj \<and> (\<exists>j<?n. hx ?T j = k)"
    by blast
  have "ie_object (?T ! k) \<noteq> obj" if "r = None" "k \<in> S" for k
  proof
    assume o: "ie_object (?T ! k) = obj"
    obtain i where i: "i < ?n" "hx ?T i = k" "k \<noteq> 0"
      using lhash_slot_of [OF inv \<open>k \<in> S\<close>] lhash_members [OF inv \<open>k \<in> S\<close>] by auto
    from o have hm: "home ?T k = h" by (simp add: home_def h_def)
    have "cdist ?n h i < cdist ?n h z"
    proof (rule ccontr)
      assume "\<not> cdist ?n h i < cdist ?n h z"
      moreover have "cdist ?n h i \<noteq> cdist ?n h z" using i z h by (auto simp: cdist_inj)
      ultimately have "cdist ?n h z < cdist ?n h i" by simp
      with lhash_path [OF inv i(1), of z] z i hm show False by simp
    qed
    with rn that i o show False by auto
  qed
  moreover have "\<exists>k\<in>S. ie_object (?T ! k) = obj \<and> name = MACH_PORT_MAKEB k (ie_bits (?T ! k)) \<and> e = TableEntry k"
    if "map_option (\<lambda>index. (MACH_PORT_MAKEB index (ie_bits (?T ! index)), TableEntry index)) r = Some (name, e)"
    for name e
  proof -
    from that obtain k where k: "r = Some k" "name = MACH_PORT_MAKEB k (ie_bits (?T ! k))" "e = TableEntry k"
      by auto
    with rs lhash_slot_in [OF inv] have "k \<in> S" by blast
    with k rs show ?thesis by blast
  qed
  moreover have "ipc_hash_local_lookup s obj =
      Some (map_option (\<lambda>index. (MACH_PORT_MAKEB index (ie_bits (?T ! index)), TableEntry index)) r)"
    using r by (simp add: ipc_hash_local_lookup_def sz h_def Let_def)
  ultimately show ?thesis by auto
qed

lemma ipc_hash_local_insert_correct:
  assumes inv: "lhash_inv (is_table s) S" and sz: "is_table_size s = length (is_table s)"
    and idx: "0 < index" "index < length (is_table s)" "index \<notin> S"
    and obj: "ie_object (is_table s ! index) = obj"
  shows "\<exists>T'. ipc_hash_local_insert s obj index = Some (s\<lparr>is_table := T'\<rparr>) \<and>
     same_entries (is_table s) T' \<and> lhash_inv T' (insert index S)"
proof -
  let ?T = "is_table s" and ?n = "length (is_table s)"
  define h where "h = home ?T index"
  have n: "0 < ?n" using inv by (simp only: lhash_inv_def)
  then have h: "h < ?n" using home_less [of ?T] by (auto simp: h_def)
  obtain z where z: "z < ?n" "hx ?T z = 0"
    and nz: "\<forall>j<?n. cdist ?n h j < cdist ?n h z \<longrightarrow> hx ?T j \<noteq> 0"
    using first_free_slot [OF inv h] .
  let ?T' = "set_ie_index ?T z index"
  have "ipc_hash_local_insert s obj index = Some (s\<lparr>is_table := ?T'\<rparr>)"
    using insert_loop [OF h z nz cdist_less [OF h z(1)]] obj
    by (simp add: ipc_hash_local_insert_def sz h_def home_def Let_def)
  moreover have "lhash_inv ?T' (insert index S)"
    unfolding lhash_inv_def length_set_index home_set_index hx_set_index [OF z(1)]
  proof (intro conjI)
    show "insert index S \<subseteq> {0<..<?n}" using lhash_members [OF inv] idx by auto
    show "\<forall>i<?n. (if i = z then index else hx ?T i) \<noteq> 0 \<longrightarrow> (if i = z then index else hx ?T i) \<in> insert index S"
      using lhash_slot_in [OF inv] by auto
    show "\<forall>k\<in>insert index S. \<exists>i<?n. (if i = z then index else hx ?T i) = k"
    proof
      fix k assume k: "k \<in> insert index S"
      show "\<exists>i<?n. (if i = z then index else hx ?T i) = k"
      proof (cases "k = index")
        case False
        with k have "k \<in> S" by simp
        then obtain i where "i < ?n" "hx ?T i = k" "k \<noteq> 0"
          using lhash_slot_of [OF inv] lhash_members [OF inv] by blast
        with z show ?thesis by (intro exI [of _ i]) auto
      qed (use z in auto)
    qed
    show "\<forall>i<?n. \<forall>j<?n. (if i = z then index else hx ?T i) \<noteq> 0 \<longrightarrow>
        (if i = z then index else hx ?T i) = (if j = z then index else hx ?T j) \<longrightarrow> i = j"
    proof (intro allI impI)
      fix i j
      assume a: "i < ?n" "j < ?n" "(if i = z then index else hx ?T i) \<noteq> 0"
        "(if i = z then index else hx ?T i) = (if j = z then index else hx ?T j)"
      show "i = j"
        using a lhash_inj [OF inv a(1,2)] lhash_slot_in [OF inv a(1)] lhash_slot_in [OF inv a(2)] idx
        by (cases "i = z"; cases "j = z") auto
    qed
    show "\<forall>i<?n. (if i = z then index else hx ?T i) \<noteq> 0 \<longrightarrow>
        (\<forall>j<?n. cdist ?n (home ?T (if i = z then index else hx ?T i)) j
               < cdist ?n (home ?T (if i = z then index else hx ?T i)) i \<longrightarrow>
           (if j = z then index else hx ?T j) \<noteq> 0)"
    proof (intro allI impI)
      fix i j
      assume a: "i < ?n" "(if i = z then index else hx ?T i) \<noteq> 0" "j < ?n"
        "cdist ?n (home ?T (if i = z then index else hx ?T i)) j
           < cdist ?n (home ?T (if i = z then index else hx ?T i)) i"
      show "(if j = z then index else hx ?T j) \<noteq> 0"
        using a lhash_path [OF inv a(1) _ a(3)] nz idx(1) by (cases "i = z") (auto simp: h_def)
    qed
  qed (use n in simp)
  ultimately show ?thesis by (intro exI [of _ ?T'] conjI same_entries_set_index)
qed

section \<open>Deletion from the local hash table\<close>

text \<open>The test of the code asks whether the probe sequence passes the hole.\<close>

lemma ih_displaced_iff:
  "d < n \<Longrightarrow> h < n \<Longrightarrow> t < n \<Longrightarrow> d \<noteq> h \<Longrightarrow> ih_displaced d h t \<longleftrightarrow> cdist n t h < cdist n t d"
  by (auto simp: ih_displaced_def cdist_def)

lemma cdist_via:
  "t < n \<Longrightarrow> h < n \<Longrightarrow> i < n \<Longrightarrow> d < n \<Longrightarrow> cdist n t h < cdist n t i \<Longrightarrow> cdist n h d < cdist n h i \<Longrightarrow>
   cdist n t d < cdist n t i"
  by (auto simp: cdist_def split: if_splits)

lemma cdist_hnext_right:
  "h < n \<Longrightarrow> d < n \<Longrightarrow> hnext n d \<noteq> h \<Longrightarrow> cdist n h (hnext n d) = Suc (cdist n h d)"
  by (auto simp: cdist_def hnext_def)

text \<open>
  The state of the closing loop: a hole at \<open>h\<close>, the clump scanned up to \<open>d\<close>.  Probe
  sequences that pass the hole end beyond \<open>d\<close>.
\<close>

definition close_inv :: "ipc_entry list \<Rightarrow> nat set \<Rightarrow> nat \<Rightarrow> nat \<Rightarrow> nat \<Rightarrow> bool" where
  "close_inv T S z h d \<longleftrightarrow>
     (let n = length T in
      h < n \<and> d < n \<and> z < n \<and> z \<noteq> h \<and> hx T z = 0 \<and> S \<subseteq> {0<..<n} \<and>
      (\<forall>i<n. i \<noteq> h \<longrightarrow> hx T i \<noteq> 0 \<longrightarrow> hx T i \<in> S) \<and>
      (\<forall>k\<in>S. \<exists>i<n. i \<noteq> h \<and> hx T i = k) \<and>
      (\<forall>i<n. \<forall>j<n. i \<noteq> h \<longrightarrow> j \<noteq> h \<longrightarrow> hx T i \<noteq> 0 \<longrightarrow> hx T i = hx T j \<longrightarrow> i = j) \<and>
      (\<forall>j<n. j \<noteq> h \<longrightarrow> cdist n h j \<le> cdist n h d \<longrightarrow> hx T j \<noteq> 0) \<and>
      (\<forall>i<n. i \<noteq> h \<longrightarrow> hx T i \<noteq> 0 \<longrightarrow>
         (\<forall>j<n. j \<noteq> h \<longrightarrow> cdist n (home T (hx T i)) j < cdist n (home T (hx T i)) i \<longrightarrow> hx T j \<noteq> 0)) \<and>
      (\<forall>i<n. i \<noteq> h \<longrightarrow> hx T i \<noteq> 0 \<longrightarrow>
         cdist n (home T (hx T i)) h < cdist n (home T (hx T i)) i \<longrightarrow> cdist n h d < cdist n h i))"

lemma close_invD:
  assumes "close_inv T S z h d"
  shows "h < length T" "d < length T" "z < length T" "z \<noteq> h" "hx T z = 0" "S \<subseteq> {0<..<length T}"
    and "\<And>i. i < length T \<Longrightarrow> i \<noteq> h \<Longrightarrow> hx T i \<noteq> 0 \<Longrightarrow> hx T i \<in> S"
    and "\<And>k. k \<in> S \<Longrightarrow> \<exists>i<length T. i \<noteq> h \<and> hx T i = k"
    and "\<And>i j. i < length T \<Longrightarrow> j < length T \<Longrightarrow> i \<noteq> h \<Longrightarrow> j \<noteq> h \<Longrightarrow> hx T i \<noteq> 0 \<Longrightarrow>
          hx T i = hx T j \<Longrightarrow> i = j"
    and "\<And>j. j < length T \<Longrightarrow> j \<noteq> h \<Longrightarrow> cdist (length T) h j \<le> cdist (length T) h d \<Longrightarrow> hx T j \<noteq> 0"
    and "\<And>i j. i < length T \<Longrightarrow> i \<noteq> h \<Longrightarrow> hx T i \<noteq> 0 \<Longrightarrow> j < length T \<Longrightarrow> j \<noteq> h \<Longrightarrow>
          cdist (length T) (home T (hx T i)) j < cdist (length T) (home T (hx T i)) i \<Longrightarrow> hx T j \<noteq> 0"
    and "\<And>i. i < length T \<Longrightarrow> i \<noteq> h \<Longrightarrow> hx T i \<noteq> 0 \<Longrightarrow>
          cdist (length T) (home T (hx T i)) h < cdist (length T) (home T (hx T i)) i \<Longrightarrow>
          cdist (length T) h d < cdist (length T) h i"
  using assms unfolding close_inv_def Let_def by meson+

lemma close_invI:
  assumes "h < length T" "d < length T" "z < length T" "z \<noteq> h" "hx T z = 0" "S \<subseteq> {0<..<length T}"
    and "\<And>i. i < length T \<Longrightarrow> i \<noteq> h \<Longrightarrow> hx T i \<noteq> 0 \<Longrightarrow> hx T i \<in> S"
    and "\<And>k. k \<in> S \<Longrightarrow> \<exists>i<length T. i \<noteq> h \<and> hx T i = k"
    and "\<And>i j. i < length T \<Longrightarrow> j < length T \<Longrightarrow> i \<noteq> h \<Longrightarrow> j \<noteq> h \<Longrightarrow> hx T i \<noteq> 0 \<Longrightarrow>
          hx T i = hx T j \<Longrightarrow> i = j"
    and "\<And>j. j < length T \<Longrightarrow> j \<noteq> h \<Longrightarrow> cdist (length T) h j \<le> cdist (length T) h d \<Longrightarrow> hx T j \<noteq> 0"
    and "\<And>i j. i < length T \<Longrightarrow> i \<noteq> h \<Longrightarrow> hx T i \<noteq> 0 \<Longrightarrow> j < length T \<Longrightarrow> j \<noteq> h \<Longrightarrow>
          cdist (length T) (home T (hx T i)) j < cdist (length T) (home T (hx T i)) i \<Longrightarrow> hx T j \<noteq> 0"
    and "\<And>i. i < length T \<Longrightarrow> i \<noteq> h \<Longrightarrow> hx T i \<noteq> 0 \<Longrightarrow>
          cdist (length T) (home T (hx T i)) h < cdist (length T) (home T (hx T i)) i \<Longrightarrow>
          cdist (length T) h d < cdist (length T) h i"
  shows "close_inv T S z h d"
  unfolding close_inv_def Let_def by (intro conjI allI impI ballI; rule assms; assumption)

text \<open>The scan never comes back to the hole: it meets the empty slot \<open>z\<close> first.\<close>

lemma close_next:
  assumes "close_inv T S z h d"
  shows "hnext (length T) d \<noteq> h" and "d \<noteq> z"
    and "cdist (length T) d z = Suc (cdist (length T) (hnext (length T) d) z)"
proof -
  note D = close_invD [OF assms]
  have z: "cdist (length T) h d < cdist (length T) h z"
    using D(10) [OF D(3,4)] D(5) not_le by blast
  then show dz: "d \<noteq> z" by auto
  show "hnext (length T) d \<noteq> h"
    using z D(1,2,3) by (auto simp: cdist_def hnext_def split: if_splits)
  show "cdist (length T) d z = Suc (cdist (length T) (hnext (length T) d) z)"
    using D(2,3) dz by (simp add: cdist_hnext)
qed

lemma close_finish:
  assumes inv: "close_inv T S z h d" and e: "hx T (hnext (length T) d) = 0"
  shows "lhash_inv (set_ie_index T h 0) S"
proof -
  note D = close_invD [OF inv]
  let ?n = "length T" and ?d = "hnext (length T) d"
  have d: "?d < ?n" "?d \<noteq> h" using D(2) close_next(1) [OF inv] by (auto simp: hnext_less)
  have path: "hx T j \<noteq> 0 \<and> j \<noteq> h"
    if a: "i < ?n" "i \<noteq> h" "hx T i \<noteq> 0" "j < ?n"
      "cdist ?n (home T (hx T i)) j < cdist ?n (home T (hx T i)) i" for i j
  proof (cases "j = h")
    case True
    let ?t = "home T (hx T i)"
    have t: "?t < ?n" using home_less [of T] D(1) by fastforce
    have "cdist ?n h d < cdist ?n h i" using D(12) [OF a(1-3)] a(5) True by simp
    then have "cdist ?n h ?d \<le> cdist ?n h i"
      using cdist_hnext_right [OF D(1,2) d(2)] by simp
    moreover have "cdist ?n h ?d \<noteq> cdist ?n h i"
      using cdist_inj [OF D(1) d(1) a(1)] e a(3) by auto
    ultimately have "cdist ?n ?t ?d < cdist ?n ?t i"
      using cdist_via [OF t D(1) a(1) d(1)] a(5) True by simp
    from D(11) [OF a(1-3) d this] e show ?thesis by simp
  next
    case False
    with D(11) [OF a(1-4)] a(5) show ?thesis by simp
  qed
  show ?thesis
    unfolding lhash_inv_def length_set_index home_set_index hx_set_index [OF D(1)]
  proof (intro conjI)
    show "\<forall>k\<in>S. \<exists>i<?n. (if i = h then 0 else hx T i) = k" using D(8) by (metis (no_types))
    show "\<forall>i<?n. \<forall>j<?n. (if i = h then 0 else hx T i) \<noteq> 0 \<longrightarrow>
        (if i = h then 0 else hx T i) = (if j = h then 0 else hx T j) \<longrightarrow> i = j"
    proof (intro allI impI)
      fix i j assume "i < ?n" "j < ?n" "(if i = h then 0 else hx T i) \<noteq> 0"
        "(if i = h then 0 else hx T i) = (if j = h then 0 else hx T j)"
      with D(9) [of i j] show "i = j" by (cases "i = h"; cases "j = h") auto
    qed
    show "\<forall>i<?n. (if i = h then 0 else hx T i) \<noteq> 0 \<longrightarrow>
        (\<forall>j<?n. cdist ?n (home T (if i = h then 0 else hx T i)) j
               < cdist ?n (home T (if i = h then 0 else hx T i)) i \<longrightarrow>
           (if j = h then 0 else hx T j) \<noteq> 0)"
    proof (intro allI impI)
      fix i j
      assume a: "i < ?n" "(if i = h then 0 else hx T i) \<noteq> 0" "j < ?n"
        "cdist ?n (home T (if i = h then 0 else hx T i)) j < cdist ?n (home T (if i = h then 0 else hx T i)) i"
      then show "(if j = h then 0 else hx T j) \<noteq> 0"
        using path [of i j] by (cases "i = h") auto
    qed
    show "\<forall>i<?n. (if i = h then 0 else hx T i) \<noteq> 0 \<longrightarrow> (if i = h then 0 else hx T i) \<in> S"
      using D(7) by auto
  qed (use D(1,6) in auto)
qed

lemma close_skip:
  assumes inv: "close_inv T S z h d" and nz: "hx T (hnext (length T) d) \<noteq> 0"
    and nd: "\<not> ih_displaced (hnext (length T) d) h (home T (hx T (hnext (length T) d)))"
  shows "close_inv T S z h (hnext (length T) d)"
proof -
  note D = close_invD [OF inv]
  let ?n = "length T" and ?d = "hnext (length T) d"
  have d: "?d < ?n" "?d \<noteq> h" using D(2) close_next(1) [OF inv] by (auto simp: hnext_less)
  note s = cdist_hnext_right [OF D(1,2) d(2)]
  have t: "home T (hx T ?d) < ?n" using home_less [of T] D(1) by fastforce
  show ?thesis
  proof (rule close_invI)
    fix j assume j: "j < ?n" "j \<noteq> h" "cdist ?n h j \<le> cdist ?n h ?d"
    show "hx T j \<noteq> 0"
    proof (cases "j = ?d")
      case False
      with cdist_inj [OF D(1) j(1) d(1)] j(3) s have "cdist ?n h j \<le> cdist ?n h d" by auto
      with D(10) [OF j(1,2)] show ?thesis by simp
    qed (use nz in simp)
  next
    fix i assume i: "i < ?n" "i \<noteq> h" "hx T i \<noteq> 0"
      "cdist ?n (home T (hx T i)) h < cdist ?n (home T (hx T i)) i"
    have "i \<noteq> ?d" using nd i(4) ih_displaced_iff [OF d(1) D(1) t d(2)] by auto
    moreover have "cdist ?n h d < cdist ?n h i" by (rule D(12) [OF i])
    ultimately show "cdist ?n h ?d < cdist ?n h i"
      using s cdist_inj [OF D(1) d(1) i(1)] by simp
  qed (use D d in blast)+
qed

lemma close_move:
  assumes inv: "close_inv T S z h d" and nz: "hx T (hnext (length T) d) \<noteq> 0"
    and dp: "ih_displaced (hnext (length T) d) h (home T (hx T (hnext (length T) d)))"
  shows "close_inv (set_ie_index T h (hx T (hnext (length T) d))) S z (hnext (length T) d) (hnext (length T) d)"
proof -
  note D = close_invD [OF inv]
  let ?n = "length T" and ?d = "hnext (length T) d"
  let ?x = "hx T ?d"
  let ?H = "\<lambda>i. if i = h then ?x else hx T i"
  have d: "?d < ?n" "?d \<noteq> h" using D(2) close_next(1) [OF inv] by (auto simp: hnext_less)
  have t: "home T ?x < ?n" using home_less [of T] D(1) by fastforce
  from dp have pass: "cdist ?n (home T ?x) h < cdist ?n (home T ?x) ?d"
    using ih_displaced_iff [OF d(1) D(1) t d(2)] by simp
  note S = length_set_index home_set_index hx_set_index [OF D(1)]
  show ?thesis
  proof (rule close_invI, unfold S)
    show "(if z = h then ?x else hx T z) = 0" "z \<noteq> ?d" using D(4,5) nz by auto
  next
    fix i assume "i < ?n" "i \<noteq> ?d" "?H i \<noteq> 0"
    then show "?H i \<in> S" using D(7) d nz by (cases "i = h") auto
  next
    fix k assume "k \<in> S"
    from D(8) [OF this] obtain i where "i < ?n" "i \<noteq> h" "hx T i = k" by blast
    then show "\<exists>i<?n. i \<noteq> ?d \<and> ?H i = k"
      using d D(1) by (cases "i = ?d") (auto intro: exI [of _ h] exI [of _ i])
  next
    fix i j assume a: "i < ?n" "j < ?n" "i \<noteq> ?d" "j \<noteq> ?d" "?H i \<noteq> 0" "?H i = ?H j"
    have other: "hx T k \<noteq> ?x" if "k < ?n" "k \<noteq> h" "k \<noteq> ?d" for k
      using D(9) [OF d(1) that(1) d(2) that(2) nz] that(3) by metis
    consider "i = h" "j = h" | "i = h" "j \<noteq> h" | "i \<noteq> h" "j = h" | "i \<noteq> h" "j \<noteq> h" by blast
    then show "i = j"
    proof cases
      case 2
      with a(6) other [OF a(2) _ a(4)] show ?thesis by simp
    next
      case 3
      with a(6) other [OF a(1) _ a(3)] show ?thesis by simp
    next
      case 4
      with a D(9) [OF a(1,2) 4] show ?thesis by simp
    qed simp
  next
    fix j assume "j < ?n" "j \<noteq> ?d" "cdist ?n ?d j \<le> cdist ?n ?d ?d"
    then show "?H j \<noteq> 0" using cdist_0_iff [OF d(1)] by auto
  next
    fix i j assume a: "i < ?n" "i \<noteq> ?d" "?H i \<noteq> 0" "j < ?n" "j \<noteq> ?d"
      "cdist ?n (home T (?H i)) j < cdist ?n (home T (?H i)) i"
    show "?H j \<noteq> 0"
    proof (cases "i = h")
      case True
      with a(6) pass have "cdist ?n (home T ?x) j < cdist ?n (home T ?x) ?d" "j \<noteq> h" by auto
      with D(11) [OF d nz a(4)] show ?thesis by simp
    next
      case False
      with a nz D(11) [OF a(1) False _ a(4)] show ?thesis by (cases "j = h") auto
    qed
  next
    fix i assume a: "i < ?n" "i \<noteq> ?d"
    then show "cdist ?n ?d ?d < cdist ?n ?d i" using cdist_0_iff [OF d(1) a(1)] by auto
  qed (use D d in blast)+
qed

lemma close_loop:
  assumes "close_inv T S z h d" and "cdist (length T) d z \<le> fuel"
  shows "\<exists>T'. ipc_hash_local_close_loop fuel T (length T) h d = Some T' \<and> same_entries T T' \<and> lhash_inv T' S"
  using assms
proof (induction fuel arbitrary: T h d)
  case 0
  with close_next(3) [OF "0.prems"(1)] show ?case by simp
next
  case (Suc fuel)
  let ?d = "hnext (length T) d"
  have f: "cdist (length T) ?d z \<le> fuel" using Suc.prems(2) close_next(3) [OF Suc.prems(1)] by simp
  consider (empty) "hx T ?d = 0" | (move) "hx T ?d \<noteq> 0" "ih_displaced ?d h (home T (hx T ?d))"
    | (skip) "hx T ?d \<noteq> 0" "\<not> ih_displaced ?d h (home T (hx T ?d))" by blast
  then show ?case
  proof cases
    case empty
    with close_finish [OF Suc.prems(1) empty] show ?thesis by auto
  next
    case move
    let ?T = "set_ie_index T h (hx T ?d)"
    obtain T' where "ipc_hash_local_close_loop fuel ?T (length T) ?d ?d = Some T'"
      "same_entries ?T T'" "lhash_inv T' S"
      using Suc.IH [OF close_move [OF Suc.prems(1) move]] f by auto
    moreover have "same_entries T T'"
      using same_entries_trans [OF same_entries_set_index \<open>same_entries ?T T'\<close>] .
    ultimately show ?thesis using move by (auto simp: home_def)
  next
    case skip
    from Suc.IH [OF close_skip [OF Suc.prems(1) skip] f] skip show ?thesis
      by (auto simp: home_def)
  qed
qed

lemma close_start:
  assumes inv: "lhash_inv T S" and h: "h < length T" "hx T h = index" "index \<noteq> 0"
  obtains z where "close_inv T (S - {index}) z h h"
proof -
  obtain z where z: "z < length T" "hx T z = 0" using lhash_free_slot [OF inv] by blast
  have "close_inv T (S - {index}) z h h"
  proof (rule close_invI)
    show "S - {index} \<subseteq> {0<..<length T}" using lhash_members [OF inv] by auto
    fix i assume i: "i < length T" "i \<noteq> h" "hx T i \<noteq> 0"
    then show "hx T i \<in> S - {index}"
      using lhash_slot_in [OF inv i(1,3)] lhash_inj [OF inv i(1) h(1)] h by auto
  next
    fix k assume "k \<in> S - {index}"
    then show "\<exists>i<length T. i \<noteq> h \<and> hx T i = k" using lhash_slot_of [OF inv] h by blast
  next
    fix i j assume "i < length T" "j < length T" "i \<noteq> h" "j \<noteq> h" "hx T i \<noteq> 0" "hx T i = hx T j"
    then show "i = j" using lhash_inj [OF inv] by blast
  next
    fix j assume "j < length T" "j \<noteq> h" "cdist (length T) h j \<le> cdist (length T) h h"
    then show "hx T j \<noteq> 0" using cdist_0_iff [OF h(1)] by auto
  next
    fix i j assume "i < length T" "i \<noteq> h" "hx T i \<noteq> 0" "j < length T" "j \<noteq> h"
      "cdist (length T) (home T (hx T i)) j < cdist (length T) (home T (hx T i)) i"
    then show "hx T j \<noteq> 0" using lhash_path [OF inv] by blast
  next
    fix i assume "i < length T" "i \<noteq> h"
    then show "cdist (length T) h h < cdist (length T) h i" using cdist_0_iff [OF h(1)] by auto
  qed (use z h in auto)
  then show thesis by (rule that)
qed

lemma ipc_hash_local_delete_correct:
  assumes inv: "lhash_inv (is_table s) S" and sz: "is_table_size s = length (is_table s)"
    and idx: "index \<in> S"
  shows "\<exists>T'. ipc_hash_local_delete s obj index = Some (s\<lparr>is_table := T'\<rparr>) \<and>
     same_entries (is_table s) T' \<and> lhash_inv T' (S - {index})"
proof -
  let ?T = "is_table s" and ?n = "length (is_table s)"
  define hm where "hm = IH_LOCAL_HASH obj ?n"
  have hm: "hm < ?n" using lhash_pos [OF inv] by (simp add: hm_def IH_LOCAL_HASH_def)
  obtain h where h: "h < ?n" "hx ?T h = index" "index \<noteq> 0"
    using lhash_slot_of [OF inv idx] lhash_members [OF inv idx] by auto
  have uniq: "\<forall>j<?n. j \<noteq> h \<longrightarrow> hx ?T j \<noteq> index"
    using lhash_inj [OF inv h(1)] h by metis
  have f: "ipc_hash_local_find_loop ?n ?T ?n index hm = Some h"
    by (rule find_loop [OF hm h(1,2) uniq cdist_less [OF hm h(1)]])
  obtain z where c: "close_inv ?T (S - {index}) z h h" using close_start [OF inv h] .
  from close_loop [OF c, of ?n] cdist_less [OF h(1) close_invD(3) [OF c]]
  obtain T' where "ipc_hash_local_close_loop ?n ?T ?n h h = Some T'" "same_entries ?T T'"
    "lhash_inv T' (S - {index})" by auto
  with f show ?thesis by (intro exI [of _ T']) (simp add: ipc_hash_local_delete_def sz hm_def Let_def)
qed

section \<open>Rounding the global table to a power of two\<close>

text \<open>\<open>top_bit n m\<close>: the highest bit set in \<open>m\<close> is bit \<open>n\<close>.\<close>

definition top_bit :: "nat \<Rightarrow> u32 \<Rightarrow> bool" where
  "top_bit n m \<longleftrightarrow> bit m n \<and> (\<forall>j>n. \<not> bit m j)"

lemma bit_unat: "bit (unat (m :: u32)) j \<longleftrightarrow> bit m j"
  using bit_imp_le_length [of m j] by (auto simp: bit_unsigned_iff)

lemma top_bit_iff: "top_bit n m \<longleftrightarrow> 2 ^ n \<le> unat m \<and> unat m < 2 ^ Suc n"
proof
  assume t: "top_bit n m"
  have "take_bit (Suc n) (unat m) = unat m"
    using t by (intro bit_eqI) (auto simp: top_bit_def bit_take_bit_iff bit_unat less_Suc_eq_le
        simp flip: not_less)
  then have "unat m < 2 ^ Suc n" by (simp add: take_bit_nat_eq_self_iff)
  moreover have "odd (unat m div 2 ^ n)" using t by (simp add: top_bit_def bit_unat flip: bit_iff_odd)
  then have "2 ^ n \<le> unat m" by (metis div_less even_zero not_le)
  ultimately show "2 ^ n \<le> unat m \<and> unat m < 2 ^ Suc n" by simp
next
  assume b: "2 ^ n \<le> unat m \<and> unat m < 2 ^ Suc n"
  then have "unat m div 2 ^ n = 1" by (auto intro!: div_nat_eqI)
  then have "bit (unat m) n" by (simp add: bit_iff_odd)
  then have "bit m n" by (simp only: bit_unat)
  moreover have "take_bit (Suc n) (unat m) = unat m" using b by (simp add: take_bit_nat_eq_self_iff)
  then have "\<not> bit m j" if "n < j" for j
    using that by (metis bit_take_bit_iff bit_unat not_less_eq)
  ultimately show "top_bit n m" by (simp add: top_bit_def)
qed

lemma unat_exp: "n < 32 \<Longrightarrow> unat (2 ^ n :: u32) = 2 ^ n"
proof -
  assume "n < 32"
  then have "take_bit 32 ((2 :: nat) ^ n) = 2 ^ n"
    by (simp only: take_bit_nat_eq_self_iff power_strict_increasing)
  then show ?thesis using unsigned_of_nat [of "2 ^ n", where 'b = 32 and 'a = nat] by simp
qed

lemma exp_less_word:
  assumes "n < 32"
  shows "2 * 2 ^ n \<le> (4294967296 :: nat)"
proof -
  have "(2::nat) ^ Suc n \<le> 2 ^ 32" using assms by (intro power_increasing) auto
  then show ?thesis by simp
qed

lemma and_Suc_top:
  assumes t: "top_bit n m" and "m \<noteq> mask (Suc n)" and n: "n < 32"
  shows "(m + 1) AND m \<noteq> 0"
proof -
  have "unat m \<noteq> 2 ^ Suc n - 1"
  proof
    assume "unat m = 2 ^ Suc n - 1"
    then have "unat m = mask (Suc n)" by (simp add: mask_eq_exp_minus_1)
    then have "bit m j = bit (mask (Suc n) :: u32) j" if "j < 32" for j
      using that bit_unat [of m j] by (simp add: bit_mask_iff)
    then have "m = mask (Suc n)" by (intro bit_word_eqI) simp
    with assms(2) show False by simp
  qed
  moreover have b: "2 ^ n \<le> unat m" "unat m < 2 * 2 ^ n" using t by (simp_all add: top_bit_iff)
  ultimately have "unat m + 1 < 2 * 2 ^ n" by simp
  moreover from this have "unat (m + 1) = unat m + 1"
    using exp_less_word [OF n] unat_add_lem [of m 1] by (simp del: unat_add_lem)
  ultimately have "top_bit n (m + 1)" using b by (simp add: top_bit_iff)
  with t have "bit ((m + 1) AND m) n" by (simp add: top_bit_def bit_simps)
  then show ?thesis by auto
qed

lemma ipc_hash_round_loop_correct:
  assumes "top_bit n m" and "n < 31" and "k \<le> n" and "n - k < fuel" and "\<forall>j<k. bit m j"
  shows "ipc_hash_round_loop fuel m (push_bit k 1) = Some (2 ^ Suc n)"
  using assms
proof (induction fuel arbitrary: m k)
  case (Suc fuel)
  let ?m = "m OR push_bit k 1"
  have t: "top_bit n ?m" using Suc.prems(1,3) by (auto simp: top_bit_def bit_simps)
  have low: "\<forall>j<Suc k. bit ?m j"
    using Suc.prems(2,3,5) by (auto simp: bit_simps less_Suc_eq)
  show ?case
  proof (cases "?m = mask (Suc n)")
    case True
    have "mask (Suc n) + 1 = (2 ^ Suc n :: u32)" by (simp add: mask_eq_exp_minus_1)
    moreover have "(2 ^ Suc n :: u32) AND mask (Suc n) = 0"
      by (rule bit_word_eqI) (auto simp: bit_simps)
    ultimately show ?thesis using True by (simp add: Let_def del: power_Suc)
  next
    case False
    have "k \<noteq> n"
    proof
      assume "k = n"
      have "?m = mask (Suc n)"
        using t low \<open>k = n\<close> by (intro bit_word_eqI) (auto simp: top_bit_def bit_mask_iff not_less_eq)
      with False show False by simp
    qed
    with Suc.prems(3) have "k < n" by simp
    then have "ipc_hash_round_loop fuel ?m (push_bit (Suc k) 1) = Some (2 ^ Suc n)"
      using Suc.prems(2,4) low by (intro Suc.IH [OF t]) auto
    moreover have "(?m + 1) AND ?m \<noteq> 0" by (rule and_Suc_top [OF t False]) (use Suc.prems(2) in simp)
    ultimately show ?thesis by (simp add: Let_def push_bit_push_bit mult.commute)
  qed
qed simp

lemma and_pred_zero:
  assumes "sz \<noteq> 0" and "sz AND (sz - 1) = (0 :: u32)"
  obtains n where "n < 32" and "sz = 2 ^ n"
proof (cases "sz = 1")
  case True
  with that [of 0] show thesis by simp
next
  case False
  have "sz - 1 \<noteq> 0" using False by simp
  then have "1 \<le> unat (sz - 1)" by (metis less_one not_le unat_eq_zero)
  then obtain n where n: "2 ^ n \<le> unat (sz - 1)" "unat (sz - 1) < 2 ^ Suc n"
    using ex_power_ivl1 [of 2 "unat (sz - 1)"] by auto
  have "2 ^ n < (2 :: nat) ^ 32" using n(1) unsigned_less [of "sz - 1", where 'a = nat] by simp
  then have "n < 32" by (simp only: power_strict_increasing_iff)
  have "sz - 1 = mask (Suc n)"
    using and_Suc_top [of n "sz - 1"] n \<open>n < 32\<close> assms(2) by (auto simp: top_bit_iff)
  then have "sz = 2 ^ Suc n" by (simp add: mask_eq_exp_minus_1)
  moreover have "Suc n \<noteq> 32"
  proof
    assume "Suc n = 32"
    with \<open>sz = 2 ^ Suc n\<close> have "sz = 2 ^ 32" by simp
    with assms(1) show False by simp
  qed
  with \<open>n < 32\<close> have "Suc n < 32" by simp
  ultimately show thesis by (rule that [rotated])
qed

lemma ipc_hash_global_size_correct:
  assumes "unat configured \<le> 2 ^ 31"
  shows "\<exists>n\<le>31. ipc_hash_global_size configured ipc_tree_entry_max = Some (2 ^ n) \<and>
     unat configured \<le> 2 ^ n \<and> (0 < configured \<longrightarrow> 2 ^ n < 2 * unat configured) \<and>
     (configured = 0 \<longrightarrow> 32 \<le> (2::nat) ^ n)"
proof -
  define sz where "sz = (if configured = 0
    then let sz = drop_bit 8 ipc_tree_entry_max in if sz < 32 then 32 else sz else configured)"
  have d: "unat (drop_bit 8 ipc_tree_entry_max) \<le> 2 ^ 24"
    using unsigned_less [of ipc_tree_entry_max, where 'a = nat]
      div_le_mono [of "unat ipc_tree_entry_max" "2 ^ 32" "2 ^ 8"]
    by (simp add: drop_bit_eq_div unat_div)
  have sz: "sz \<noteq> 0" "unat sz \<le> 2 ^ 31" "unat configured \<le> unat sz"
    "0 < configured \<Longrightarrow> sz = configured" "configured = 0 \<Longrightarrow> 32 \<le> unat sz"
    using assms d by (auto simp: sz_def Let_def word_less_nat_alt word_gt_0 not_less)
  show ?thesis
  proof (cases "sz AND (sz - 1) = 0")
    case True
    then obtain n where n: "n < 32" "sz = 2 ^ n" using and_pred_zero [OF sz(1)] by blast
    have "unat sz = 2 ^ n" using n by (simp add: unat_exp)
    with True n sz show ?thesis
      by (intro exI [of _ n]) (auto simp: ipc_hash_global_size_def Let_def simp flip: sz_def)
  next
    case False
    then have "sz - 1 \<noteq> 0" by auto
    then have "1 \<le> unat (sz - 1)" by (metis less_one not_le unat_eq_zero)
    then obtain n where n: "2 ^ n \<le> unat (sz - 1)" "unat (sz - 1) < 2 ^ Suc n"
      using ex_power_ivl1 [of 2 "unat (sz - 1)"] by auto
    have s: "unat (sz - 1) = unat sz - 1" using sz(1) by (simp add: unat_minus_one)
    then have b: "2 ^ Suc n < 2 * unat sz" "unat sz \<le> 2 ^ Suc n" using n by auto
    have "(2 :: nat) ^ n < 2 ^ 31" using b(1) sz(2) by simp
    then have n31: "n < 31" by (simp only: power_strict_increasing_iff)
    have "ipc_hash_round_loop 33 (sz - 1) (push_bit 0 1) = Some (2 ^ Suc n)"
      by (rule ipc_hash_round_loop_correct) (use n n31 in \<open>auto simp: top_bit_iff\<close>)
    then have "ipc_hash_global_size configured ipc_tree_entry_max = Some (2 ^ Suc n)"
      using False by (simp add: ipc_hash_global_size_def Let_def flip: sz_def)
    with b n31 sz show ?thesis by (intro exI [of _ "Suc n"]) auto
  qed
qed

section \<open>The global hash table\<close>

text \<open>
  \<open>A\<close> gives, for each hashed tree entry, the object it is hashed for.  Every bucket holds
  the entries that hash to it, each once.
\<close>

definition ghash_inv :: "ipc_hash \<Rightarrow> (ptr \<times> mach_port_t \<Rightarrow> ptr option) \<Rightarrow> bool" where
  "ghash_inv h A \<longleftrightarrow>
     (\<exists>n<32. length h = 2 ^ n) \<and>
     (\<forall>b<length h. distinct (h ! b) \<and>
        set (h ! b) = {e. \<exists>obj. A e = Some obj \<and> IH_GLOBAL_HASH h (fst e) obj = b})"

lemma IH_GLOBAL_HASH_less:
  assumes "length h = 2 ^ n" and "n < 32"
  shows "IH_GLOBAL_HASH h space obj < length h"
proof -
  have m: "(of_nat (length h) - 1 :: u32) = mask n"
    by (simp add: assms(1) mask_eq_exp_minus_1)
  show ?thesis
    unfolding IH_GLOBAL_HASH_def m
    unfolding assms(1) take_bit_eq_mask [symmetric] unsigned_take_bit_eq
    by (rule take_bit_nat_less_exp)
qed

lemma IH_GLOBAL_HASH_length: "length h' = length h \<Longrightarrow> IH_GLOBAL_HASH h' space obj = IH_GLOBAL_HASH h space obj"
  by (simp add: IH_GLOBAL_HASH_def)

lemma ghash_bucket:
  assumes "ghash_inv h A"
  shows "IH_GLOBAL_HASH h space obj < length h"
    and "b < length h \<Longrightarrow> distinct (h ! b)"
    and "b < length h \<Longrightarrow> e \<in> set (h ! b) \<longleftrightarrow> (\<exists>obj. A e = Some obj \<and> IH_GLOBAL_HASH h (fst e) obj = b)"
  using assms IH_GLOBAL_HASH_less unfolding ghash_inv_def by auto

text \<open>A change of one bucket.\<close>

lemma ghash_inv_update:
  assumes inv: "ghash_inv h A" and b: "b < length h" and "distinct xs"
    and xs: "\<And>e. e \<in> set xs \<longleftrightarrow> (\<exists>obj. A' e = Some obj \<and> IH_GLOBAL_HASH h (fst e) obj = b)"
    and rest: "\<And>e obj. IH_GLOBAL_HASH h (fst e) obj \<noteq> b \<Longrightarrow> A' e = Some obj \<longleftrightarrow> A e = Some obj"
  shows "ghash_inv (h[b := xs]) A'"
proof -
  have *: "IH_GLOBAL_HASH (h[b := xs]) = IH_GLOBAL_HASH h"
    by (intro ext IH_GLOBAL_HASH_length) simp
  show ?thesis
    unfolding ghash_inv_def *
  proof (intro conjI allI impI)
    show "\<exists>n<32. length (h[b := xs]) = 2 ^ n" using inv by (simp add: ghash_inv_def)
    fix c assume c: "c < length (h[b := xs])"
    show "distinct (h[b := xs] ! c)"
      using c assms(3) ghash_bucket(2) [OF inv] by (cases "c = b") auto
    show "set (h[b := xs] ! c) = {e. \<exists>obj. A' e = Some obj \<and> IH_GLOBAL_HASH h (fst e) obj = c}"
    proof (cases "c = b")
      case True
      with xs b show ?thesis by auto
    next
      case False
      with c have c: "c < length h" "c \<noteq> b" by auto
      show ?thesis
      proof (rule set_eqI)
        fix e
        have "(\<exists>obj. A e = Some obj \<and> IH_GLOBAL_HASH h (fst e) obj = c) \<longleftrightarrow>
            (\<exists>obj. A' e = Some obj \<and> IH_GLOBAL_HASH h (fst e) obj = c)"
          using rest c(2) by metis
        with ghash_bucket(3) [OF inv c(1), of e] False
        show "e \<in> set (h[b := xs] ! c) \<longleftrightarrow>
            e \<in> {e. \<exists>obj. A' e = Some obj \<and> IH_GLOBAL_HASH h (fst e) obj = c}" by simp
      qed
    qed
  qed
qed

lemma ipc_hash_global_insert_correct:
  assumes inv: "ghash_inv h A" and new: "A (space, name) = None"
  shows "ghash_inv (fst (ipc_hash_global_insert h space s obj name)) (A((space, name) \<mapsto> obj))"
proof -
  let ?b = "IH_GLOBAL_HASH h space obj"
  have b: "?b < length h" by (rule ghash_bucket(1) [OF inv])
  have "ghash_inv (h[?b := (space, name) # (h ! ?b)]) (A((space, name) \<mapsto> obj))"
    by (rule ghash_inv_update [OF inv b])
      (use new ghash_bucket(2,3) [OF inv b] in auto)
  then show ?thesis by (simp add: ipc_hash_global_insert_def Let_def)
qed

lemma ipc_hash_global_delete_correct:
  assumes inv: "ghash_inv h A" and old: "A (space, name) = Some obj"
  shows "ghash_inv (fst (ipc_hash_global_delete h space s obj name)) (A((space, name) := None))"
proof -
  let ?b = "IH_GLOBAL_HASH h space obj"
  have b: "?b < length h" by (rule ghash_bucket(1) [OF inv])
  have "ghash_inv (h[?b := remove1 (space, name) (h ! ?b)]) (A((space, name) := None))"
    by (rule ghash_inv_update [OF inv b])
      (use old ghash_bucket(2,3) [OF inv b] in \<open>auto simp: distinct_remove1\<close>)
  then show ?thesis by (simp add: ipc_hash_global_delete_def Let_def)
qed

lemma ih_match_iff:
  assumes "\<And>nm o'. A (space, nm) = Some o' \<Longrightarrow>
     (\<exists>e. tree_find (is_tree s) nm = Some e \<and> ie_object (ite_entry e) = o')"
    and "A x = Some o'"
  shows "ih_match space s obj x \<longleftrightarrow> fst x = space \<and> o' = obj"
  using assms(1) [of "snd x" o'] assms(2) by (cases x) (auto simp: ih_match_def)

lemma ipc_hash_global_lookup_correct:
  assumes inv: "ghash_inv h A"
    and tree: "\<And>nm o'. A (space, nm) = Some o' \<Longrightarrow>
      (\<exists>e. tree_find (is_tree s) nm = Some e \<and> ie_object (ite_entry e) = o')"
  shows "case ipc_hash_global_lookup h space s obj of (r, h') \<Rightarrow>
     ghash_inv h' A \<and> length h' = length h \<and>
     (case r of
        None \<Rightarrow> \<forall>nm. A (space, nm) \<noteq> Some obj
      | Some (nm, entry) \<Rightarrow> entry = TreeEntry nm \<and> A (space, nm) = Some obj)"
proof -
  let ?b = "IH_GLOBAL_HASH h space obj" and ?P = "ih_match space s obj"
  have b: "?b < length h" by (rule ghash_bucket(1) [OF inv])
  note set = ghash_bucket(3) [OF inv b] and dist = ghash_bucket(2) [OF inv b]
  have hit: "A (space, snd x) = Some obj" if "x \<in> set (h ! ?b)" "?P x" for x
    using that set [of x] ih_match_iff [OF tree] by (metis prod.collapse)
  have miss: "\<forall>nm. A (space, nm) \<noteq> Some obj" if "\<forall>x\<in>set (h ! ?b). \<not> ?P x"
    using that set ih_match_iff [OF tree] by (metis fst_conv)
  show ?thesis
  proof (cases "h ! ?b")
    case Nil
    with miss inv show ?thesis by (simp add: ipc_hash_global_lookup_def Let_def)
  next
    case (Cons this rest)
    show ?thesis
    proof (cases "?P this")
      case True
      with Cons hit inv show ?thesis by (simp add: ipc_hash_global_lookup_def Let_def)
    next
      case np: False
      show ?thesis
      proof (cases "find ?P rest")
        case None
        then have "\<forall>x\<in>set (h ! ?b). \<not> ?P x" using Cons np by (auto simp: find_None_iff)
        with None Cons np miss inv show ?thesis by (simp add: ipc_hash_global_lookup_def Let_def)
      next
        case (Some found)
        then have f: "found \<in> set rest" "?P found" by (auto simp: find_Some_iff)
        have "ghash_inv (h[?b := found # this # remove1 found rest]) A"
        proof (rule ghash_inv_update [OF inv b])
          show "distinct (found # this # remove1 found rest)"
            using dist Cons f by (auto simp: distinct_remove1)
          have "set (found # this # remove1 found rest) = set (h ! ?b)"
            using dist Cons f by auto
          then show "e \<in> set (found # this # remove1 found rest) \<longleftrightarrow>
              (\<exists>obj'. A e = Some obj' \<and> IH_GLOBAL_HASH h (fst e) obj' = ?b)" for e
            using set by blast
        qed simp
        with Some Cons np hit f show ?thesis by (simp add: ipc_hash_global_lookup_def Let_def)
      qed
    qed
  qed
qed

lemma ghash_inv_init:
  assumes "unat configured \<le> 2 ^ 31"
  shows "\<exists>h. ipc_hash_init configured ipc_tree_entry_max = Some h \<and> ghash_inv h Map.empty"
proof -
  obtain n where n: "n \<le> 31" "ipc_hash_global_size configured ipc_tree_entry_max = Some (2 ^ n)"
    using ipc_hash_global_size_correct [OF assms] by blast
  then have "unat (2 ^ n :: u32) = 2 ^ n" by (simp add: unat_exp)
  with n show ?thesis by (auto simp: ipc_hash_init_def ghash_inv_def intro!: exI [of _ n])
qed

section \<open>The interface of both tables\<close>

text \<open>
  What the callers rely on: the table stands for the set of its members with the objects
  they are hashed for.  Every operation returns.
\<close>

locale reverse_hash =
  fixes inv :: "'t \<Rightarrow> ('n \<Rightarrow> ptr option) \<Rightarrow> bool" and may :: "'t \<Rightarrow> ptr \<Rightarrow> 'n \<Rightarrow> bool"
    and lookup :: "'t \<Rightarrow> ptr \<Rightarrow> ('n option \<times> 't) option"
    and ins :: "'t \<Rightarrow> ptr \<Rightarrow> 'n \<Rightarrow> 't option" and del :: "'t \<Rightarrow> ptr \<Rightarrow> 'n \<Rightarrow> 't option"
  assumes lookup_law: "inv t A \<Longrightarrow>
      \<exists>r t'. lookup t obj = Some (r, t') \<and> inv t' A \<and>
        (case r of None \<Rightarrow> obj \<notin> ran A | Some n \<Rightarrow> A n = Some obj)"
    and ins_law: "inv t A \<Longrightarrow> A n = None \<Longrightarrow> may t obj n \<Longrightarrow>
      \<exists>t'. ins t obj n = Some t' \<and> inv t' (A(n \<mapsto> obj))"
    and del_law: "inv t A \<Longrightarrow> A n = Some obj \<Longrightarrow>
      \<exists>t'. del t obj n = Some t' \<and> inv t' (A(n := None))"
begin

lemma lookup_after_ins:
  assumes "inv t A" and "A n = None" and "may t obj n" and "obj \<notin> ran A"
  shows "\<exists>t1 t2. ins t obj n = Some t1 \<and> lookup t1 obj = Some (Some n, t2) \<and> inv t2 (A(n \<mapsto> obj))"
proof -
  obtain t1 where t1: "ins t obj n = Some t1" "inv t1 (A(n \<mapsto> obj))"
    using ins_law [OF assms(1-3)] by blast
  obtain r t2 where l: "lookup t1 obj = Some (r, t2)" "inv t2 (A(n \<mapsto> obj))"
    and r: "case r of None \<Rightarrow> obj \<notin> ran (A(n \<mapsto> obj)) | Some n' \<Rightarrow> (A(n \<mapsto> obj)) n' = Some obj"
    using lookup_law [OF t1(2)] by blast
  have "r = Some n"
    using r assms(4) by (cases r) (auto simp: ran_def split: if_splits)
  with t1 l show ?thesis by blast
qed

lemma lookup_after_del:
  assumes "inv t A" and "A n = Some obj" and "\<forall>n'. A n' = Some obj \<longrightarrow> n' = n"
  shows "\<exists>t1 t2. del t obj n = Some t1 \<and> lookup t1 obj = Some (None, t2) \<and> inv t2 (A(n := None))"
proof -
  obtain t1 where t1: "del t obj n = Some t1" "inv t1 (A(n := None))"
    using del_law [OF assms(1,2)] by blast
  obtain r t2 where l: "lookup t1 obj = Some (r, t2)" "inv t2 (A(n := None))"
    and r: "case r of None \<Rightarrow> obj \<notin> ran (A(n := None)) | Some n' \<Rightarrow> (A(n := None)) n' = Some obj"
    using lookup_law [OF t1(2)] by blast
  have "r = None" using r assms(3) by (cases r) (auto split: if_splits)
  with t1 l show ?thesis by blast
qed

end

text \<open>The local table of a space, seen as the map from hashed indices to objects.\<close>

definition lhash_rep :: "ipc_space \<Rightarrow> (nat \<Rightarrow> ptr option) \<Rightarrow> bool" where
  "lhash_rep s A \<longleftrightarrow>
     lhash_inv (is_table s) (dom A) \<and> is_table_size s = length (is_table s) \<and>
     (\<forall>k obj. A k = Some obj \<longrightarrow> ie_object (is_table s ! k) = obj)"

definition lhash_may :: "ipc_space \<Rightarrow> ptr \<Rightarrow> nat \<Rightarrow> bool" where
  "lhash_may s obj k \<longleftrightarrow> 0 < k \<and> k < length (is_table s) \<and> ie_object (is_table s ! k) = obj"

definition lhash_find :: "ipc_space \<Rightarrow> ptr \<Rightarrow> (nat option \<times> ipc_space) option" where
  "lhash_find s obj =
     map_option (\<lambda>r. (case r of Some (name, TableEntry k) \<Rightarrow> Some k | _ \<Rightarrow> None, s))
       (ipc_hash_local_lookup s obj)"

lemma lhash_rep_change:
  assumes "lhash_rep s A" and "same_entries (is_table s) T'" and "lhash_inv T' (dom A')"
    and "\<And>k obj. A' k = Some obj \<Longrightarrow> k < length (is_table s) \<and> ie_object (is_table s ! k) = obj"
  shows "lhash_rep (s\<lparr>is_table := T'\<rparr>) A'"
  using assms same_entries_length [OF assms(2)] same_entries_nth(2) [OF assms(2)]
  by (simp add: lhash_rep_def)

lemma lhash_rep_member:
  "lhash_rep s A \<Longrightarrow> A k = Some obj \<Longrightarrow> k < length (is_table s) \<and> ie_object (is_table s ! k) = obj"
  using lhash_members [of "is_table s" "dom A" k] by (auto simp: lhash_rep_def)

interpretation local_hash: reverse_hash lhash_rep lhash_may lhash_find
    ipc_hash_local_insert ipc_hash_local_delete
proof unfold_locales
  fix s A obj k
  assume rep: "lhash_rep s A"
  then have inv: "lhash_inv (is_table s) (dom A)" and sz: "is_table_size s = length (is_table s)"
    by (simp_all add: lhash_rep_def)
  obtain r where r: "ipc_hash_local_lookup s obj = Some r"
    and none: "r = None \<longrightarrow> (\<forall>k\<in>dom A. ie_object (is_table s ! k) \<noteq> obj)"
    and some: "\<forall>name e. r = Some (name, e) \<longrightarrow> (\<exists>k\<in>dom A. ie_object (is_table s ! k) = obj \<and>
         name = MACH_PORT_MAKEB k (ie_bits (is_table s ! k)) \<and> e = TableEntry k)"
    using ipc_hash_local_lookup_correct [OF inv sz, of obj] by blast
  show "\<exists>r t'. lhash_find s obj = Some (r, t') \<and> lhash_rep t' A \<and>
      (case r of None \<Rightarrow> obj \<notin> ran A | Some n \<Rightarrow> A n = Some obj)"
  proof (cases r)
    case None
    with none lhash_rep_member [OF rep] have "obj \<notin> ran A" by (auto simp: ran_def)
    with None r rep show ?thesis by (simp add: lhash_find_def)
  next
    case (Some x)
    obtain name e where x: "x = (name, e)" by fastforce
    obtain k y where "A k = Some y" "ie_object (is_table s ! k) = obj" "e = TableEntry k"
      using some Some x by blast
    with lhash_rep_member [OF rep] x Some r rep show ?thesis by (auto simp: lhash_find_def)
  qed
  show "\<exists>t'. ipc_hash_local_insert s obj k = Some t' \<and> lhash_rep t' (A(k \<mapsto> obj))"
    if new: "A k = None" "lhash_may s obj k"
  proof -
    obtain T' where T': "ipc_hash_local_insert s obj k = Some (s\<lparr>is_table := T'\<rparr>)"
      "same_entries (is_table s) T'" "lhash_inv T' (insert k (dom A))"
      using ipc_hash_local_insert_correct [OF inv sz, of k obj] new by (auto simp: lhash_may_def)
    have "lhash_rep (s\<lparr>is_table := T'\<rparr>) (A(k \<mapsto> obj))"
      using new lhash_rep_member [OF rep] T'
      by (intro lhash_rep_change [OF rep T'(2)]) (auto simp: lhash_may_def split: if_splits)
    with T' show ?thesis by blast
  qed
  show "\<exists>t'. ipc_hash_local_delete s obj k = Some t' \<and> lhash_rep t' (A(k := None))"
    if old: "A k = Some obj"
  proof -
    obtain T' where T': "ipc_hash_local_delete s obj k = Some (s\<lparr>is_table := T'\<rparr>)"
      "same_entries (is_table s) T'" "lhash_inv T' (dom A - {k})"
      using ipc_hash_local_delete_correct [OF inv sz, of k obj] old by blast
    have "lhash_rep (s\<lparr>is_table := T'\<rparr>) (A(k := None))"
      using lhash_rep_member [OF rep] T'
      by (intro lhash_rep_change [OF rep T'(2)]) (auto split: if_splits)
    with T' show ?thesis by blast
  qed
qed

text \<open>
  The part of the global table that belongs to one space, seen as the map from the names
  of hashed tree entries to objects.
\<close>

definition ghash_rep :: "ptr \<Rightarrow> ipc_hash \<times> ipc_space \<Rightarrow> (mach_port_t \<Rightarrow> ptr option) \<Rightarrow> bool" where
  "ghash_rep space hs A \<longleftrightarrow>
     (\<exists>G. ghash_inv (fst hs) G \<and> (\<forall>nm. A nm = G (space, nm))) \<and>
     (\<forall>nm obj. A nm = Some obj \<longrightarrow>
        (\<exists>e. tree_find (is_tree (snd hs)) nm = Some e \<and> ie_object (ite_entry e) = obj))"

definition ghash_may :: "ipc_hash \<times> ipc_space \<Rightarrow> ptr \<Rightarrow> mach_port_t \<Rightarrow> bool" where
  "ghash_may hs obj nm \<longleftrightarrow>
     (\<exists>e. tree_find (is_tree (snd hs)) nm = Some e \<and> ie_object (ite_entry e) = obj)"

definition ghash_find ::
    "ptr \<Rightarrow> ipc_hash \<times> ipc_space \<Rightarrow> ptr \<Rightarrow> (mach_port_t option \<times> ipc_hash \<times> ipc_space) option" where
  "ghash_find space hs obj =
     (case ipc_hash_global_lookup (fst hs) space (snd hs) obj of
        (r, h') \<Rightarrow> Some (map_option fst r, h', snd hs))"

interpretation global_hash: reverse_hash "ghash_rep space" ghash_may "ghash_find space"
    "\<lambda>hs obj nm. Some (ipc_hash_global_insert (fst hs) space (snd hs) obj nm)"
    "\<lambda>hs obj nm. Some (ipc_hash_global_delete (fst hs) space (snd hs) obj nm)" for space
proof unfold_locales
  fix hs A obj nm
  assume rep: "ghash_rep space hs A"
  obtain h s where hs: "hs = (h, s)" by fastforce
  from rep obtain G where inv: "ghash_inv h G" and G: "\<And>nm. A nm = G (space, nm)"
    and tree: "\<And>nm obj. A nm = Some obj \<Longrightarrow> \<exists>e. tree_find (is_tree s) nm = Some e \<and> ie_object (ite_entry e) = obj"
    by (auto simp: ghash_rep_def hs)
  have T: "\<exists>e. tree_find (is_tree s) nm = Some e \<and> ie_object (ite_entry e) = obj"
    if "G (space, nm) = Some obj" for nm obj
    using that tree G by metis
  obtain r h' where l: "ipc_hash_global_lookup h space s obj = (r, h')" by fastforce
  have L: "ghash_inv h' G" "case r of None \<Rightarrow> \<forall>nm. G (space, nm) \<noteq> Some obj
      | Some (nm, entry) \<Rightarrow> entry = TreeEntry nm \<and> G (space, nm) = Some obj"
    using ipc_hash_global_lookup_correct [where A = G and space = space and s = s and obj = obj, OF inv T] l
    by simp_all
  show "\<exists>r t'. ghash_find space hs obj = Some (r, t') \<and> ghash_rep space t' A \<and>
      (case r of None \<Rightarrow> obj \<notin> ran A | Some n \<Rightarrow> A n = Some obj)"
  proof -
    have "ghash_rep space (h', s) A" using L(1) G tree by (auto simp: ghash_rep_def)
    moreover have "case map_option fst r of None \<Rightarrow> obj \<notin> ran A | Some n \<Rightarrow> A n = Some obj"
      using L(2) G by (auto simp: ran_def split: option.splits)
    ultimately show ?thesis using l by (simp add: ghash_find_def hs)
  qed
  show "\<exists>t'. Some (ipc_hash_global_insert (fst hs) space (snd hs) obj nm) = Some t' \<and>
      ghash_rep space t' (A(nm \<mapsto> obj))" if new: "A nm = None" "ghash_may hs obj nm"
  proof -
    have "ghash_inv (fst (ipc_hash_global_insert h space s obj nm)) (G((space, nm) \<mapsto> obj))"
      by (rule ipc_hash_global_insert_correct [OF inv]) (use new G in simp)
    moreover have "is_tree (snd (ipc_hash_global_insert h space s obj nm)) = is_tree s"
      by (simp add: ipc_hash_global_insert_def Let_def)
    ultimately show ?thesis
      using G tree new by (auto simp: ghash_rep_def ghash_may_def hs intro!: exI [of _ "G((space, nm) \<mapsto> obj)"])
  qed
  show "\<exists>t'. Some (ipc_hash_global_delete (fst hs) space (snd hs) obj nm) = Some t' \<and>
      ghash_rep space t' (A(nm := None))" if old: "A nm = Some obj"
  proof -
    have "ghash_inv (fst (ipc_hash_global_delete h space s obj nm)) (G((space, nm) := None))"
      by (rule ipc_hash_global_delete_correct [OF inv]) (use old G in simp)
    moreover have "is_tree (snd (ipc_hash_global_delete h space s obj nm)) = is_tree s"
      by (simp add: ipc_hash_global_delete_def Let_def)
    ultimately show ?thesis
      using G tree by (auto simp: ghash_rep_def hs intro!: exI [of _ "G((space, nm) := None)"])
  qed
qed

section \<open>Properties\<close>

text \<open>A space with two send rights whose objects collide in the local hash table.\<close>

definition sample_hash_space :: ipc_space where
  "sample_hash_space =
     \<lparr>is_references = 1, is_active = True, is_growing = False,
      is_table = [\<lparr>ie_bits = 0xff000000, ie_object = 0, ie_request = 3, ie_index = 2\<rparr>,
                  \<lparr>ie_bits = 0x00010001, ie_object = 0x0c0, ie_request = 0, ie_index = 0\<rparr>,
                  \<lparr>ie_bits = 0x00010001, ie_object = 0x1c0, ie_request = 0, ie_index = 0\<rparr>,
                  \<lparr>ie_bits = 0xff000000, ie_object = 0, ie_request = 0, ie_index = 1\<rparr>],
      is_table_size = 4, is_table_next = 1, is_tree = ist_fresh, is_tree_total = 0,
      is_tree_small = 0, is_tree_hash = 0, is_notify = 0\<rparr>"

definition sample_hash_map :: "nat \<Rightarrow> ptr option" where
  "sample_hash_map = [1 \<mapsto> 0x0c0, 2 \<mapsto> 0x1c0]"

lemma all_less_4: "(\<forall>i<4. P i) \<longleftrightarrow> P 0 \<and> P 1 \<and> P 2 \<and> P (3 :: nat)"
  by (auto simp: less_Suc_eq eval_nat_numeral)

lemma sample_lhash_inv:
  assumes "length T = 4" and "hx T 0 = 2" "hx T 1 = 0" "hx T 2 = 0" "hx T 3 = 1"
    and "home T 1 = 3" and "home T 2 = 3"
  shows "lhash_inv T {1, 2}"
proof -
  have "\<exists>i<length T. hx T i = 1" "\<exists>i<length T. hx T i = 2"
    using assms by (auto intro: exI [of _ 3] exI [of _ 0])
  then show ?thesis
    unfolding lhash_inv_def using assms by (simp add: all_less_4 cdist_def)
qed

lemma sample_hash_rep: "lhash_rep sample_hash_space sample_hash_map"
proof -
  have "lhash_inv (is_table sample_hash_space) {1, 2}"
    by (rule sample_lhash_inv) (simp_all add: sample_hash_space_def home_def IH_LOCAL_HASH_def)
  then show ?thesis
    by (auto simp: lhash_rep_def sample_hash_map_def sample_hash_space_def insert_commute)
qed

text \<open>C34: A lookup in the local reverse hash table of a space always ends, finds the table entry of a
hashed object and reports that there is none when no entry is hashed for the object.\<close>

theorem local_hash_lookup:
  assumes "lhash_rep s A"
  shows "\<exists>r. ipc_hash_local_lookup s obj = Some r \<and>
     (case r of
        None \<Rightarrow> obj \<notin> ran A
      | Some (name, entry) \<Rightarrow> \<exists>k. A k = Some obj \<and> entry = TableEntry k \<and>
          name = MACH_PORT_MAKEB k (ie_bits (is_table s ! k)))"
proof -
  obtain r where "ipc_hash_local_lookup s obj = Some r"
    and "r = None \<longrightarrow> (\<forall>k\<in>dom A. ie_object (is_table s ! k) \<noteq> obj)"
    and "\<forall>name e. r = Some (name, e) \<longrightarrow> (\<exists>k\<in>dom A. ie_object (is_table s ! k) = obj \<and>
         name = MACH_PORT_MAKEB k (ie_bits (is_table s ! k)) \<and> e = TableEntry k)"
    using ipc_hash_local_lookup_correct [of s "dom A" obj] assms unfolding lhash_rep_def by blast
  with lhash_rep_member [OF assms] show ?thesis
    by (cases r) (fastforce simp: ran_def)+
qed

theorem local_hash_lookup_witness:
  "lhash_rep sample_hash_space sample_hash_map \<and>
   ipc_hash_local_lookup sample_hash_space 0x1c0 = Some (Some (0x200, TableEntry 2))"
proof -
  have "sample_hash_map k = Some 0x1c0 \<longleftrightarrow> k = 2" for k by (simp add: sample_hash_map_def)
  then have "0x1c0 \<in> ran sample_hash_map" by (auto simp: ran_def)
  with local_hash_lookup [OF sample_hash_rep, of "0x1c0"] sample_hash_rep
    \<open>\<And>k. sample_hash_map k = Some 0x1c0 \<longleftrightarrow> k = 2\<close>
  show ?thesis
    by (auto simp: sample_hash_space_def MACH_PORT_MAKEB_def MACH_PORT_MAKE_def IE_BITS_GEN_def
        IE_BITS_GEN_MASK_def split: option.splits)
qed

text \<open>C35: Hashing a table entry for an object not hashed before ends, and a lookup of that object then
returns that entry; the other members stay.\<close>

theorem local_hash_insert_lookup:
  assumes "lhash_rep s A" and "A k = None" and "lhash_may s obj k" and "obj \<notin> ran A"
  shows "\<exists>s1. ipc_hash_local_insert s obj k = Some s1 \<and> lhash_rep s1 (A(k \<mapsto> obj)) \<and>
     (\<exists>s2. lhash_find s1 obj = Some (Some k, s2))"
  using local_hash.lookup_after_ins [OF assms] local_hash.ins_law [OF assms(1-3)] by force

theorem local_hash_insert_lookup_witness:
  "lhash_rep sample_hash_space sample_hash_map \<and>
   (\<exists>s1. ipc_hash_local_insert (sample_hash_space\<lparr>is_table := (is_table sample_hash_space)
        [3 := \<lparr>ie_bits = 0x00010001, ie_object = 0x80, ie_request = 0, ie_index = 1\<rparr>]\<rparr>) 0x80 3 = Some s1 \<and>
      (\<exists>s2. lhash_find s1 0x80 = Some (Some 3, s2)))"
proof -
  let ?T = "(is_table sample_hash_space)
    [3 := \<lparr>ie_bits = 0x00010001, ie_object = 0x80, ie_request = 0, ie_index = 1\<rparr>]"
  have "lhash_inv ?T {1, 2}"
    by (rule sample_lhash_inv) (simp_all add: sample_hash_space_def home_def IH_LOCAL_HASH_def)
  then have "lhash_rep (sample_hash_space\<lparr>is_table := ?T\<rparr>) sample_hash_map"
    by (auto simp: lhash_rep_def sample_hash_map_def sample_hash_space_def insert_commute)
  moreover have "sample_hash_map 3 = None" "0x80 \<notin> ran sample_hash_map"
    by (auto simp: sample_hash_map_def ran_def split: if_splits)
  moreover have "lhash_may (sample_hash_space\<lparr>is_table := ?T\<rparr>) 0x80 3"
    by (simp add: lhash_may_def sample_hash_space_def)
  ultimately show ?thesis
    using local_hash_insert_lookup [of "sample_hash_space\<lparr>is_table := ?T\<rparr>" sample_hash_map 3 "0x80"]
      sample_hash_rep by blast
qed

text \<open>C36: Removing an entry from the local hash table ends, closes the hole it leaves, and keeps every
other entry reachable; an object that only it was hashed for is no longer found.\<close>

theorem local_hash_delete_lookup:
  assumes "lhash_rep s A" and "A k = Some obj"
  shows "\<exists>s1. ipc_hash_local_delete s obj k = Some s1 \<and> lhash_rep s1 (A(k := None)) \<and>
     (\<forall>k' o'. k' \<noteq> k \<and> A k' = Some o' \<longrightarrow> (\<exists>k'' s2. lhash_find s1 o' = Some (Some k'', s2) \<and> A k'' = Some o')) \<and>
     ((\<forall>k'. A k' = Some obj \<longrightarrow> k' = k) \<longrightarrow> (\<exists>s2. lhash_find s1 obj = Some (None, s2)))"
proof -
  obtain s1 where s1: "ipc_hash_local_delete s obj k = Some s1" "lhash_rep s1 (A(k := None))"
    using local_hash.del_law [OF assms] by blast
  have "\<exists>k'' s2. lhash_find s1 o' = Some (Some k'', s2) \<and> A k'' = Some o'"
    if "k' \<noteq> k" "A k' = Some o'" for k' o'
  proof -
    obtain r t' where r: "lhash_find s1 o' = Some (r, t')"
      "case r of None \<Rightarrow> o' \<notin> ran (A(k := None)) | Some n \<Rightarrow> (A(k := None)) n = Some o'"
      using local_hash.lookup_law [OF s1(2), of o'] by blast
    have "o' \<in> ran (A(k := None))" using that by (auto simp: ran_def)
    with r show ?thesis by (cases r) (auto split: if_splits)
  qed
  with s1 local_hash.lookup_after_del [OF assms] show ?thesis by auto
qed

theorem local_hash_delete_lookup_witness:
  "lhash_rep sample_hash_space sample_hash_map \<and> sample_hash_map 1 = Some 0x0c0 \<and>
   (\<exists>s1 s2. ipc_hash_local_delete sample_hash_space 0x0c0 1 = Some s1 \<and>
      lhash_find s1 0x1c0 = Some (Some 2, s2))"
proof -
  have m: "sample_hash_map 1 = Some 0x0c0" "sample_hash_map 2 = Some 0x1c0"
    "\<And>k. sample_hash_map k = Some 0x1c0 \<Longrightarrow> k = 2"
    by (auto simp: sample_hash_map_def split: if_splits)
  from local_hash_delete_lookup [OF sample_hash_rep m(1)] obtain s1 where
    s1: "ipc_hash_local_delete sample_hash_space 0x0c0 1 = Some s1"
    and "\<forall>k' o'. k' \<noteq> 1 \<and> sample_hash_map k' = Some o' \<longrightarrow>
      (\<exists>k'' s2. lhash_find s1 o' = Some (Some k'', s2) \<and> sample_hash_map k'' = Some o')" by blast
  then obtain k s2 where "lhash_find s1 0x1c0 = Some (Some k, s2)" "sample_hash_map k = Some 0x1c0"
    using m(2) by (metis one_eq_numeral_iff semiring_norm(85))
  with s1 m sample_hash_rep show ?thesis by blast
qed

text \<open>C38: The size of the global hash table is a power of two, at least the configured size and
less than twice that, so that masking with the size minus one is a valid bucket index.\<close>

theorem global_hash_size:
  assumes "unat configured \<le> 2 ^ 31"
  shows "\<exists>n\<le>31. ipc_hash_global_size configured ipc_tree_entry_max = Some (2 ^ n) \<and>
     unat configured \<le> 2 ^ n \<and> (0 < configured \<longrightarrow> 2 ^ n < 2 * unat configured) \<and>
     (configured = 0 \<longrightarrow> 32 \<le> (2::nat) ^ n)"
  by (rule ipc_hash_global_size_correct [OF assms])

theorem global_hash_size_witness:
  "unat (1000 :: u32) \<le> 2 ^ 31 \<and>
   (\<exists>n\<le>31. ipc_hash_global_size 1000 0 = Some (2 ^ n) \<and> 1000 \<le> (2 :: nat) ^ n \<and> (2 :: nat) ^ n < 2000)"
  using global_hash_size [of 1000 0] by auto



end
