(* ===== verification/Ipc_Entry.thy ===== *)
theory Ipc_Entry
  imports Ipc_Hash
begin

text \<open>
  The entries of a space, \<^verbatim>\<open>src/ipc/ipc_entry.c\<close>: looking up a name, taking an entry from the
  free list of the table, allocating an entry with a given name (in the table or in the
  splay tree), giving an entry back, and growing the table.

  Routines that block give up the lock of the space.  What happens then is an argument
  of the model: a \<open>window\<close> is the outcome of the allocation for which the lock was given
  up, together with the change that other threads make meanwhile to the global hash
  table and to the space.  A routine takes windows from a list, in order; when the list
  is used up, allocations succeed and nothing else happens.  The result of a routine
  that may return with the space unlocked says whether it is locked.

  \<open>its\<close> is the array of table sizes, \<open>sp\<close> the address of the space.
\<close>

section \<open>Windows\<close>

type_synonym hspace = "ipc_hash \<times> ipc_space"
type_synonym window = "bool \<times> (hspace \<Rightarrow> hspace)"

fun next_window :: "window list \<Rightarrow> window \<times> window list" where
  "next_window [] = ((True, id), [])"
| "next_window (w # ws) = (w, ws)"

section \<open>Looking up names\<close>

definition ipc_entry_tree_collision :: "ipc_space \<Rightarrow> mach_port_t \<Rightarrow> bool \<times> ipc_space" where
  "ipc_entry_tree_collision s name =
     (let (lower, upper, tree) = ipc_splay_tree_bounds (is_tree s) name;
          index = MACH_PORT_INDEX name
      in ((lower \<noteq> NOT 0 \<and> MACH_PORT_INDEX lower = index) \<or> (upper \<noteq> 0 \<and> MACH_PORT_INDEX upper = index),
          s\<lparr>is_tree := tree\<rparr>))"

definition ipc_entry_tree_lookup :: "ipc_space \<Rightarrow> mach_port_t \<Rightarrow> ipc_entry_ptr option \<times> ipc_space" where
  "ipc_entry_tree_lookup s name =
     (let (e, tree) = ipc_splay_tree_lookup (is_tree s) name
      in (map_option (\<lambda>_. TreeEntry name) e, s\<lparr>is_tree := tree\<rparr>))"

definition ipc_entry_lookup :: "ipc_space \<Rightarrow> mach_port_t \<Rightarrow> ipc_entry_ptr option \<times> ipc_space" where
  "ipc_entry_lookup s name =
     (let index = MACH_PORT_INDEX name
      in if index < is_table_size s then
           let bits = ie_bits (is_table s ! index)
           in if IE_BITS_GEN bits \<noteq> MACH_PORT_GEN name then
                if bits AND IE_BITS_COLLISION \<noteq> 0 then ipc_entry_tree_lookup s name
                else (None, s)
              else if IE_BITS_TYPE bits = MACH_PORT_TYPE_NONE then (None, s)
              else (Some (TableEntry index), s)
         else if is_tree_total s = 0 then (None, s)
         else ipc_entry_tree_lookup s name)"

section \<open>Taking a free entry\<close>

definition ipc_entry_get :: "ipc_space \<Rightarrow> kern_return + (mach_port_t \<times> ipc_entry_ptr \<times> ipc_space)" where
  "ipc_entry_get s =
     (let table = is_table s;
          first_free = ie_request (table ! 0)
      in if first_free = 0 then Inl KERN_NO_SPACE
         else
           let free_entry = table ! first_free;
               table = table[0 := (table ! 0)\<lparr>ie_request := ie_request free_entry\<rparr>];
               gen = ie_bits free_entry + IE_BITS_GEN_ONE;
               table = table[first_free := (table ! first_free)\<lparr>ie_bits := gen, ie_request := 0\<rparr>]
           in Inr (MACH_PORT_MAKE first_free gen, TableEntry first_free, s\<lparr>is_table := table\<rparr>))"

section \<open>Giving an entry back\<close>

text \<open>A table entry with collisions gets the place of one of the tree entries with its index.\<close>

definition ipc_entry_dealloc_move :: "ptr \<Rightarrow> ipc_hash \<Rightarrow> ipc_space \<Rightarrow> nat \<Rightarrow> hspace option" where
  "ipc_entry_dealloc_move sp h s index =
     (let (tree, collisions) = ipc_splay_tree_split (is_tree s) (MACH_PORT_MAKE (index + 1) 0);
          (collisions, small) = ipc_splay_tree_split collisions (MACH_PORT_MAKE index 0)
      in case ipc_splay_tree_pick collisions of
           None \<Rightarrow> None
         | Some (tname, tentry) \<Rightarrow>
             do {
               let bits = ie_bits (ite_entry tentry);
               let obj = ie_object (ite_entry tentry);
               let s = s\<lparr>is_tree := tree,
                     is_table := (is_table s)[index := (is_table s ! index)
                       \<lparr>ie_bits := bits OR MACH_PORT_GEN tname, ie_object := obj,
                        ie_request := ie_request (ite_entry tentry)\<rparr>]\<rparr>;
               (h, s) \<leftarrow>
                 (if IE_BITS_TYPE bits = MACH_PORT_TYPE_SEND then
                    let (h, s) = ipc_hash_global_delete h sp s obj tname
                    in map_option (Pair h) (ipc_hash_local_insert s obj index)
                  else Some (h, s));
               let collisions = ipc_splay_tree_delete collisions tname;
               let s = s\<lparr>is_tree_total := is_tree_total s - 1\<rparr>;
               let s =
                 (case ipc_splay_tree_pick collisions of
                    None \<Rightarrow> s
                  | Some _ \<Rightarrow>
                      s\<lparr>is_table := (is_table s)[index := (is_table s ! index)
                           \<lparr>ie_bits := ie_bits (is_table s ! index) OR IE_BITS_COLLISION\<rparr>],
                        is_tree := fst (ipc_splay_tree_join (is_tree s) collisions)\<rparr>);
               Some (h, s\<lparr>is_tree := fst (ipc_splay_tree_join (is_tree s) small)\<rparr>)
             })"

definition ipc_entry_dealloc ::
    "nat list \<Rightarrow> ptr \<Rightarrow> ipc_hash \<Rightarrow> ipc_space \<Rightarrow> mach_port_t \<Rightarrow> ipc_entry_ptr \<Rightarrow> hspace option" where
  "ipc_entry_dealloc its sp h s name entry =
     (let index = MACH_PORT_INDEX name;
          table = is_table s;
          sz = is_table_size s
      in if index < sz \<and> entry = TableEntry index then
           if ie_bits (table ! index) AND IE_BITS_COLLISION \<noteq> 0
           then ipc_entry_dealloc_move sp h s index
           else
             let table = table[index := (table ! index)
                   \<lparr>ie_bits := ie_bits (table ! index) AND IE_BITS_GEN_MASK,
                    ie_request := ie_request (table ! 0)\<rparr>];
                 table = table[0 := (table ! 0)\<lparr>ie_request := index\<rparr>]
             in Some (h, s\<lparr>is_table := table\<rparr>)
         else
           let s = s\<lparr>is_tree := ipc_splay_tree_delete (is_tree s) name,
                     is_tree_total := is_tree_total s - 1\<rparr>
           in if index < sz then
                let (collision, s) = ipc_entry_tree_collision s name
                in Some (h,
                     if collision then s
                     else s\<lparr>is_table := (is_table s)[index := (is_table s ! index)
                              \<lparr>ie_bits := ie_bits (is_table s ! index) AND NOT IE_BITS_COLLISION\<rparr>]\<rparr>)
              else if index < its ! is_table_next s then
                let (collision, s) = ipc_entry_tree_collision s name
                in Some (h, if collision then s else s\<lparr>is_tree_small := is_tree_small s - 1\<rparr>)
              else Some (h, s))"

section \<open>Growing the table\<close>

definition zero_entry :: ipc_entry where
  "zero_entry = \<lparr>ie_bits = 0, ie_object = 0, ie_request = 0, ie_index = 0\<rparr>"

text \<open>The old part with its index fields cleared, the new part zeroed.\<close>

definition grow_copy :: "ipc_entry list \<Rightarrow> nat \<Rightarrow> nat \<Rightarrow> ipc_entry list" where
  "grow_copy table osize sz =
     map (\<lambda>e. e\<lparr>ie_index := 0\<rparr>) (take osize table) @ replicate (sz - osize) zero_entry"

text \<open>Put the old entries \<open>i\<close>, \<open>i + 1\<close>, \dots{} into the reverse hash table.\<close>

fun grow_rehash :: "nat list \<Rightarrow> ipc_space \<Rightarrow> ipc_space option" where
  "grow_rehash [] s = Some s"
| "grow_rehash (i # is) s =
     (let entry = is_table s ! i
      in if IE_BITS_TYPE (ie_bits entry) = MACH_PORT_TYPE_SEND
         then ipc_hash_local_insert s (ie_object entry) i \<bind> grow_rehash is
         else grow_rehash is s)"

text \<open>
  The body of the loop that moves tree entries into the table.  It tells whether the
  entry is to be deleted from the tree.
\<close>

definition grow_move :: "ptr \<Rightarrow> ipc_tree_entry \<Rightarrow> hspace option \<Rightarrow> bool \<times> hspace option" where
  "grow_move sp tentry hs =
     (case hs of
        None \<Rightarrow> (False, None)
      | Some (h, s) \<Rightarrow>
          let name = ite_name tentry;
              gen = MACH_PORT_GEN name;
              index = MACH_PORT_INDEX name;
              entry = is_table s ! index;
              bits = ie_bits entry
          in if bits \<noteq> 0 then
               (False, Some (h, s\<lparr>is_table := (is_table s)[index := entry\<lparr>ie_bits := bits OR IE_BITS_COLLISION\<rparr>]\<rparr>))
             else
               let bits = ie_bits (ite_entry tentry);
                   obj = ie_object (ite_entry tentry);
                   s = s\<lparr>is_table := (is_table s)[index := entry
                     \<lparr>ie_bits := bits OR gen, ie_object := obj, ie_request := ie_request (ite_entry tentry)\<rparr>]\<rparr>;
                   hs =
                     (if IE_BITS_TYPE bits = MACH_PORT_TYPE_SEND then
                        let (h, s) = ipc_hash_global_delete h sp s obj name
                        in map_option (Pair h) (ipc_hash_local_insert s obj index)
                      else Some (h, s))
               in (True, map_option (\<lambda>(h, s). (h, s\<lparr>is_tree_total := is_tree_total s - 1\<rparr>)) hs))"

text \<open>The body of the loop that counts the small entries.\<close>

definition grow_count :: "ipc_tree_entry \<Rightarrow> nat \<times> nat \<Rightarrow> bool \<times> nat \<times> nat" where
  "grow_count tentry c =
     (let (nosmall, index) = c;
          nindex = MACH_PORT_INDEX (ite_name tentry)
      in (False, if nindex \<noteq> index then (nosmall + 1, nindex) else (nosmall, index)))"

text \<open>The work on the splay tree; the number of its entries is the fuel of the traversals.\<close>

definition grow_tree :: "ptr \<Rightarrow> nat \<Rightarrow> nat \<Rightarrow> nat \<Rightarrow> ipc_hash \<Rightarrow> ipc_space \<Rightarrow> hspace option" where
  "grow_tree sp osize sz nsize h s =
     (let fuel = is_tree_total s;
          (tree, small) = ipc_splay_tree_split (is_tree s) (MACH_PORT_MAKE nsize 0);
          (small, move) = ipc_splay_tree_split small (MACH_PORT_MAKE sz 0);
          (move, ignore) = ipc_splay_tree_split move (MACH_PORT_MAKE osize 0)
      in do {
        (mroot, hs) \<leftarrow> ipc_splay_traverse_loop fuel (grow_move sp) (ipc_splay_traverse_start move)
                         (Some (h, s\<lparr>is_tree := tree\<rparr>));
        (h, s) \<leftarrow> hs;
        let move = ipc_splay_traverse_finish move mroot;
        (sroot, nosmall, index) \<leftarrow>
          ipc_splay_traverse_loop fuel grow_count (ipc_splay_traverse_start small) (0, 0);
        let small = ipc_splay_traverse_finish small sroot;
        let tree = fst (ipc_splay_tree_join (is_tree s) small);
        let tree = fst (ipc_splay_tree_join tree move);
        let tree = fst (ipc_splay_tree_join tree ignore);
        Some (h, s\<lparr>is_tree_small := nosmall, is_tree := tree\<rparr>)
      })"

text \<open>
  Linking the unused new entries into the free list, from \<open>size - 1\<close> down to \<open>osize\<close>: the
  argument lists the indices in the order of the loop.
\<close>

fun grow_free :: "nat list \<Rightarrow> ipc_entry list \<Rightarrow> nat \<Rightarrow> ipc_entry list \<times> nat" where
  "grow_free [] table free_index = (table, free_index)"
| "grow_free (i # is) table free_index =
     (if ie_bits (table ! i) = 0
      then grow_free is (table[i := (table ! i)\<lparr>ie_bits := IE_BITS_GEN_MASK, ie_request := free_index\<rparr>]) i
      else grow_free is table free_index)"

text \<open>What happens to an active space once the new table is there.\<close>

definition grow_install ::
    "ptr \<Rightarrow> nat \<Rightarrow> nat \<Rightarrow> nat \<Rightarrow> nat \<Rightarrow> ipc_hash \<Rightarrow> ipc_space \<Rightarrow> hspace option" where
  "grow_install sp osize sz nsize nits h s =
     do {
       let s = s\<lparr>is_table := grow_copy (is_table s) osize sz, is_table_size := sz, is_table_next := nits\<rparr>;
       s \<leftarrow> grow_rehash [0..<osize] s;
       (h, s) \<leftarrow> (if is_tree_total s > 0 then grow_tree sp osize sz nsize h s else Some (h, s));
       let (table, free_index) = grow_free (rev [osize..<sz]) (is_table s) (ie_request (is_table s ! 0));
       Some (h, s\<lparr>is_table := table[0 := (table ! 0)\<lparr>ie_request := free_index\<rparr>]\<rparr>)
     }"

text \<open>The search for the first size that satisfies \<open>tsize\<close>; the results are the new \<open>psize\<close> and \<open>its\<close>.\<close>

fun grow_target :: "nat \<Rightarrow> nat list \<Rightarrow> nat \<Rightarrow> nat \<Rightarrow> nat \<Rightarrow> (nat \<times> nat) option" where
  "grow_target 0 its target psize i = None"
| "grow_target (Suc fuel) its target psize i =
     (if psize \<noteq> its ! i \<and> its ! i < target then grow_target fuel its target (its ! i) (i + 1)
      else Some (psize, i))"

text \<open>
  A round of the loop either ends the routine with a return code and the lock held or
  not, or goes on with the loop test, which needs \<open>size\<close> and \<open>nsize\<close>.
\<close>

datatype grow_round =
    GrowReturn kern_return bool
  | GrowAgain nat nat

definition ipc_entry_grow_round ::
    "nat list \<Rightarrow> ptr \<Rightarrow> nat option \<Rightarrow> ipc_hash \<Rightarrow> ipc_space \<Rightarrow> window list \<Rightarrow>
     (grow_round \<times> hspace \<times> window list) option" where
  "ipc_entry_grow_round its sp tsize h s ws =
     (if is_growing s then
        let ((_, env), ws) = next_window ws in Some (GrowReturn KERN_SUCCESS True, env (h, s), ws)
      else
        let oits = is_table_next s - 1;
            osize = its ! oits
        in do {
          (stop, i) \<leftarrow>
            (case tsize of
               None \<Rightarrow> Some (None, is_table_next s)
             | Some target \<Rightarrow>
                 if target \<le> osize then Some (Some KERN_SUCCESS, is_table_next s)
                 else
                   map_option (\<lambda>(psize, i). (if psize = its ! i then Some KERN_NO_SPACE else None, i))
                     (grow_target (length its) its target osize (is_table_next s)));
          (case stop of
             Some kr \<Rightarrow> Some (GrowReturn kr False, (h, s), ws)
           | None \<Rightarrow>
               let sz = its ! i;
                   nits = i + 1;
                   nsize = its ! nits
               in if osize = sz then Some (GrowReturn KERN_NO_SPACE False, (h, s), ws)
                  else
                    let ((ok, env), ws) = next_window ws;
                        (h, s) = env (h, s\<lparr>is_growing := True\<rparr>);
                        s = s\<lparr>is_growing := False\<rparr>
                    in if \<not> ok then Some (GrowReturn KERN_RESOURCE_SHORTAGE False, (h, s), ws)
                       else if \<not> is_active s then
                         let ((_, env), ws) = next_window ws
                         in Some (GrowReturn KERN_SUCCESS True, env (h, s), ws)
                       else do {
                         (h, s) \<leftarrow> grow_install sp osize sz nsize nits h s;
                         let ((_, env), ws) = next_window ws;
                         let (h, s) = env (h, s);
                         Some (if \<not> is_active s \<or> is_table_next s \<noteq> nits
                               then GrowReturn KERN_SUCCESS True else GrowAgain sz nsize, (h, s), ws)
                       })
        })"

text \<open>The loop test; each round moves \<open>is_table_next\<close> on, so the length of \<open>its\<close> is enough fuel.\<close>

fun ipc_entry_grow_loop ::
    "nat \<Rightarrow> nat list \<Rightarrow> ptr \<Rightarrow> nat option \<Rightarrow> ipc_hash \<Rightarrow> ipc_space \<Rightarrow> window list \<Rightarrow>
     (kern_return \<times> bool \<times> hspace \<times> window list) option" where
  "ipc_entry_grow_loop 0 its sp tsize h s ws = None"
| "ipc_entry_grow_loop (Suc fuel) its sp tsize h s ws =
     do {
       (r, (h, s), ws) \<leftarrow> ipc_entry_grow_round its sp tsize h s ws;
       (case r of
          GrowReturn kr locked \<Rightarrow> Some (kr, locked, (h, s), ws)
        | GrowAgain sz nsize \<Rightarrow>
            if 0 < is_tree_small s \<and>
               (nsize - sz) * sizeof_ipc_entry < is_tree_small s * sizeof_ipc_tree_entry
            then ipc_entry_grow_loop fuel its sp tsize h s ws
            else Some (KERN_SUCCESS, True, (h, s), ws))
     }"

definition ipc_entry_grow_table ::
    "nat list \<Rightarrow> ptr \<Rightarrow> nat option \<Rightarrow> ipc_hash \<Rightarrow> ipc_space \<Rightarrow> window list \<Rightarrow>
     (kern_return \<times> bool \<times> hspace \<times> window list) option" where
  "ipc_entry_grow_table its sp tsize h s ws =
     ipc_entry_grow_loop (length its) its sp tsize h s ws"

section \<open>Allocating entries\<close>

text \<open>The results are those of the call and the space, locked when the call succeeds.\<close>

fun ipc_entry_alloc ::
    "nat \<Rightarrow> nat list \<Rightarrow> ptr \<Rightarrow> ipc_hash \<Rightarrow> ipc_space \<Rightarrow> window list \<Rightarrow>
     ((kern_return + mach_port_t \<times> ipc_entry_ptr) \<times> hspace \<times> window list) option" where
  "ipc_entry_alloc 0 its sp h s ws = None"
| "ipc_entry_alloc (Suc fuel) its sp h s ws =
     (if \<not> is_active s then Some (Inl KERN_INVALID_TASK, (h, s), ws)
      else
        case ipc_entry_get s of
          Inr (name, entry, s) \<Rightarrow> Some (Inr (name, entry), (h, s), ws)
        | Inl _ \<Rightarrow>
            do {
              (kr, locked, (h, s), ws) \<leftarrow> ipc_entry_grow_table its sp None h s ws;
              (if kr \<noteq> KERN_SUCCESS then Some (Inl kr, (h, s), ws)
               else ipc_entry_alloc fuel its sp h s ws)
            })"

text \<open>The search of the free list for the predecessor of \<open>index\<close>.\<close>

fun free_list_pred :: "nat \<Rightarrow> ipc_entry list \<Rightarrow> nat \<Rightarrow> nat \<Rightarrow> nat option" where
  "free_list_pred 0 table index free_index = None"
| "free_list_pred (Suc fuel) table index free_index =
     (let next_index = ie_request (table ! free_index)
      in if next_index \<noteq> index then free_list_pred fuel table index next_index else Some free_index)"

text \<open>The third case under the table cutoff: rip the entry out of the free list.\<close>

definition alloc_name_free :: "ipc_space \<Rightarrow> nat \<Rightarrow> u32 \<Rightarrow> ipc_space option" where
  "alloc_name_free s index gen =
     do {
       let table = is_table s;
       free_index \<leftarrow> free_list_pred (length table) table index 0;
       let table = table[free_index := (table ! free_index)\<lparr>ie_request := ie_request (table ! index)\<rparr>];
       let table = table[index := (table ! index)\<lparr>ie_bits := gen, ie_request := 0\<rparr>];
       Some (s\<lparr>is_table := table\<rparr>)
     }"

text \<open>Inserting a new tree entry.\<close>

definition alloc_name_tree :: "nat list \<Rightarrow> ptr \<Rightarrow> ipc_space \<Rightarrow> mach_port_t \<Rightarrow> ipc_space" where
  "alloc_name_tree its sp s name =
     (let index = MACH_PORT_INDEX name;
          s = s\<lparr>is_tree_total := is_tree_total s + 1\<rparr>;
          s =
            (if index < is_table_size s then
               s\<lparr>is_table := (is_table s)[index := (is_table s ! index)
                    \<lparr>ie_bits := ie_bits (is_table s ! index) OR IE_BITS_COLLISION\<rparr>]\<rparr>
             else if index < its ! is_table_next s then
               let (collision, s) = ipc_entry_tree_collision s name
               in if collision then s else s\<lparr>is_tree_small := is_tree_small s + 1\<rparr>
             else s)
      in s\<lparr>is_tree := ipc_splay_tree_insert (is_tree s) name
             \<lparr>ite_entry = zero_entry, ite_name = name, ite_space = sp\<rparr>\<rparr>)"

text \<open>Should the table be grown for \<open>index\<close>, as cheaper than another tree entry?\<close>

definition alloc_name_grow :: "nat list \<Rightarrow> ipc_space \<Rightarrow> nat \<Rightarrow> bool" where
  "alloc_name_grow its s index \<longleftrightarrow>
     is_table_size s \<le> index \<and> index < its ! is_table_next s \<and>
     (its ! is_table_next s - is_table_size s) * sizeof_ipc_entry < (is_tree_small s + 1) * sizeof_ipc_tree_entry"

text \<open>\<open>tree_entry\<close>: a tree entry has been allocated in an earlier round.\<close>

fun ipc_entry_alloc_name ::
    "nat \<Rightarrow> nat list \<Rightarrow> ptr \<Rightarrow> bool \<Rightarrow> ipc_hash \<Rightarrow> ipc_space \<Rightarrow> mach_port_t \<Rightarrow> window list \<Rightarrow>
     ((kern_return + ipc_entry_ptr) \<times> hspace \<times> window list) option" where
  "ipc_entry_alloc_name 0 its sp tree_entry h s name ws = None"
| "ipc_entry_alloc_name (Suc fuel) its sp tree_entry h s name ws =
     (let index = MACH_PORT_INDEX name;
          gen = MACH_PORT_GEN name;
          bits = ie_bits (is_table s ! index);
          low = (0 < index \<and> index < is_table_size s)
      in if \<not> is_active s then Some (Inl KERN_INVALID_TASK, (h, s), ws)
         else if low \<and> IE_BITS_TYPE bits \<noteq> 0 \<and> IE_BITS_GEN bits = gen then
           Some (Inr (TableEntry index), (h, s), ws)
         else if low \<and> IE_BITS_TYPE bits = 0 then
           map_option (\<lambda>s. (Inr (TableEntry index), (h, s), ws)) (alloc_name_free s index gen)
         else
           let (found, s) = (if is_tree_total s > 0 then ipc_entry_tree_lookup s name else (None, s))
           in case found of
                Some e \<Rightarrow> Some (Inr e, (h, s), ws)
              | None \<Rightarrow>
                  if alloc_name_grow its s index then
                    do {
                      (kr, locked, (h, s), ws) \<leftarrow> ipc_entry_grow_table its sp None h s ws;
                      (if kr \<noteq> KERN_SUCCESS then Some (Inl kr, (h, s), ws)
                       else ipc_entry_alloc_name fuel its sp tree_entry h s name ws)
                    }
                  else if tree_entry then
                    Some (Inr (TreeEntry name), (h, alloc_name_tree its sp s name), ws)
                  else
                    let ((ok, env), ws) = next_window ws;
                        (h, s) = env (h, s)
                    in if \<not> ok then Some (Inl KERN_RESOURCE_SHORTAGE, (h, s), ws)
                       else ipc_entry_alloc_name fuel its sp True h s name ws)"

end
