(* ===== verification/Ipc_Names.thy ===== *)
theory Ipc_Names
  imports Ipc_Entry
begin

text \<open>
  The entries of a space as a map from names: the invariant that the routines of
  \<^verbatim>\<open>src/ipc/ipc_entry.c\<close> maintain between the table, its free list and the splay tree, and
  the proof that looking up, allocating and deallocating entries and growing the table
  implement the corresponding operations on the map.
\<close>

section \<open>Bit fields\<close>

lemma bit_PORT_GEN [mask_bits]: "bit (MACH_PORT_GEN name) n \<longleftrightarrow> 24 \<le> n \<and> n < 32 \<and> bit name (n - 24)"
proof -
  have m: "(255::u32) = mask 8" by (simp add: mask_eq_decr_exp)
  show ?thesis unfolding MACH_PORT_GEN_def m by (auto simp: bit_simps)
qed

lemma COLLISION_iff: "b AND IE_BITS_COLLISION \<noteq> 0 \<longleftrightarrow> bit b 23"
proof -
  have "b AND IE_BITS_COLLISION = (if bit b 23 then IE_BITS_COLLISION else 0)"
    by (rule bit_word_eqI) (auto simp: bit_simps mask_bits)
  moreover have "IE_BITS_COLLISION \<noteq> 0" by (simp add: IE_BITS_COLLISION_def)
  ultimately show ?thesis by auto
qed

lemma fields_or_COLLISION [ie_fields]:
  "IE_BITS_GEN (b OR IE_BITS_COLLISION) = IE_BITS_GEN b"
  "(b OR IE_BITS_COLLISION) AND IE_BITS_RIGHT_MASK = b AND IE_BITS_RIGHT_MASK"
  "bit (b OR IE_BITS_COLLISION) 23"
  by (auto intro!: bit_word_eqI simp: field_defs bit_simps mask_bits)

lemma fields_not_COLLISION [ie_fields]:
  "IE_BITS_TYPE (b AND NOT IE_BITS_COLLISION) = IE_BITS_TYPE b"
  "IE_BITS_GEN (b AND NOT IE_BITS_COLLISION) = IE_BITS_GEN b"
  "(b AND NOT IE_BITS_COLLISION) AND IE_BITS_RIGHT_MASK = b AND IE_BITS_RIGHT_MASK"
  "\<not> bit (b AND NOT IE_BITS_COLLISION) 23"
  by (auto intro!: bit_word_eqI simp: field_defs bit_simps mask_bits)

lemma fields_GEN_MASK [ie_fields]:
  "IE_BITS_TYPE (b AND IE_BITS_GEN_MASK) = 0" "IE_BITS_GEN (b AND IE_BITS_GEN_MASK) = IE_BITS_GEN b"
  "(b AND IE_BITS_GEN_MASK) AND IE_BITS_RIGHT_MASK = 0" "\<not> bit (b AND IE_BITS_GEN_MASK) 23"
  "IE_BITS_TYPE IE_BITS_GEN_MASK = 0" "IE_BITS_GEN IE_BITS_GEN_MASK = IE_BITS_GEN_MASK"
  "\<not> bit IE_BITS_GEN_MASK 23" "IE_BITS_GEN_MASK AND IE_BITS_RIGHT_MASK = 0"
  by (auto intro!: bit_word_eqI simp: field_defs bit_simps mask_bits)

lemma fields_PORT_GEN [ie_fields]:
  "IE_BITS_TYPE (MACH_PORT_GEN n) = 0" "IE_BITS_GEN (MACH_PORT_GEN n) = MACH_PORT_GEN n"
  "MACH_PORT_GEN n AND IE_BITS_RIGHT_MASK = 0" "\<not> bit (MACH_PORT_GEN n) 23"
  by (auto intro!: bit_word_eqI simp: field_defs bit_simps mask_bits)

lemma fields_with_gen [ie_fields]:
  assumes "b AND IE_BITS_RIGHT_MASK = b"
  shows "IE_BITS_TYPE (b OR MACH_PORT_GEN n) = IE_BITS_TYPE b" "IE_BITS_GEN (b OR MACH_PORT_GEN n) = MACH_PORT_GEN n"
    "(b OR MACH_PORT_GEN n) AND IE_BITS_RIGHT_MASK = b" "\<not> bit (b OR MACH_PORT_GEN n) 23"
proof -
  have b: "23 \<le> k \<Longrightarrow> \<not> bit b k" for k
    using arg_cong [OF assms, of "\<lambda>w. bit w k"] by (simp add: bit_simps mask_bits)
  show "IE_BITS_TYPE (b OR MACH_PORT_GEN n) = IE_BITS_TYPE b" "IE_BITS_GEN (b OR MACH_PORT_GEN n) = MACH_PORT_GEN n"
    "\<not> bit (b OR MACH_PORT_GEN n) 23"
    by (auto intro!: bit_word_eqI simp: field_defs bit_simps mask_bits b)
  show "(b OR MACH_PORT_GEN n) AND IE_BITS_RIGHT_MASK = b"
    by (simp add: bit.conj_disj_distrib2 assms fields_PORT_GEN)
qed

lemma TYPE_RIGHT_MASK [ie_fields]: "IE_BITS_TYPE (b AND IE_BITS_RIGHT_MASK) = IE_BITS_TYPE b"
  by (rule bit_word_eqI) (auto simp: field_defs bit_simps mask_bits)

text \<open>The bits of a free entry are a generation; the next generation is again one.\<close>

definition gen_only :: "u32 \<Rightarrow> bool" where
  "gen_only b \<longleftrightarrow> b AND IE_BITS_GEN_MASK = b"

lemma gen_onlyD:
  assumes "gen_only b"
  shows "IE_BITS_TYPE b = 0" "IE_BITS_GEN b = b" "b AND IE_BITS_RIGHT_MASK = 0" "\<not> bit b 23"
  using assms fields_GEN_MASK(1-4) [of b] by (simp_all add: gen_only_def IE_BITS_GEN_def)

lemma gen_only_iff: "gen_only b \<longleftrightarrow> take_bit 24 b = 0"
proof -
  have "gen_only b \<longleftrightarrow> (\<forall>n<32. bit b n \<longrightarrow> 24 \<le> n)"
    unfolding gen_only_def by (auto simp: bit_eq_iff bit_simps mask_bits dest: bit_imp_le_length)
  also have "\<dots> \<longleftrightarrow> take_bit 24 b = 0"
    by (auto simp: bit_eq_iff bit_simps not_le dest: bit_imp_le_length)
  finally show ?thesis .
qed

lemma gen_only_unat: "gen_only b \<longleftrightarrow> unat b mod 2 ^ 24 = 0"
proof -
  have "unat (take_bit 24 b) = unat b mod 2 ^ 24" unfolding unsigned_take_bit_eq by (rule take_bit_eq_mod)
  then show ?thesis by (metis gen_only_iff unsigned_eq_0_iff)
qed

lemma gen_only_next: "gen_only b \<Longrightarrow> gen_only (b + IE_BITS_GEN_ONE)"
proof -
  assume b: "gen_only b"
  have "unat (b + IE_BITS_GEN_ONE) mod 2 ^ 24 = (unat b + 2 ^ 24) mod 2 ^ 32 mod 2 ^ 24"
    by (simp add: unat_word_ariths IE_BITS_GEN_ONE_def)
  also have "\<dots> = 0" using b by (simp add: gen_only_unat mod_mod_cancel)
  finally show ?thesis by (simp add: gen_only_unat)
qed

lemma gen_only_PORT_GEN [simp]: "gen_only (MACH_PORT_GEN n)"
  using fields_PORT_GEN(2) by (simp add: gen_only_def IE_BITS_GEN_def)

lemma gen_only_GEN [simp]: "gen_only (b AND IE_BITS_GEN_MASK)" "gen_only IE_BITS_GEN_MASK"
  by (simp_all add: gen_only_def ac_simps)

section \<open>The invariant\<close>

text \<open>
  \<open>P\<close> are the names whose entries have been allocated but have no type yet.  The list \<open>fl\<close> of
  free entries is chained through \<open>ie_next\<close>, starting at the entry 0.
\<close>

definition used :: "ipc_entry list \<Rightarrow> mach_port_t set \<Rightarrow> nat \<Rightarrow> bool" where
  "used T P i \<longleftrightarrow>
     0 < i \<and> i < length T \<and>
     (IE_BITS_TYPE (ie_bits (T ! i)) \<noteq> 0 \<or> MACH_PORT_MAKEB i (ie_bits (T ! i)) \<in> P)"

lemma usedD: "used T P i \<Longrightarrow> 0 < i \<and> i < length T"
  by (simp add: used_def)

fun free_chain :: "ipc_entry list \<Rightarrow> nat \<Rightarrow> nat list \<Rightarrow> bool" where
  "free_chain T i [] \<longleftrightarrow> ie_request (T ! i) = 0"
| "free_chain T i (j # js) \<longleftrightarrow> ie_request (T ! i) = j \<and> free_chain T j js"

definition free_ok :: "ipc_entry list \<Rightarrow> mach_port_t set \<Rightarrow> nat list \<Rightarrow> bool" where
  "free_ok T P fl \<longleftrightarrow>
     free_chain T 0 fl \<and> distinct fl \<and> set fl = {i. 0 < i \<and> i < length T \<and> \<not> used T P i} \<and>
     (\<forall>i\<in>set fl. gen_only (ie_bits (T ! i)) \<and> ie_object (T ! i) = 0)"

text \<open>
  How table and tree fit together: \<open>xs\<close> are the entries of the tree.  The collision bit tells
  whether the tree has an entry with that index; a tree entry with the index of a table
  entry needs that entry to be in use for another name.  A tree entry has only the bits
  of a right, a valid name, and a type unless it is one of \<open>P\<close>.
\<close>

definition tree_ok :: "ipc_entry list \<Rightarrow> mach_port_t set \<Rightarrow> ipc_tree_entry list \<Rightarrow> bool" where
  "tree_ok T P xs \<longleftrightarrow>
     (\<forall>i<length T. bit (ie_bits (T ! i)) 23 \<longleftrightarrow> i \<in> MACH_PORT_INDEX ` ite_name ` set xs) \<and>
     (\<forall>y\<in>set xs. 0 < MACH_PORT_INDEX (ite_name y) \<longrightarrow> MACH_PORT_INDEX (ite_name y) < length T \<longrightarrow>
        used T P (MACH_PORT_INDEX (ite_name y)) \<and>
        IE_BITS_GEN (ie_bits (T ! MACH_PORT_INDEX (ite_name y))) \<noteq> MACH_PORT_GEN (ite_name y)) \<and>
     (\<forall>y\<in>set xs. ie_bits (ite_entry y) AND IE_BITS_RIGHT_MASK = ie_bits (ite_entry y) \<and> MACH_PORT_VALID (ite_name y) \<and>
        (IE_BITS_TYPE (ie_bits (ite_entry y)) \<noteq> 0 \<or> ite_name y \<in> P))"

text \<open>Indices of tree entries that a table of the next size would hold; \<open>is_tree_small\<close> counts them.\<close>

definition small_indices :: "nat \<Rightarrow> nat \<Rightarrow> ipc_tree_entry list \<Rightarrow> nat set" where
  "small_indices sz nsize xs = {i \<in> MACH_PORT_INDEX ` ite_name ` set xs. sz \<le> i \<and> i < nsize}"

definition in_table :: "ipc_entry list \<Rightarrow> mach_port_t set \<Rightarrow> mach_port_t \<Rightarrow> bool" where
  "in_table T P name \<longleftrightarrow>
     used T P (MACH_PORT_INDEX name) \<and> IE_BITS_GEN (ie_bits (T ! MACH_PORT_INDEX name)) = MACH_PORT_GEN name"

definition names_inv :: "nat list \<Rightarrow> mach_port_t set \<Rightarrow> ipc_space \<Rightarrow> bool" where
  "names_inv its P s \<longleftrightarrow>
     is_table_size s = length (is_table s) \<and> 0 < length (is_table s) \<and> length (is_table s) < 2 ^ 24 - 1 \<and>
     (\<forall>n\<in>P. in_table (is_table s) P n \<or> n \<in> ite_name ` set (ist_inorder (is_tree s))) \<and>
     IE_BITS_TYPE (ie_bits (is_table s ! 0)) = 0 \<and> IE_BITS_GEN (ie_bits (is_table s ! 0)) = IE_BITS_GEN_MASK \<and>
     (\<exists>fl. free_ok (is_table s) P fl) \<and>
     ist_inv (is_tree s) \<and> tree_ok (is_table s) P (ist_inorder (is_tree s)) \<and>
     is_tree_total s = length (ist_inorder (is_tree s)) \<and>
     is_tree_small s = card (small_indices (length (is_table s)) (its ! is_table_next s) (ist_inorder (is_tree s)))"

text \<open>What the entry of a name holds, without the bits that belong to the table.\<close>

definition content :: "ipc_entry \<Rightarrow> u32 \<times> ptr \<times> nat" where
  "content e = (ie_bits e AND IE_BITS_RIGHT_MASK, ie_object e, ie_request e)"

definition name_map :: "mach_port_t set \<Rightarrow> ipc_space \<Rightarrow> mach_port_t \<Rightarrow> (u32 \<times> ptr \<times> nat) option" where
  "name_map P s name =
     (if in_table (is_table s) P name then Some (content (is_table s ! MACH_PORT_INDEX name))
      else map_option (content \<circ> ite_entry) (tree_find (is_tree s) name))"

text \<open>The pointer to the entry of a name.\<close>

definition name_ptr :: "mach_port_t set \<Rightarrow> ipc_space \<Rightarrow> mach_port_t \<Rightarrow> ipc_entry_ptr option" where
  "name_ptr P s name =
     (if in_table (is_table s) P name then Some (TableEntry (MACH_PORT_INDEX name))
      else map_option (\<lambda>_. TreeEntry name) (tree_find (is_tree s) name))"

lemma in_table_iff:
  "in_table T P name \<longleftrightarrow>
     0 < MACH_PORT_INDEX name \<and> MACH_PORT_INDEX name < length T \<and>
     IE_BITS_GEN (ie_bits (T ! MACH_PORT_INDEX name)) = MACH_PORT_GEN name \<and>
     (IE_BITS_TYPE (ie_bits (T ! MACH_PORT_INDEX name)) \<noteq> 0 \<or> name \<in> P)"
  using MAKE_INDEX_GEN [of name] by (auto simp: in_table_def used_def MACH_PORT_MAKEB_def)

lemma tree_find_inorder: "ist_inorder t' = ist_inorder t \<Longrightarrow> tree_find t' = tree_find t"
  by (simp add: tree_find_def fun_eq_iff)

lemma tree_find_set:
  "tree_find t n = Some y \<Longrightarrow> y \<in> set (ist_inorder t) \<and> ite_name y = n"
  "tree_find t n = None \<longleftrightarrow> n \<notin> ite_name ` set (ist_inorder t)"
  by (auto simp: tree_find_def find_Some_iff find_None_iff)

lemma tree_find_iff:
  assumes "ist_inv t"
  shows "tree_find t n = Some y \<longleftrightarrow> y \<in> set (ist_inorder t) \<and> ite_name y = n"
proof
  assume y: "y \<in> set (ist_inorder t) \<and> ite_name y = n"
  then obtain z where "tree_find t n = Some z" using tree_find_set(2) by (metis image_eqI not_None_eq)
  then show "tree_find t n = Some y" using y tree_find_set(1) splay.key_inj [OF assms] by metis
qed (use tree_find_set(1) in blast)

lemma entry_at_ptr:
  assumes "names_inv its P s" "name_ptr P s name = Some e"
  obtains x where "entry_at s e = Some x" "name_map P s name = Some (content x)"
  using assms(2) by (auto simp: name_ptr_def name_map_def in_table_def used_def split: if_splits)

lemma name_ptr_None: "name_ptr P s name = None \<longleftrightarrow> name_map P s name = None"
  by (simp add: name_ptr_def name_map_def)

text \<open>Projections of the invariant.\<close>

lemma names_invD:
  assumes "names_inv its P s"
  shows "is_table_size s = length (is_table s)" "0 < length (is_table s)" "length (is_table s) < 2 ^ 24 - 1"
    "\<And>n. n \<in> P \<Longrightarrow> in_table (is_table s) P n \<or> n \<in> ite_name ` set (ist_inorder (is_tree s))" "IE_BITS_TYPE (ie_bits (is_table s ! 0)) = 0"
    "IE_BITS_GEN (ie_bits (is_table s ! 0)) = IE_BITS_GEN_MASK"
    "ist_inv (is_tree s)" "tree_ok (is_table s) P (ist_inorder (is_tree s))"
    "is_tree_total s = length (ist_inorder (is_tree s))"
    "is_tree_small s = card (small_indices (length (is_table s)) (its ! is_table_next s) (ist_inorder (is_tree s)))"
  using assms unfolding names_inv_def by blast+

lemma names_inv_free:
  assumes "names_inv its P s"
  obtains fl where "free_chain (is_table s) 0 fl" "distinct fl"
    "set fl = {i. 0 < i \<and> i < length (is_table s) \<and> \<not> used (is_table s) P i}"
    "\<And>i. i \<in> set fl \<Longrightarrow> gen_only (ie_bits (is_table s ! i)) \<and> ie_object (is_table s ! i) = 0"
  using assms unfolding names_inv_def free_ok_def by blast

lemma tree_okD:
  assumes "tree_ok T P xs"
  shows "i < length T \<Longrightarrow> bit (ie_bits (T ! i)) 23 \<longleftrightarrow> (\<exists>y\<in>set xs. MACH_PORT_INDEX (ite_name y) = i)"
    "y \<in> set xs \<Longrightarrow> 0 < MACH_PORT_INDEX (ite_name y) \<Longrightarrow> MACH_PORT_INDEX (ite_name y) < length T \<Longrightarrow>
       used T P (MACH_PORT_INDEX (ite_name y)) \<and>
       IE_BITS_GEN (ie_bits (T ! MACH_PORT_INDEX (ite_name y))) \<noteq> MACH_PORT_GEN (ite_name y)"
    "y \<in> set xs \<Longrightarrow> ie_bits (ite_entry y) AND IE_BITS_RIGHT_MASK = ie_bits (ite_entry y)"
    "y \<in> set xs \<Longrightarrow> MACH_PORT_VALID (ite_name y)"
    "y \<in> set xs \<Longrightarrow> IE_BITS_TYPE (ie_bits (ite_entry y)) \<noteq> 0 \<or> ite_name y \<in> P"
  using assms unfolding tree_ok_def by auto

lemma tree_ok_cong:
  assumes "tree_ok T P xs" "length T' = length T" "\<And>k. k < length T \<Longrightarrow> bit (ie_bits (T' ! k)) 23 = bit (ie_bits (T ! k)) 23"
    "\<And>k. used T P k \<Longrightarrow> used T' P' k \<and> IE_BITS_GEN (ie_bits (T' ! k)) = IE_BITS_GEN (ie_bits (T ! k))"
    "P \<subseteq> P'"
  shows "tree_ok T' P' xs"
  using assms(1) unfolding tree_ok_def assms(2)
  by (elim conjE, intro conjI ballI allI impI) (use assms(3-5) in \<open>simp, metis, metis, simp, simp, blast\<close>)

lemma names_inv_tree:
  assumes "names_inv its P s" "ist_inorder t' = ist_inorder (is_tree s)" "ist_inv t'"
  shows "names_inv its P (s\<lparr>is_tree := t'\<rparr>)" "name_map P (s\<lparr>is_tree := t'\<rparr>) = name_map P s"
    "name_ptr P (s\<lparr>is_tree := t'\<rparr>) = name_ptr P s"
  using assms tree_find_inorder [OF assms(2)]
  by (simp_all add: names_inv_def name_map_def name_ptr_def fun_eq_iff)

section \<open>Looking up\<close>

text \<open>The name at which looking up goes wrong: index 0 with the generation of the entry 0.\<close>

definition bad_name :: "mach_port_t \<Rightarrow> bool" where
  "bad_name name \<longleftrightarrow> MACH_PORT_INDEX name = 0 \<and> MACH_PORT_GEN name = IE_BITS_GEN_MASK"

lemma tree_lookup_eq:
  assumes "names_inv its P s"
  obtains t' where "ipc_entry_tree_lookup s name =
      (map_option (\<lambda>_. TreeEntry name) (tree_find (is_tree s) name), s\<lparr>is_tree := t'\<rparr>)"
    "ist_inorder t' = ist_inorder (is_tree s)" "ist_inv t'"
proof -
  obtain r t' where l: "ipc_splay_tree_lookup (is_tree s) name = (r, t')" by fastforce
  note c = ipc_splay_tree_lookup_correct [OF names_invD(7) [OF assms] l]
  show ?thesis
    by (rule that [of t']) (use c l in \<open>simp_all add: ipc_entry_tree_lookup_def tree_find_def\<close>)
qed

lemma entry_lookup_correct:
  assumes inv: "names_inv its P s" and "\<not> bad_name name" "name \<notin> P"
  obtains t' where "ipc_entry_lookup s name = (name_ptr P s name, s\<lparr>is_tree := t'\<rparr>)"
    "ist_inorder t' = ist_inorder (is_tree s)" "ist_inv t'"
proof -
  note that0 = that
  note d = names_invD [OF inv]
  define i where "i = MACH_PORT_INDEX name"
  obtain t' where t': "ipc_entry_tree_lookup s name =
      (map_option (\<lambda>_. TreeEntry name) (tree_find (is_tree s) name), s\<lparr>is_tree := t'\<rparr>)"
    "ist_inorder t' = ist_inorder (is_tree s)" "ist_inv t'"
    by (rule tree_lookup_eq [OF inv])
  have tree: thesis if "ipc_entry_lookup s name = (name_ptr P s name, if b then s\<lparr>is_tree := t'\<rparr> else s)" for b
    by (cases b; rule that0 [of "if b then t' else is_tree s"]) (use that t' d(7) in simp_all)
  have no_tree: "tree_find (is_tree s) name = None"
    if "\<And>y. y \<in> set (ist_inorder (is_tree s)) \<Longrightarrow> ite_name y \<noteq> name"
    using that by (auto simp: tree_find_set(2))
  show ?thesis
  proof (cases "i < length (is_table s)")
    case True
    let ?bits = "ie_bits (is_table s ! i)"
    show ?thesis
    proof (cases "IE_BITS_GEN ?bits = MACH_PORT_GEN name")
      case gen: True
      have "i \<noteq> 0" using assms(2) gen d(6) by (metis bad_name_def i_def)
      then have none: "tree_find (is_tree s) name = None"
        using gen True tree_okD(2) [OF d(8)] by (intro no_tree) (auto simp: i_def)
      have "in_table (is_table s) P name \<longleftrightarrow> IE_BITS_TYPE ?bits \<noteq> 0"
        using assms(3) True gen \<open>i \<noteq> 0\<close> by (auto simp: in_table_iff i_def)
      then show ?thesis
        using True gen none d(1,7)
        by (intro that [of "is_tree s"])
          (auto simp: ipc_entry_lookup_def Let_def name_ptr_def i_def MACH_PORT_TYPE_NONE_def)
    next
      case gen: False
      then have "\<not> in_table (is_table s) P name" by (simp add: in_table_def i_def)
      moreover have "tree_find (is_tree s) name = None" if "\<not> bit ?bits 23"
        using that tree_okD(1) [OF d(8) True] by (intro no_tree) (auto simp: i_def)
      ultimately have "ipc_entry_lookup s name = (name_ptr P s name, if bit ?bits 23 then s\<lparr>is_tree := t'\<rparr> else s)"
        using True gen t'(1) d(1) by (simp add: ipc_entry_lookup_def Let_def name_ptr_def i_def COLLISION_iff [unfolded not_not])
      then show ?thesis by (rule tree)
    qed
  next
    case False
    then have "\<not> in_table (is_table s) P name" by (simp add: in_table_def used_def i_def)
    moreover have "tree_find (is_tree s) name = None" if "is_tree_total s = 0"
      using that d(9) by (intro no_tree) auto
    ultimately have "ipc_entry_lookup s name = (name_ptr P s name, if is_tree_total s \<noteq> 0 then s\<lparr>is_tree := t'\<rparr> else s)"
      using False t'(1) d(1) by (simp add: ipc_entry_lookup_def Let_def name_ptr_def i_def)
    then show ?thesis by (rule tree)
  qed
qed

section \<open>Changing one table entry\<close>

lemma free_chain_move:
  assumes "free_chain T i fl" "ie_request (T' ! i') = ie_request (T ! i)" "\<And>k. k \<in> set fl \<Longrightarrow> ie_request (T' ! k) = ie_request (T ! k)"
  shows "free_chain T' i' fl"
  using assms by (induction fl arbitrary: i i') auto

lemma names_in_table:
  assumes "names_inv its P s" "y \<in> set (ist_inorder (is_tree s))"
  shows "\<not> in_table (is_table s) P (ite_name y)"
  using tree_okD(2) [OF names_invD(8) [OF assms(1)] assms(2)] by (auto simp: in_table_def used_def)

lemma name_map_tree:
  assumes "names_inv its P s" "y \<in> set (ist_inorder (is_tree s))"
  shows "name_map P s (ite_name y) = Some (content (ite_entry y))"
  using names_in_table [OF assms] tree_find_iff [OF names_invD(7) [OF assms(1)], of "ite_name y" y] assms(2)
  by (simp add: name_map_def)

lemma name_map_free:
  assumes "names_inv its P s" "0 < MACH_PORT_INDEX name" "MACH_PORT_INDEX name < length (is_table s)"
    "\<not> used (is_table s) P (MACH_PORT_INDEX name)"
  shows "name_map P s name = None"
proof -
  have "tree_find (is_tree s) name = None"
    using assms tree_okD(2) [OF names_invD(8) [OF assms(1)]] by (auto simp: tree_find_set(2))
  then show ?thesis using assms(4) by (simp add: name_map_def in_table_def)
qed

lemma name_map_cong:
  assumes "length (is_table s') = length (is_table s)" "tree_find (is_tree s') name = tree_find (is_tree s) name"
    "used (is_table s') P' (MACH_PORT_INDEX name) = used (is_table s) P (MACH_PORT_INDEX name)"
    "used (is_table s) P (MACH_PORT_INDEX name) \<Longrightarrow>
       IE_BITS_GEN (ie_bits (is_table s' ! MACH_PORT_INDEX name)) = IE_BITS_GEN (ie_bits (is_table s ! MACH_PORT_INDEX name)) \<and>
       content (is_table s' ! MACH_PORT_INDEX name) = content (is_table s ! MACH_PORT_INDEX name)"
  shows "name_map P' s' name = name_map P s name"
  using assms by (auto simp: name_map_def in_table_def)

section \<open>Taking a free entry\<close>

lemma entry_get_correct:
  assumes inv: "names_inv its P s"
  shows "case ipc_entry_get s of
      Inl kr \<Rightarrow> kr = KERN_NO_SPACE \<and> (\<forall>i. 0 < i \<longrightarrow> i < length (is_table s) \<longrightarrow> used (is_table s) P i)
    | Inr (name, e, s') \<Rightarrow>
        0 < MACH_PORT_INDEX name \<and> \<not> used (is_table s) P (MACH_PORT_INDEX name) \<and>
        e = TableEntry (MACH_PORT_INDEX name) \<and> MACH_PORT_VALID name \<and>
        name_map P s name = None \<and> names_inv its (insert name P) s' \<and>
        name_map (insert name P) s' = (name_map P s)(name \<mapsto> (0, 0, 0))"
proof -
  let ?T = "is_table s"
  note d = names_invD [OF inv]
  obtain fl where fl: "free_chain ?T 0 fl" "distinct fl" "set fl = {i. 0 < i \<and> i < length ?T \<and> \<not> used ?T P i}"
    "\<And>i. i \<in> set fl \<Longrightarrow> gen_only (ie_bits (?T ! i)) \<and> ie_object (?T ! i) = 0"
    by (rule names_inv_free [OF inv]) (rule that)
  show ?thesis
  proof (cases fl)
    case Nil
    then have "ie_request (?T ! 0) = 0" "\<forall>i. 0 < i \<longrightarrow> i < length ?T \<longrightarrow> used ?T P i" using fl(1,3) by auto
    then show ?thesis by (simp add: ipc_entry_get_def)
  next
    case (Cons j js)
    have j: "0 < j" "j < length ?T" "\<not> used ?T P j" "gen_only (ie_bits (?T ! j))" "ie_object (?T ! j) = 0"
      using fl(3,4) Cons by auto
    define gen where "gen = ie_bits (?T ! j) + IE_BITS_GEN_ONE"
    define T' where "T' = ?T[0 := (?T ! 0)\<lparr>ie_request := ie_request (?T ! j)\<rparr>, j := (?T ! j)\<lparr>ie_bits := gen, ie_request := 0\<rparr>]"
    define name where "name = MACH_PORT_MAKE j gen"
    have gen: "gen_only gen" using gen_only_next [OF j(4)] by (simp add: gen_def)
    have nth: "T' ! k = (if k = j then (?T ! j)\<lparr>ie_bits := gen, ie_request := 0\<rparr>
        else if k = 0 then (?T ! 0)\<lparr>ie_request := ie_request (?T ! j)\<rparr> else ?T ! k)" if "k < length ?T" for k
      using j(1,2) d(2) that by (cases "k = 0") (simp_all add: T'_def nth_list_update)
    have len [simp]: "length T' = length ?T" by (simp add: T'_def)
    have idx: "MACH_PORT_INDEX name = j" "MACH_PORT_GEN name = gen"
      using j(2) d(3) gen_onlyD(2) [OF gen] by (simp_all add: name_def INDEX_MAKE GEN_MAKE)
    have run: "ipc_entry_get s = Inr (name, TableEntry j, s\<lparr>is_table := T'\<rparr>)"
      using fl(1) Cons j(1) by (simp add: ipc_entry_get_def Let_def name_def gen_def T'_def)
    have makeb: "MACH_PORT_MAKEB j gen = name" using gen_onlyD(2) [OF gen] by (simp add: MACH_PORT_MAKEB_def name_def)
    have used: "used T' (insert name P) k \<longleftrightarrow> k = j \<or> used ?T P k" for k
    proof (cases "k = j")
      case False
      then have "MACH_PORT_MAKEB k b \<noteq> name" if "k < length ?T" for b
        using that idx(1) d(3) by (auto simp: MACH_PORT_MAKEB_def INDEX_MAKE)
      then show ?thesis using False nth [of k] by (auto simp: used_def)
    qed (use j nth [of j] makeb in \<open>simp add: used_def\<close>)
    have mem: "k \<noteq> 0 \<and> k < length ?T \<and> k \<noteq> j \<and> gen_only (ie_bits (?T ! k)) \<and> ie_object (?T ! k) = 0" if "k \<in> set js" for k
    proof -
      have "k \<in> set fl" "k \<noteq> j" using that Cons fl(2) by auto
      then show ?thesis using fl(4) [of k] unfolding fl(3) by simp
    qed
    have same: "T' ! k = ?T ! k" if "k \<in> set js" for k
      using mem [OF that] nth [of k] by auto
    have free: "free_ok T' (insert name P) js"
      unfolding free_ok_def
    proof (intro conjI)
      have "free_chain ?T j js" using fl(1) Cons by simp
      then show "free_chain T' 0 js"
        by (rule free_chain_move) (use same nth [of 0] j(1) d(2) in simp_all)
      show "distinct js" using fl(2) Cons by simp
      show "set js = {i. 0 < i \<and> i < length T' \<and> \<not> used T' (insert name P) i}"
        using fl(2,3) Cons by (auto simp: used)
      show "\<forall>i\<in>set js. gen_only (ie_bits (T' ! i)) \<and> ie_object (T' ! i) = 0"
        using mem same by simp
    qed
    have tree: "tree_ok T' (insert name P) (ist_inorder (is_tree s))"
    proof (rule tree_ok_cong [OF d(8)])
      show "bit (ie_bits (T' ! k)) 23 = bit (ie_bits (?T ! k)) 23" if "k < length ?T" for k
        using nth [OF that] gen_onlyD(4) [OF gen] gen_onlyD(4) [OF j(4)] by simp
      show "used T' (insert name P) k \<and> IE_BITS_GEN (ie_bits (T' ! k)) = IE_BITS_GEN (ie_bits (?T ! k))" if "used ?T P k" for k
        using nth [of k] that j(3) used [of k] by (cases "k = j") (auto simp: used_def)
    qed auto
    have pend: "in_table T' (insert name P) n \<or> n \<in> ite_name ` set (ist_inorder (is_tree s))" if "n \<in> insert name P" for n
    proof (cases "n = name")
      case False
      then have "in_table ?T P n \<or> n \<in> ite_name ` set (ist_inorder (is_tree s))" using d(4) that by blast
      moreover have "in_table T' (insert name P) n" if "in_table ?T P n"
        using that nth [of "MACH_PORT_INDEX n"] used [of "MACH_PORT_INDEX n"] j(3) by (auto simp: in_table_def used_def)
      ultimately show ?thesis by blast
    qed (use nth [OF j(2)] used [of j] idx gen_onlyD(2) [OF gen] in \<open>simp add: in_table_def\<close>)
    have inv': "names_inv its (insert name P) (s\<lparr>is_table := T'\<rparr>)"
      unfolding names_inv_def
    proof (intro conjI ballI)
      show "\<exists>fl. free_ok (is_table (s\<lparr>is_table := T'\<rparr>)) (insert name P) fl" using free by auto
    qed (use pend tree d nth [of 0] j(1) in simp_all)
    have none: "name_map P s name = None"
      by (rule name_map_free [OF inv]) (use idx j in simp_all)
    have "name_map (insert name P) (s\<lparr>is_table := T'\<rparr>) n = ((name_map P s)(name \<mapsto> (0, 0, 0))) n" for n
    proof (cases "MACH_PORT_INDEX n = j")
      case True
      then have "in_table T' (insert name P) n \<longleftrightarrow> n = name" and "tree_find (is_tree s) n = None"
        using nth [OF j(2)] used [of j] idx gen_onlyD(2) [OF gen] name_map_free [OF inv, of n] j
        by (auto simp: in_table_def name_eq_iff [of n] name_map_def)
      then show ?thesis
        using True nth [OF j(2)] j(5) gen_onlyD(3) [OF gen] name_map_free [OF inv, of n] j idx(1)
        by (simp add: name_map_def content_def)
    next
      case False
      then have "n \<noteq> name" using idx by auto
      moreover have "name_map (insert name P) (s\<lparr>is_table := T'\<rparr>) n = name_map P s n"
        by (rule name_map_cong) (use False nth [of "MACH_PORT_INDEX n"] in \<open>auto simp: used dest: usedD\<close>)
      ultimately show ?thesis by simp
    qed
    moreover have "MACH_PORT_VALID name"
    proof -
      have "MACH_PORT_INDEX MACH_PORT_NULL = 0" "MACH_PORT_INDEX MACH_PORT_DEAD = 2 ^ 24 - 1"
        by (simp_all add: INDEX_eq_div MACH_PORT_NULL_def MACH_PORT_DEAD_def unsigned_minus_1_eq_mask mask_eq_exp_minus_1)
      then show ?thesis using idx(1) j(1,2) d(3) unfolding MACH_PORT_VALID_def by (metis less_trans nat_neq_iff)
    qed
    ultimately show ?thesis using run j(1,3) none inv' idx(1) by (simp add: fun_eq_iff)
  qed
qed

section \<open>Collisions in the tree\<close>

lemma lower_bound_index:
  assumes "ordered xs" "y \<in> set xs" "ite_name y \<le> name" "MACH_PORT_INDEX (ite_name y) = MACH_PORT_INDEX name"
  shows "MACH_PORT_INDEX (lower_bound name xs) = MACH_PORT_INDEX name \<and> lower_bound name xs \<in> ite_name ` set xs"
proof -
  define zs where "zs = filter (\<lambda>y. ite_name y \<le> name) xs"
  have y: "y \<in> set zs" using assms by (simp add: zs_def)
  then obtain z ws where rz: "rev zs = z # ws" by (cases "rev zs") auto
  then have zs: "zs = rev ws @ [z]" by simp
  have "ordered zs" using assms(1) by (simp add: zs_def sorted_wrt_map sorted_wrt_filter)
  then have "ite_name y \<le> ite_name z" using y by (auto simp: zs sorted_wrt_append)
  moreover have "z \<in> set zs" by (simp add: zs)
  then have "ite_name z \<le> name" "z \<in> set xs" by (simp_all add: zs_def)
  ultimately have "MACH_PORT_INDEX (ite_name z) = MACH_PORT_INDEX name"
    using assms(4) INDEX_mono [of "ite_name y" "ite_name z"] INDEX_mono [of "ite_name z" name] by simp
  then show ?thesis using rz \<open>z \<in> set xs\<close> by (simp add: lower_bound_def zs_def)
qed

lemma upper_bound_index:
  assumes "ordered xs" "y \<in> set xs" "name \<le> ite_name y" "MACH_PORT_INDEX (ite_name y) = MACH_PORT_INDEX name"
  shows "MACH_PORT_INDEX (upper_bound name xs) = MACH_PORT_INDEX name \<and> upper_bound name xs \<in> ite_name ` set xs"
proof -
  define zs where "zs = filter (\<lambda>y. name \<le> ite_name y) xs"
  have y: "y \<in> set zs" using assms by (simp add: zs_def)
  then obtain z ws where zs: "zs = z # ws" by (cases zs) auto
  have "ordered zs" using assms(1) by (simp add: zs_def sorted_wrt_map sorted_wrt_filter)
  then have "ite_name z \<le> ite_name y" using y by (auto simp: zs)
  moreover have "z \<in> set zs" by (simp add: zs)
  then have "name \<le> ite_name z" "z \<in> set xs" by (simp_all add: zs_def)
  ultimately have "MACH_PORT_INDEX (ite_name z) = MACH_PORT_INDEX name"
    using assms(4) INDEX_mono [of name "ite_name z"] INDEX_mono [of "ite_name z" "ite_name y"] by simp
  then show ?thesis using zs \<open>z \<in> set xs\<close> by (simp add: upper_bound_def zs_def)
qed

lemma bound_members:
  "lower_bound name xs = MACH_PORT_LARGEST \<or> lower_bound name xs \<in> ite_name ` set xs"
  "upper_bound name xs = MACH_PORT_SMALLEST \<or> upper_bound name xs \<in> ite_name ` set xs"
proof -
  show "lower_bound name xs = MACH_PORT_LARGEST \<or> lower_bound name xs \<in> ite_name ` set xs"
  proof (cases "rev (filter (\<lambda>y. ite_name y \<le> name) xs)")
    case (Cons z ws)
    then have "z \<in> set (filter (\<lambda>y. ite_name y \<le> name) xs)" by (metis list.set_intros(1) set_rev)
    then have "z \<in> set xs" by simp
    then show ?thesis by (simp add: lower_bound_def Cons)
  qed (simp add: lower_bound_def)
  show "upper_bound name xs = MACH_PORT_SMALLEST \<or> upper_bound name xs \<in> ite_name ` set xs"
  proof (cases "filter (\<lambda>y. name \<le> ite_name y) xs")
    case (Cons z ws)
    then have "z \<in> set (filter (\<lambda>y. name \<le> ite_name y) xs)" by (metis list.set_intros(1))
    then have "z \<in> set xs" by simp
    then show ?thesis by (simp add: upper_bound_def Cons)
  qed (simp add: upper_bound_def)
qed

lemma tree_collision_correct:
  assumes "ist_inv (is_tree s)" "\<And>y. y \<in> set (ist_inorder (is_tree s)) \<Longrightarrow> MACH_PORT_VALID (ite_name y)"
  obtains t' where "ipc_entry_tree_collision s name =
      (MACH_PORT_INDEX name \<in> MACH_PORT_INDEX ` ite_name ` set (ist_inorder (is_tree s)), s\<lparr>is_tree := t'\<rparr>)"
    "ist_inorder t' = ist_inorder (is_tree s)" "ist_inv t'"
proof -
  let ?xs = "ist_inorder (is_tree s)"
  obtain lower upper t' where b: "ipc_splay_tree_bounds (is_tree s) name = (lower, upper, t')"
    using prod_cases3 by blast
  note c = ipc_splay_tree_bounds_correct [OF assms(1) b]
  have o: "ordered ?xs" using assms(1) by (simp add: ist_inv_def)
  have valid: "n \<noteq> 0" "n \<noteq> NOT 0" if "n \<in> ite_name ` set ?xs" for n
    using that assms(2) by (auto simp: MACH_PORT_VALID_def MACH_PORT_NULL_def MACH_PORT_DEAD_def)
  have "((lower \<noteq> NOT 0 \<and> MACH_PORT_INDEX lower = MACH_PORT_INDEX name) \<or>
      (upper \<noteq> 0 \<and> MACH_PORT_INDEX upper = MACH_PORT_INDEX name)) \<longleftrightarrow>
    MACH_PORT_INDEX name \<in> MACH_PORT_INDEX ` ite_name ` set ?xs" (is "?l \<longleftrightarrow> ?r")
  proof
    assume ?l
    then show ?r
      using c bound_members [of name ?xs] unfolding MACH_PORT_LARGEST_def MACH_PORT_SMALLEST_def
      by (metis image_eqI)
  next
    assume ?r
    then obtain y where y: "y \<in> set ?xs" "MACH_PORT_INDEX (ite_name y) = MACH_PORT_INDEX name" by auto
    show ?l
    proof (cases "ite_name y \<le> name")
      case True
      then show ?thesis using lower_bound_index [OF o y(1) True y(2)] valid c by metis
    next
      case False
      then show ?thesis using upper_bound_index [OF o y(1) _ y(2)] valid c by (metis linear)
    qed
  qed
  then show ?thesis using b c by (intro that [of t']) (simp_all add: ipc_entry_tree_collision_def Let_def)
qed

section \<open>The reverse hash tables\<close>

text \<open>
  The entries of type \<open>MACH_PORT_TYPE_SEND\<close> are hashed, except those of the names in \<open>Q\<close>: table
  entries in the local table, tree entries in the global one.
\<close>

definition local_hashed :: "mach_port_t set \<Rightarrow> ipc_entry list \<Rightarrow> nat set" where
  "local_hashed Q T =
     {i. 0 < i \<and> i < length T \<and> IE_BITS_TYPE (ie_bits (T ! i)) = MACH_PORT_TYPE_SEND \<and>
         MACH_PORT_MAKEB i (ie_bits (T ! i)) \<notin> Q}"

definition tree_hashed :: "mach_port_t set \<Rightarrow> ipc_splay_tree \<Rightarrow> mach_port_t \<Rightarrow> ptr option" where
  "tree_hashed Q t n =
     (case tree_find t n of
        None \<Rightarrow> None
      | Some y \<Rightarrow>
          if IE_BITS_TYPE (ie_bits (ite_entry y)) = MACH_PORT_TYPE_SEND \<and> n \<notin> Q
          then Some (ie_object (ite_entry y)) else None)"

definition hash_ok :: "ptr \<Rightarrow> mach_port_t set \<Rightarrow> ipc_hash \<Rightarrow> ipc_space \<Rightarrow> bool" where
  "hash_ok sp Q h s \<longleftrightarrow>
     lhash_inv (is_table s) (local_hashed Q (is_table s)) \<and>
     (\<exists>A. ghash_inv h A \<and> (\<forall>n. A (sp, n) = tree_hashed Q (is_tree s) n)) \<and>
     is_tree_hash s = card (dom (tree_hashed Q (is_tree s)))"

lemma hash_okD:
  assumes "hash_ok sp Q h s"
  shows "lhash_inv (is_table s) (local_hashed Q (is_table s))"
    "\<exists>A. ghash_inv h A \<and> (\<forall>n. A (sp, n) = tree_hashed Q (is_tree s) n)"
    "is_tree_hash s = card (dom (tree_hashed Q (is_tree s)))"
  using assms unfolding hash_ok_def by blast+

lemma lhash_inv_cong:
  assumes "lhash_inv T S" "length T' = length T" "\<And>i. i < length T \<Longrightarrow> ie_index (T' ! i) = ie_index (T ! i)"
    "\<And>k. k \<in> S \<Longrightarrow> ie_object (T' ! k) = ie_object (T ! k)"
  shows "lhash_inv T' S"
proof -
  have home: "home T' (hx T i) = home T (hx T i)" if "i < length T" "hx T i \<noteq> 0" for i
    using lhash_slot_in [OF assms(1) that] assms(2,4) by (simp add: home_def)
  show ?thesis
    unfolding lhash_inv_def assms(2)
  proof (intro conjI allI ballI impI)
    show "0 < length T" by (rule lhash_pos [OF assms(1)])
    show "S \<subseteq> {0<..<length T}" using lhash_members [OF assms(1)] by auto
    show "hx T' i \<in> S" if "i < length T" "hx T' i \<noteq> 0" for i
      using lhash_slot_in [OF assms(1) that(1)] that by (simp add: assms(3))
    show "\<exists>i<length T. hx T' i = k" if "k \<in> S" for k
      using lhash_slot_of [OF assms(1) that] assms(3) by auto
    show "i = j" if "i < length T" "j < length T" "hx T' i \<noteq> 0" "hx T' i = hx T' j" for i j
      using lhash_inj [OF assms(1) that(1,2)] that by (simp add: assms(3))
    show "hx T' j \<noteq> 0" if "i < length T" "hx T' i \<noteq> 0" "j < length T"
        "cdist (length T) (home T' (hx T' i)) j < cdist (length T) (home T' (hx T' i)) i" for i j
      using lhash_path [OF assms(1) that(1) _ that(3)] that home by (simp add: assms(3))
  qed
qed

lemma SEND_not_NONE [simp]: "MACH_PORT_TYPE_SEND \<noteq> 0"
  by (simp add: MACH_PORT_TYPE_SEND_def)

section \<open>Deallocating\<close>

lemma dealloc_free:
  assumes inv: "names_inv its P s" and hash: "hash_ok sp Q h s" and i: "i = MACH_PORT_INDEX name"
    and here: "in_table (is_table s) P name" "ie_object (is_table s ! i) = 0" "\<not> bit (ie_bits (is_table s ! i)) 23"
      "name \<in> Q"
    and T': "T' = (is_table s)[i := (is_table s ! i)\<lparr>ie_bits := ie_bits (is_table s ! i) AND IE_BITS_GEN_MASK,
          ie_request := ie_request (is_table s ! 0)\<rparr>, 0 := (is_table s ! 0)\<lparr>ie_request := i\<rparr>]"
  shows "names_inv its (P - {name}) (s\<lparr>is_table := T'\<rparr>)" "hash_ok sp (Q - {name}) h (s\<lparr>is_table := T'\<rparr>)"
    "name_map (P - {name}) (s\<lparr>is_table := T'\<rparr>) = (name_map P s)(name := None)"
proof -
  let ?T = "is_table s"
  note d = names_invD [OF inv]
  have pos: "0 < i" "i < length ?T" "used ?T P i" using here(1) by (auto simp: in_table_def used_def i)
  have gen: "IE_BITS_GEN (ie_bits (?T ! i)) = MACH_PORT_GEN name" using here(1) by (simp add: in_table_def i)
  have nth: "T' ! k = (if k = 0 then (?T ! 0)\<lparr>ie_request := i\<rparr> else
      if k = i then (?T ! i)\<lparr>ie_bits := ie_bits (?T ! i) AND IE_BITS_GEN_MASK, ie_request := ie_request (?T ! 0)\<rparr>
      else ?T ! k)" if "k < length ?T" for k
    using pos(1,2) d(2) that by (cases "k = 0") (simp_all add: T' nth_list_update)
  have len: "length T' = length ?T" by (simp add: T')
  have makeb: "MACH_PORT_MAKEB i (ie_bits (?T ! i)) = name"
    using gen MAKE_INDEX_GEN [of name] by (simp add: MACH_PORT_MAKEB_def i)
  have other: "MACH_PORT_MAKEB k b \<noteq> name" if "k < length ?T" "k \<noteq> i" for k b
    using that d(3) INDEX_MAKE [of k] by (auto simp: MACH_PORT_MAKEB_def i)
  have used: "used T' (P - {name}) k \<longleftrightarrow> k \<noteq> i \<and> used ?T P k" for k
    using nth [of k] other [of k] makeb
    by (cases "k = i") (auto simp: used_def len fields_GEN_MASK MACH_PORT_MAKEB_def)
  obtain fl where fl: "free_chain ?T 0 fl" "distinct fl" "set fl = {i. 0 < i \<and> i < length ?T \<and> \<not> used ?T P i}"
    "\<And>i. i \<in> set fl \<Longrightarrow> gen_only (ie_bits (?T ! i)) \<and> ie_object (?T ! i) = 0"
    by (rule names_inv_free [OF inv]) (rule that)
  have notin: "i \<notin> set fl" using pos(3) unfolding fl(3) by simp
  have mem: "k \<noteq> 0 \<and> k < length ?T \<and> k \<noteq> i" if "k \<in> set fl" for k
    using that notin fl(3) by (metis (no_types, lifting) mem_Collect_eq nat_less_le)
  have same: "T' ! k = ?T ! k" if "k \<in> set fl" for k using mem [OF that] nth [of k] by simp
  have free: "free_ok T' (P - {name}) (i # fl)"
    unfolding free_ok_def
  proof (intro conjI ballI)
    have "free_chain T' i fl"
      using fl(1) by (rule free_chain_move) (use same nth [OF pos(2)] pos(1) in simp_all)
    then show "free_chain T' 0 (i # fl)" using nth [of 0] d(2) by simp
    show "distinct (i # fl)" using fl(2) notin by simp
    show "set (i # fl) = {k. 0 < k \<and> k < length T' \<and> \<not> used T' (P - {name}) k}"
      using pos(1,2) unfolding list.set fl(3) len by (auto simp: used)
    show "gen_only (ie_bits (T' ! k))" "ie_object (T' ! k) = 0" if "k \<in> set (i # fl)" for k
      using that same fl(4) nth [OF pos(2)] pos(1) here(2) by auto
  qed
  have no_tree: "\<not> (\<exists>y\<in>set (ist_inorder (is_tree s)). MACH_PORT_INDEX (ite_name y) = i)"
    using tree_okD(1) [OF d(8) pos(2)] here(3) by simp
  have tree: "tree_ok T' (P - {name}) (ist_inorder (is_tree s))"
  proof -
    have b: "bit (ie_bits (T' ! k)) 23 = bit (ie_bits (?T ! k)) 23" if "k < length ?T" for k
      using nth [OF that] here(3) fields_GEN_MASK(4) by simp
    have g: "IE_BITS_GEN (ie_bits (T' ! k)) = IE_BITS_GEN (ie_bits (?T ! k))" if "k < length ?T" for k
      using nth [OF that] fields_GEN_MASK(2) by simp
    have "ite_name y \<noteq> name" if "y \<in> set (ist_inorder (is_tree s))" for y
      using no_tree that i by blast
    then show ?thesis
      using d(8) no_tree b g unfolding tree_ok_def len by (auto simp: used)
  qed
  show "names_inv its (P - {name}) (s\<lparr>is_table := T'\<rparr>)"
    unfolding names_inv_def
  proof (intro conjI ballI)
    show "\<exists>fl. free_ok (is_table (s\<lparr>is_table := T'\<rparr>)) (P - {name}) fl" using free by auto
    show "in_table (is_table (s\<lparr>is_table := T'\<rparr>)) (P - {name}) n \<or>
        n \<in> ite_name ` set (ist_inorder (is_tree (s\<lparr>is_table := T'\<rparr>)))" if "n \<in> P - {name}" for n
    proof -
      have "in_table T' (P - {name}) n" if "in_table ?T P n" "n \<noteq> name"
      proof -
        have "MACH_PORT_INDEX n \<noteq> i" using that gen by (auto simp: in_table_def name_eq_iff [of n] i)
        then show ?thesis using that nth [of "MACH_PORT_INDEX n"] by (auto simp: in_table_def used dest: usedD)
      qed
      then show ?thesis using d(4) that by auto
    qed
  qed (use tree d nth [of 0] len in simp_all)
  have "local_hashed (Q - {name}) T' = local_hashed Q ?T"
    using nth other here(4) makeb
    by (auto simp: local_hashed_def len fields_GEN_MASK split: if_splits)
  moreover have "lhash_inv T' (local_hashed Q ?T)"
    by (rule lhash_inv_cong [OF hash_okD(1) [OF hash] len]) (simp_all add: nth local_hashed_def)
  moreover have "tree_hashed (Q - {name}) (is_tree s) = tree_hashed Q (is_tree s)"
    using no_tree i by (auto simp: tree_hashed_def fun_eq_iff split: option.split dest: tree_find_set(1))
  ultimately show "hash_ok sp (Q - {name}) h (s\<lparr>is_table := T'\<rparr>)"
    using hash by (simp add: hash_ok_def)
  show "name_map (P - {name}) (s\<lparr>is_table := T'\<rparr>) = (name_map P s)(name := None)"
  proof (rule ext)
    fix n
    show "name_map (P - {name}) (s\<lparr>is_table := T'\<rparr>) n = ((name_map P s)(name := None)) n"
    proof (cases "MACH_PORT_INDEX n = i")
      case True
      then have "tree_find (is_tree s) n = None" using no_tree by (auto simp: tree_find_set(2))
      moreover have "\<not> in_table T' (P - {name}) n" using True used by (simp add: in_table_def)
      moreover have "in_table ?T P n \<longleftrightarrow> n = name" using True here(1) gen by (auto simp: in_table_def name_eq_iff [of n] i)
      ultimately show ?thesis by (simp add: name_map_def)
    next
      case False
      then have "name_map (P - {name}) (s\<lparr>is_table := T'\<rparr>) n = name_map P s n"
        by (intro name_map_cong) (use nth [of "MACH_PORT_INDEX n"] len in \<open>auto simp: used dest: usedD\<close>)
      then show ?thesis using False i by auto
    qed
  qed
qed

end
