(* ===== verification/Ipc_Dealloc.thy ===== *)
theory Ipc_Dealloc
  imports Ipc_Names
begin

text \<open>
  Freeing a name (\<open>ipc_entry_dealloc\<close> of \<^verbatim>\<open>src/ipc/ipc_entry.c\<close>): the name leaves the map of
  the space, every other name keeps its right, and the invariants of the space and of the
  reverse hash tables are kept.
\<close>

text \<open>Names in the tree and their indices.\<close>

abbreviation tree_names :: "ipc_space \<Rightarrow> mach_port_t set" where
  "tree_names s \<equiv> ite_name ` set (ist_inorder (is_tree s))"

lemma tree_delete:
  assumes "ist_inv t" "name \<in> ite_name ` set (ist_inorder t)"
  obtains "ist_inorder (ipc_splay_tree_delete t name) = filter (\<lambda>y. ite_name y \<noteq> name) (ist_inorder t)"
    "ist_inv (ipc_splay_tree_delete t name)"
  using ipc_splay_tree_delete_correct [OF assms(1), of name] assms(2) by (simp add: that)

lemma tree_find_filter:
  assumes "ist_inorder t' = filter (\<lambda>y. ite_name y \<noteq> name) (ist_inorder t)" "ist_inv t" "ist_inv t'"
  shows "tree_find t' n = (if n = name then None else tree_find t n)"
proof (cases "n = name")
  case True
  then show ?thesis using assms(1) by (auto simp: tree_find_set(2))
next
  case False
  have "tree_find t' n = Some y \<longleftrightarrow> tree_find t n = Some y" for y
    unfolding tree_find_iff [OF assms(2)] tree_find_iff [OF assms(3)] assms(1) using False by auto
  then show ?thesis using False by (metis option.exhaust)
qed

lemma index_remove:
  assumes "xs' = filter (\<lambda>y. ite_name y \<noteq> name) xs" "name \<in> ite_name ` set xs"
  shows "MACH_PORT_INDEX ` ite_name ` set xs = insert (MACH_PORT_INDEX name) (MACH_PORT_INDEX ` ite_name ` set xs')"
proof -
  have "ite_name ` set xs = insert name (ite_name ` set xs')" using assms by auto
  then show ?thesis by simp
qed

lemma small_indices_remove:
  assumes "MACH_PORT_INDEX ` ite_name ` set xs = insert i (MACH_PORT_INDEX ` ite_name ` set xs')"
  shows "small_indices sz nsize xs' =
    (if sz \<le> i \<and> i < nsize \<and> i \<notin> MACH_PORT_INDEX ` ite_name ` set xs'
     then small_indices sz nsize xs - {i} else small_indices sz nsize xs)"
proof -
  define A where "A = MACH_PORT_INDEX ` ite_name ` set xs'"
  have "{k \<in> A. sz \<le> k \<and> k < nsize} =
    (if sz \<le> i \<and> i < nsize \<and> i \<notin> A then {k \<in> insert i A. sz \<le> k \<and> k < nsize} - {i}
     else {k \<in> insert i A. sz \<le> k \<and> k < nsize})" by auto
  then show ?thesis unfolding small_indices_def assms A_def .
qed

lemma ordered_distinct: "ordered xs \<Longrightarrow> distinct (map ite_name xs)"
  by (induction xs) auto

lemma length_filter_name:
  assumes "distinct (map ite_name xs)" "name \<in> ite_name ` set xs"
  shows "length (filter (\<lambda>y. ite_name y \<noteq> name) xs) = length xs - 1"
proof -
  have "map ite_name (filter (\<lambda>y. ite_name y \<noteq> name) xs) = removeAll name (map ite_name xs)"
    by (induction xs) auto
  then have "length (filter (\<lambda>y. ite_name y \<noteq> name) xs) = length (removeAll name (map ite_name xs))"
    by (metis length_map)
  then show ?thesis using assms by (simp flip: distinct_remove1_removeAll add: length_remove1)
qed

lemma free_ok_cong:
  assumes "free_ok T P fl" "length T' = length T" "\<And>k. used T' P' k \<longleftrightarrow> used T P k"
    "\<And>k. k < length T \<Longrightarrow> \<not> used T P k \<Longrightarrow> ie_request (T' ! k) = ie_request (T ! k) \<and> ie_object (T' ! k) = ie_object (T ! k)"
    "\<And>k. 0 < k \<Longrightarrow> k < length T \<Longrightarrow> \<not> used T P k \<Longrightarrow> ie_bits (T' ! k) = ie_bits (T ! k)" "0 < length T"
  shows "free_ok T' P' fl"
proof -
  have fl: "free_chain T 0 fl" "distinct fl" "set fl = {i. 0 < i \<and> i < length T \<and> \<not> used T P i}"
    "\<And>i. i \<in> set fl \<Longrightarrow> gen_only (ie_bits (T ! i)) \<and> ie_object (T ! i) = 0"
    using assms(1) unfolding free_ok_def by blast+
  have mem: "0 < k \<and> k < length T \<and> \<not> used T P k" if "k \<in> set fl" for k using that unfolding fl(3) by simp
  show ?thesis
    unfolding free_ok_def
  proof (intro conjI ballI)
    show "free_chain T' 0 fl" using fl(1) by (rule free_chain_move) (use assms(4) [of 0] assms(4,6) mem usedD [of T P 0] in auto)
    show "gen_only (ie_bits (T' ! k))" "ie_object (T' ! k) = 0" if "k \<in> set fl" for k
      using fl(4) [OF that] mem [OF that] assms(4,5) [of k] by simp_all
  qed (use fl(2,3) assms(2,3) in simp_all)
qed

lemma small_indices_finite [simp]: "finite (small_indices sz nsize xs)"
  by (simp add: small_indices_def)

lemma card_dom_remove:
  assumes "m' = m(n := None)" "finite (dom m)"
  shows "card (dom m') = (if n \<in> dom m then card (dom m) - 1 else card (dom m))"
  using assms by auto

lemma tree_hashed_finite [simp]: "finite (dom (tree_hashed Q t))"
proof (rule finite_subset)
  show "dom (tree_hashed Q t) \<subseteq> ite_name ` set (ist_inorder t)"
    unfolding tree_hashed_def by (auto split: option.splits if_splits) (metis image_eqI tree_find_set(1))
qed simp

lemma makeb_not:
  assumes "names_inv its P s" "\<not> in_table (is_table s) P name" "used (is_table s) P k"
  shows "MACH_PORT_MAKEB k (ie_bits (is_table s ! k)) \<noteq> name"
proof
  assume "MACH_PORT_MAKEB k (ie_bits (is_table s ! k)) = name"
  then have "MACH_PORT_INDEX name = k" "MACH_PORT_GEN name = IE_BITS_GEN (ie_bits (is_table s ! k))"
    using names_invD(3) [OF assms(1)] usedD [OF assms(3)] by (auto simp: MACH_PORT_MAKEB_def INDEX_MAKE GEN_MAKE IE_BITS_GEN_def)
  then show False using assms(2,3) by (simp add: in_table_def)
qed

lemma dealloc_tree:
  assumes inv: "names_inv its P s" and hash: "hash_ok sp Q h s" and name: "name \<in> tree_names s" "name \<in> Q"
  shows "\<exists>s'. ipc_entry_dealloc its sp h s name (TreeEntry name) = Some (h, s') \<and> names_inv its (P - {name}) s' \<and>
    hash_ok sp (Q - {name}) h s' \<and> name_map (P - {name}) s' = (name_map P s)(name := None)"
proof -
  let ?T = "is_table s" and ?xs = "ist_inorder (is_tree s)" and ?i = "MACH_PORT_INDEX name"
  note d = names_invD [OF inv]
  define t1 where "t1 = ipc_splay_tree_delete (is_tree s) name"
  define xs' where "xs' = filter (\<lambda>y. ite_name y \<noteq> name) ?xs"
  have t1: "ist_inorder t1 = xs'" "ist_inv t1"
    using tree_delete [OF d(7) name(1)] unfolding t1_def xs'_def by blast+
  define s1 where "s1 = s\<lparr>is_tree := t1, is_tree_total := is_tree_total s - 1\<rparr>"
  obtain t2 where "ipc_entry_tree_collision s1 name = (?i \<in> MACH_PORT_INDEX ` tree_names s1, s1\<lparr>is_tree := t2\<rparr>)"
      "ist_inorder t2 = ist_inorder (is_tree s1)" "ist_inv t2"
    by (rule tree_collision_correct [of s1 name]) (use t1 tree_okD(4) [OF d(8)] in \<open>auto simp: s1_def xs'_def intro: that\<close>)
  then have t2: "ipc_entry_tree_collision s1 name = (?i \<in> MACH_PORT_INDEX ` ite_name ` set xs', s1\<lparr>is_tree := t2\<rparr>)"
      "ist_inorder t2 = xs'" "ist_inv t2"
    by (simp_all add: s1_def t1(1))
  define coll where "coll \<longleftrightarrow> ?i \<in> MACH_PORT_INDEX ` ite_name ` set xs'"
  define T' where "T' = (if ?i < length ?T \<and> \<not> coll
      then ?T[?i := (?T ! ?i)\<lparr>ie_bits := ie_bits (?T ! ?i) AND NOT IE_BITS_COLLISION\<rparr>] else ?T)"
  define small where "small = (if \<not> ?i < length ?T \<and> ?i < its ! is_table_next s \<and> \<not> coll
      then is_tree_small s - 1 else is_tree_small s)"
  obtain t' where run: "ipc_entry_dealloc its sp h s name (TreeEntry name) =
        Some (h, s\<lparr>is_tree := t', is_tree_total := is_tree_total s - 1, is_table := T', is_tree_small := small\<rparr>)"
      and t': "ist_inorder t' = xs'" "ist_inv t'"
  proof
    show "ipc_entry_dealloc its sp h s name (TreeEntry name) =
        Some (h, s\<lparr>is_tree := if ?i < length ?T \<or> ?i < its ! is_table_next s then t2 else t1,
          is_tree_total := is_tree_total s - 1, is_table := T', is_tree_small := small\<rparr>)"
      using t2(1) d(1)
      by (auto simp: ipc_entry_dealloc_def Let_def t1_def [symmetric] s1_def T'_def small_def coll_def)
  qed (use t1 t2 in simp_all)
  define s' where "s' = s\<lparr>is_tree := t', is_tree_total := is_tree_total s - 1, is_table := T', is_tree_small := small\<rparr>"
  have len: "length T' = length ?T" by (simp add: T'_def)
  have nth: "T' ! k = (if k = ?i \<and> \<not> coll then (?T ! ?i)\<lparr>ie_bits := ie_bits (?T ! ?i) AND NOT IE_BITS_COLLISION\<rparr> else ?T ! k)"
    if "k < length ?T" for k
    using that by (auto simp: T'_def nth_list_update)
  have fields: "IE_BITS_TYPE (ie_bits (T' ! k)) = IE_BITS_TYPE (ie_bits (?T ! k))"
      "IE_BITS_GEN (ie_bits (T' ! k)) = IE_BITS_GEN (ie_bits (?T ! k))" "content (T' ! k) = content (?T ! k)"
      "ie_index (T' ! k) = ie_index (?T ! k)" "ie_object (T' ! k) = ie_object (?T ! k)"
      "ie_request (T' ! k) = ie_request (?T ! k)" if "k < length ?T" for k
    using nth [OF that] fields_not_COLLISION by (simp_all add: content_def)
  have not_table: "\<not> in_table ?T P name" using names_in_table [OF inv] name(1) by blast
  have makeb: "MACH_PORT_MAKEB k (ie_bits (?T ! k)) \<noteq> name" if "used ?T P k" for k
    by (rule makeb_not [OF inv not_table that])
  have used: "used T' (P - {name}) k \<longleftrightarrow> used ?T P k" for k
    using fields(1,2) [of k] makeb [of k] by (auto simp: used_def len MACH_PORT_MAKEB_def)
  have names: "ite_name ` set xs' = tree_names s - {name}" by (auto simp: xs'_def)
  have find: "tree_find t' n = (if n = name then None else tree_find (is_tree s) n)" for n
    by (rule tree_find_filter) (use t' d(7) in \<open>simp_all add: xs'_def\<close>)
  have in_table: "in_table T' (P - {name}) n \<longleftrightarrow> in_table ?T P n" for n
    using used [of "MACH_PORT_INDEX n"] fields(2) [of "MACH_PORT_INDEX n"] by (auto simp: in_table_def dest: usedD)
  have index: "MACH_PORT_INDEX ` ite_name ` set ?xs = insert ?i (MACH_PORT_INDEX ` ite_name ` set xs')"
    by (rule index_remove [OF xs'_def name(1)])
  have tree: "tree_ok T' (P - {name}) xs'"
    unfolding tree_ok_def len
  proof (intro conjI allI ballI impI)
    have sub: "y \<in> set ?xs" "ite_name y \<noteq> name" if "y \<in> set xs'" for y using that by (simp_all add: xs'_def)
    show "bit (ie_bits (T' ! k)) 23 \<longleftrightarrow> k \<in> MACH_PORT_INDEX ` ite_name ` set xs'" if "k < length ?T" for k
    proof -
      have "bit (ie_bits (?T ! k)) 23 \<longleftrightarrow> k \<in> MACH_PORT_INDEX ` ite_name ` set ?xs"
        using d(8) that unfolding tree_ok_def by blast
      then show ?thesis using nth [OF that] fields_not_COLLISION(4) unfolding index coll_def by auto
    qed
    show "used T' (P - {name}) (MACH_PORT_INDEX (ite_name y))"
        "IE_BITS_GEN (ie_bits (T' ! MACH_PORT_INDEX (ite_name y))) \<noteq> MACH_PORT_GEN (ite_name y)"
      if "y \<in> set xs'" "0 < MACH_PORT_INDEX (ite_name y)" "MACH_PORT_INDEX (ite_name y) < length ?T" for y
      using tree_okD(2) [OF d(8) sub(1) [OF that(1)] that(2,3)] fields(2) [OF that(3)] by (simp_all add: used)
    show "ie_bits (ite_entry y) AND IE_BITS_RIGHT_MASK = ie_bits (ite_entry y)" "MACH_PORT_VALID (ite_name y)"
        "IE_BITS_TYPE (ie_bits (ite_entry y)) \<noteq> 0 \<or> ite_name y \<in> P - {name}" if "y \<in> set xs'" for y
      using tree_okD(3-5) [OF d(8) sub(1) [OF that]] sub(2) [OF that] by simp_all
  qed
  have inv': "names_inv its (P - {name}) s'"
    unfolding names_inv_def
  proof (intro conjI ballI)
    obtain fl where fl: "free_ok ?T P fl" using inv by (auto simp: names_inv_def)
    have "used ?T P ?i" if "0 < ?i" "?i < length ?T" using name(1) tree_okD(2) [OF d(8)] that by auto
    then have "free_ok T' (P - {name}) fl"
      by (intro free_ok_cong [OF fl len used]) (use fields(5,6) nth d(2) in auto)
    then show "\<exists>fl. free_ok (is_table s') (P - {name}) fl" by (auto simp: s'_def)
    show "in_table (is_table s') (P - {name}) n \<or> n \<in> tree_names s'" if "n \<in> P - {name}" for n
      using d(4) that by (auto simp: s'_def in_table t' names)
    show "is_tree_small s' = card (small_indices (length (is_table s')) (its ! is_table_next s') (ist_inorder (is_tree s')))"
      using small_indices_remove [OF index, of "length ?T" "its ! is_table_next s"] d(10) index
      by (auto simp: s'_def len t' small_def coll_def small_indices_def)
    have "length xs' = length ?xs - 1"
      unfolding xs'_def by (rule length_filter_name [OF _ name(1)]) (use d(7) ordered_distinct in \<open>simp add: ist_inv_def\<close>)
    then show "is_tree_total s' = length (ist_inorder (is_tree s'))" by (simp add: s'_def t' d(9))
  qed (use tree t' d fields [of 0] in \<open>simp_all add: s'_def len\<close>)
  have loc: "local_hashed (Q - {name}) T' = local_hashed Q ?T"
  proof (rule set_eqI)
    fix k
    show "k \<in> local_hashed (Q - {name}) T' \<longleftrightarrow> k \<in> local_hashed Q ?T"
      using fields(1,2) [of k] makeb [of k] by (auto simp: local_hashed_def len MACH_PORT_MAKEB_def used_def)
  qed
  have "tree_hashed (Q - {name}) t' = tree_hashed Q (is_tree s)"
    using name(2) find by (auto simp: tree_hashed_def fun_eq_iff split: option.split)
  moreover have "lhash_inv T' (local_hashed Q ?T)"
    by (rule lhash_inv_cong [OF hash_okD(1) [OF hash] len]) (use fields in \<open>simp_all add: local_hashed_def\<close>)
  ultimately have hash': "hash_ok sp (Q - {name}) h s'"
    using hash loc by (simp add: hash_ok_def s'_def)
  have "name_map (P - {name}) s' n = ((name_map P s)(name := None)) n" for n
    using not_table find in_table fields(3) [of "MACH_PORT_INDEX n"]
    by (auto simp: name_map_def s'_def in_table_def dest: usedD)
  then show ?thesis using run inv' hash' by (auto simp: s'_def)
qed

section \<open>Moving a tree entry into its place in the table\<close>

lemma pick_correct:
  "ipc_splay_tree_pick t = None \<longleftrightarrow> ist_root t = Leaf"
  "ipc_splay_tree_pick t = Some (n, y) \<Longrightarrow> n = ite_name y \<and> y \<in> set (ist_inorder t)"
  by (auto simp: ipc_splay_tree_pick_def ist_inorder_def split: tree.splits)

lemma pick_empty:
  assumes "ist_inv t"
  shows "ipc_splay_tree_pick t = None \<longleftrightarrow> ist_inorder t = []"
  using assms by (auto simp: pick_correct(1) ist_inv_def ist_inorder_def)

lemma collision_pieces:
  assumes inv: "ist_inv t" and i: "i < 2 ^ 24 - 1"
    and s1: "ipc_splay_tree_split t (MACH_PORT_MAKE (i + 1) 0) = (big, c0)"
    and s2: "ipc_splay_tree_split c0 (MACH_PORT_MAKE i 0) = (c, small)"
  shows "ist_inv big" "ist_inv c" "ist_inv small"
    "ist_inorder big = filter (\<lambda>y. i < MACH_PORT_INDEX (ite_name y)) (ist_inorder t)"
    "ist_inorder c = filter (\<lambda>y. MACH_PORT_INDEX (ite_name y) = i) (ist_inorder t)"
    "ist_inorder small = filter (\<lambda>y. MACH_PORT_INDEX (ite_name y) < i) (ist_inorder t)"
proof -
  note c1 = ipc_splay_tree_split_correct [OF inv s1]
  then have c0: "ist_inv c0" by blast
  note c2 = ipc_splay_tree_split_correct [OF c0 s2]
  show "ist_inv big" "ist_inv c" "ist_inv small" using c1 c2 by blast+
  have l1: "n < MACH_PORT_MAKE (i + 1) 0 \<longleftrightarrow> MACH_PORT_INDEX n < i + 1" for n
    by (rule less_MAKE0) (use i in simp)
  have l2: "n < MACH_PORT_MAKE i 0 \<longleftrightarrow> MACH_PORT_INDEX n < i" for n
    by (rule less_MAKE0) (use i in simp)
  show "ist_inorder big = filter (\<lambda>y. i < MACH_PORT_INDEX (ite_name y)) (ist_inorder t)"
    using c1 l1 by (auto simp: not_less [symmetric] less_Suc_eq_le intro!: filter_cong)
  show "ist_inorder c = filter (\<lambda>y. MACH_PORT_INDEX (ite_name y) = i) (ist_inorder t)"
    using c1 c2 l1 l2 by (auto simp: not_less [symmetric] intro!: filter_cong)
  show "ist_inorder small = filter (\<lambda>y. MACH_PORT_INDEX (ite_name y) < i) (ist_inorder t)"
    using c1 c2 l1 l2 by (auto intro!: filter_cong)
qed

lemma join_inorder:
  assumes "ist_inv splay" "ist_inv small" "\<And>a b. a \<in> set (ist_inorder small) \<Longrightarrow> b \<in> set (ist_inorder splay) \<Longrightarrow> ite_name a < ite_name b"
  shows "ist_inorder (fst (ipc_splay_tree_join splay small)) = ist_inorder small @ ist_inorder splay"
    "ist_inv (fst (ipc_splay_tree_join splay small))"
proof -
  obtain a b where j: "ipc_splay_tree_join splay small = (a, b)" by fastforce
  show "ist_inorder (fst (ipc_splay_tree_join splay small)) = ist_inorder small @ ist_inorder splay"
    "ist_inv (fst (ipc_splay_tree_join splay small))"
    using ipc_splay_tree_join_correct [OF assms(1,2) _ j] assms(3) j by auto
qed

lemma index_less: "MACH_PORT_INDEX a < MACH_PORT_INDEX b \<Longrightarrow> a < b"
  using INDEX_mono [of b a] by (metis linorder_not_le)

lemma filter_three:
  assumes "ordered xs"
  shows "filter (\<lambda>y. MACH_PORT_INDEX (ite_name y) < i) xs @ filter (\<lambda>y. MACH_PORT_INDEX (ite_name y) = i \<and> P y) xs @
     filter (\<lambda>y. i < MACH_PORT_INDEX (ite_name y)) xs = filter (\<lambda>y. MACH_PORT_INDEX (ite_name y) \<noteq> i \<or> P y) xs"
  using assms
proof (induction xs)
  case (Cons x xs)
  have le: "MACH_PORT_INDEX (ite_name x) \<le> MACH_PORT_INDEX (ite_name y)" if "y \<in> set xs" for y
    using Cons.prems that INDEX_mono [of "ite_name x" "ite_name y"] by (auto simp: less_imp_le)
  have e1: "filter (\<lambda>y. MACH_PORT_INDEX (ite_name y) < i) xs = []" if "i \<le> MACH_PORT_INDEX (ite_name x)"
    using le that by (force simp: filter_empty_conv)
  have e2: "filter (\<lambda>y. MACH_PORT_INDEX (ite_name y) = i \<and> P y) xs = []" if "i < MACH_PORT_INDEX (ite_name x)"
    using le that by (force simp: filter_empty_conv)
  show ?case using Cons e1 e2 by (auto simp: not_less)
qed simp

lemma move_tree:
  assumes inv: "ist_inv t" and i: "i < 2 ^ 24 - 1" and occ: "i \<in> MACH_PORT_INDEX ` ite_name ` set (ist_inorder t)"
    and s1: "ipc_splay_tree_split t (MACH_PORT_MAKE (i + 1) 0) = (big, c0)"
    and s2: "ipc_splay_tree_split c0 (MACH_PORT_MAKE i 0) = (c, small)"
  obtains y c' where "ipc_splay_tree_pick c = Some (ite_name y, y)" "y \<in> set (ist_inorder t)" "MACH_PORT_INDEX (ite_name y) = i"
    "c' = ipc_splay_tree_delete c (ite_name y)"
    "ipc_splay_tree_pick c' \<noteq> None \<longleftrightarrow> i \<in> MACH_PORT_INDEX ` ite_name ` set (filter (\<lambda>z. ite_name z \<noteq> ite_name y) (ist_inorder t))"
    "\<And>t1 t2. t1 = (if ipc_splay_tree_pick c' = None then big else fst (ipc_splay_tree_join big c')) \<Longrightarrow>
       t2 = fst (ipc_splay_tree_join t1 small) \<Longrightarrow>
       ist_inv t2 \<and> ist_inorder t2 = filter (\<lambda>z. ite_name z \<noteq> ite_name y) (ist_inorder t)"
proof -
  note p = collision_pieces [OF inv i s1 s2]
  have "ist_inorder c \<noteq> []" using occ unfolding p(5) by (auto simp: filter_empty_conv)
  then obtain n y where pick: "ipc_splay_tree_pick c = Some (n, y)" using pick_empty [OF p(2)] by (cases "ipc_splay_tree_pick c") auto
  have n: "n = ite_name y" "y \<in> set (ist_inorder c)" using pick_correct(2) [OF pick] by auto
  then have y: "y \<in> set (ist_inorder t)" "MACH_PORT_INDEX (ite_name y) = i" by (auto simp: p(5))
  define c' where "c' = ipc_splay_tree_delete c (ite_name y)"
  have "ite_name y \<in> ite_name ` set (ist_inorder c)" using n by blast
  then have c': "ist_inorder c' = filter (\<lambda>z. ite_name z \<noteq> ite_name y) (ist_inorder c)" "ist_inv c'"
    using tree_delete [OF p(2)] unfolding c'_def by blast+
  define t1 where "t1 = (if ipc_splay_tree_pick c' = None then big else fst (ipc_splay_tree_join big c'))"
  have lt: "ite_name a < ite_name b" if "a \<in> set (ist_inorder c')" "b \<in> set (ist_inorder big)" for a b
    using that by (intro index_less) (auto simp: c'(1) p)
  have t1: "ist_inorder t1 = ist_inorder c' @ ist_inorder big \<and> ist_inv t1"
    using join_inorder [OF p(1) c'(2) lt] pick_empty [OF c'(2)] p(1) by (auto simp: t1_def)
  define t2 where "t2 = fst (ipc_splay_tree_join t1 small)"
  have lt2: "ite_name a < ite_name b" if "a \<in> set (ist_inorder small)" "b \<in> set (ist_inorder t1)" for a b
    using that by (intro index_less) (auto simp: t1 c'(1) p)
  have t2: "ist_inorder t2 = ist_inorder small @ ist_inorder c' @ ist_inorder big" "ist_inv t2"
    using join_inorder [OF conjunct2 [OF t1] p(3) lt2] t1 by (simp_all add: t2_def)
  have "ordered (ist_inorder t)" using inv by (simp add: ist_inv_def)
  then have "ist_inorder t2 = filter (\<lambda>z. MACH_PORT_INDEX (ite_name z) \<noteq> i \<or> ite_name z \<noteq> ite_name y) (ist_inorder t)"
    unfolding t2(1) c'(1) p(4-6) filter_filter by (subst filter_three [symmetric]) (auto simp: conj_commute)
  then have eq: "ist_inorder t2 = filter (\<lambda>z. ite_name z \<noteq> ite_name y) (ist_inorder t)"
    using y(2) by (auto intro!: filter_cong)
  have "ipc_splay_tree_pick c' \<noteq> None \<longleftrightarrow> i \<in> MACH_PORT_INDEX ` ite_name ` set (filter (\<lambda>z. ite_name z \<noteq> ite_name y) (ist_inorder t))"
    unfolding pick_empty [OF c'(2)] c'(1) p(5) by (auto simp: filter_empty_conv)
  then show ?thesis
    using pick n(1) eq t2(2) by (intro that [OF _ y c'_def]) (simp_all add: t2_def t1_def)
qed

lemma move_space:
  assumes inv: "names_inv its P s" and i: "i = MACH_PORT_INDEX name" and here: "in_table (is_table s) P name"
    and y: "y \<in> set (ist_inorder (is_tree s))" "MACH_PORT_INDEX (ite_name y) = i"
    and t': "ist_inorder t' = filter (\<lambda>z. ite_name z \<noteq> ite_name y) (ist_inorder (is_tree s))" "ist_inv t'"
    and len: "length T' = length (is_table s)"
    and other: "\<And>k. k < length (is_table s) \<Longrightarrow> k \<noteq> i \<Longrightarrow>
      ie_bits (T' ! k) = ie_bits (is_table s ! k) \<and> ie_object (T' ! k) = ie_object (is_table s ! k) \<and>
      ie_request (T' ! k) = ie_request (is_table s ! k)"
    and moved: "ie_bits (T' ! i) = (let b = ie_bits (ite_entry y) OR MACH_PORT_GEN (ite_name y)
        in if i \<in> MACH_PORT_INDEX ` ite_name ` set (ist_inorder t') then b OR IE_BITS_COLLISION else b)"
      "ie_object (T' ! i) = ie_object (ite_entry y)" "ie_request (T' ! i) = ie_request (ite_entry y)"
    and s': "is_table s' = T'" "is_table_size s' = is_table_size s" "is_table_next s' = is_table_next s" "is_tree s' = t'"
      "is_tree_total s' = is_tree_total s - 1" "is_tree_small s' = is_tree_small s"
  shows "names_inv its (P - {name}) s'" "name_map (P - {name}) s' = (name_map P s)(name := None)"
proof -
  let ?T = "is_table s" and ?xs = "ist_inorder (is_tree s)"
  let ?P = "P - {name}"
  note d = names_invD [OF inv]
  have pos: "0 < i" "i < length ?T" "used ?T P i" using here by (auto simp: in_table_def used_def i)
  have gen: "IE_BITS_GEN (ie_bits (?T ! i)) = MACH_PORT_GEN name" using here by (simp add: in_table_def i)
  have not_tree: "name \<notin> tree_names s" using names_in_table [OF inv] here by blast
  then have ny: "ite_name y \<noteq> name" using y(1) by blast
  note rb = tree_okD(3) [OF d(8) y(1)]
  have bits: "IE_BITS_TYPE (ie_bits (T' ! i)) = IE_BITS_TYPE (ie_bits (ite_entry y))"
    "IE_BITS_GEN (ie_bits (T' ! i)) = MACH_PORT_GEN (ite_name y)"
    "ie_bits (T' ! i) AND IE_BITS_RIGHT_MASK = ie_bits (ite_entry y)"
    "bit (ie_bits (T' ! i)) 23 \<longleftrightarrow> i \<in> MACH_PORT_INDEX ` ite_name ` set (ist_inorder t')"
    using fields_with_gen [OF rb, of "ite_name y"] unfolding moved(1) Let_def by (simp_all add: ie_fields)
  have makeb: "MACH_PORT_MAKEB i (ie_bits (T' ! i)) = ite_name y"
    using bits(2) MAKE_INDEX_GEN [of "ite_name y"] by (simp add: MACH_PORT_MAKEB_def y(2))
  have other_name: "MACH_PORT_MAKEB k b \<noteq> name" if "k < length ?T" "k \<noteq> i" for k b
    using that d(3) INDEX_MAKE [of k] by (auto simp: MACH_PORT_MAKEB_def i)
  have used: "used T' ?P k \<longleftrightarrow> used ?T P k" for k
  proof (cases "k = i")
    case True
    have "used T' ?P i" using pos makeb bits(1) tree_okD(5) [OF d(8) y(1)] ny by (auto simp: used_def len)
    then show ?thesis using True pos(3) by simp
  next
    case False
    then show ?thesis using other [of k] other_name [of k] by (auto simp: used_def len MACH_PORT_MAKEB_def)
  qed
  have in_table: "in_table T' ?P n \<longleftrightarrow> (if MACH_PORT_INDEX n = i then n = ite_name y else in_table ?T P n)" for n
    using used [of "MACH_PORT_INDEX n"] other [of "MACH_PORT_INDEX n"] bits(2) pos(3) name_eq_iff [of n "ite_name y"] y(2)
    by (auto simp: in_table_def dest: usedD)
  have sub: "z \<in> set ?xs" "ite_name z \<noteq> ite_name y" if "z \<in> set (ist_inorder t')" for z using that by (simp_all add: t'(1))
  have index: "MACH_PORT_INDEX ` ite_name ` set ?xs = insert i (MACH_PORT_INDEX ` ite_name ` set (ist_inorder t'))"
    unfolding y(2) [symmetric] by (rule index_remove [OF t'(1)]) (use y(1) in blast)
  have tree: "tree_ok T' ?P (ist_inorder t')"
    unfolding tree_ok_def len
  proof (intro conjI allI ballI impI)
    show "bit (ie_bits (T' ! k)) 23 \<longleftrightarrow> k \<in> MACH_PORT_INDEX ` ite_name ` set (ist_inorder t')" if "k < length ?T" for k
    proof (cases "k = i")
      case False
      have "bit (ie_bits (?T ! k)) 23 \<longleftrightarrow> k \<in> MACH_PORT_INDEX ` ite_name ` set ?xs"
        using d(8) that unfolding tree_ok_def by blast
      then show ?thesis using other [OF that False] False unfolding index by auto
    qed (use bits(4) in simp)
    show "used T' ?P (MACH_PORT_INDEX (ite_name z))"
        "IE_BITS_GEN (ie_bits (T' ! MACH_PORT_INDEX (ite_name z))) \<noteq> MACH_PORT_GEN (ite_name z)"
      if z: "z \<in> set (ist_inorder t')" "0 < MACH_PORT_INDEX (ite_name z)" "MACH_PORT_INDEX (ite_name z) < length ?T" for z
    proof -
      note a = tree_okD(2) [OF d(8) sub(1) [OF z(1)] z(2,3)]
      show "used T' ?P (MACH_PORT_INDEX (ite_name z))" using a used by simp
      show "IE_BITS_GEN (ie_bits (T' ! MACH_PORT_INDEX (ite_name z))) \<noteq> MACH_PORT_GEN (ite_name z)"
        using a other [OF z(3)] bits(2) sub(2) [OF z(1)] y(2)
        by (cases "MACH_PORT_INDEX (ite_name z) = i") (auto simp: name_eq_iff [of "ite_name z"])
    qed
    show "ie_bits (ite_entry z) AND IE_BITS_RIGHT_MASK = ie_bits (ite_entry z)" "MACH_PORT_VALID (ite_name z)"
        "IE_BITS_TYPE (ie_bits (ite_entry z)) \<noteq> 0 \<or> ite_name z \<in> ?P" if "z \<in> set (ist_inorder t')" for z
      using tree_okD(3-5) [OF d(8) sub(1) [OF that]] not_tree sub(1) [OF that] by auto
  qed
  show "names_inv its ?P s'"
    unfolding names_inv_def s'
  proof (intro conjI ballI)
    obtain fl where fl: "free_ok ?T P fl" using inv by (auto simp: names_inv_def)
    have ch: "free_chain ?T 0 fl" and mem: "\<And>k. k \<in> set fl \<Longrightarrow> 0 < k \<and> k < length ?T \<and> \<not> used ?T P k"
      and gfl: "\<And>k. k \<in> set fl \<Longrightarrow> gen_only (ie_bits (?T ! k)) \<and> ie_object (?T ! k) = 0"
      using fl unfolding free_ok_def by auto
    have same: "k < length ?T" "k \<noteq> i" if "k \<in> set fl" for k using mem [OF that] pos(3) by auto
    have "free_ok T' ?P fl"
      unfolding free_ok_def
    proof (intro conjI ballI)
      show "free_chain T' 0 fl" using ch
        by (rule free_chain_move) (use other [of 0] other same pos(1) d(2) in auto)
      show "distinct fl" "set fl = {k. 0 < k \<and> k < length T' \<and> \<not> used T' ?P k}"
        using fl unfolding free_ok_def len used by blast+
      show "gen_only (ie_bits (T' ! k))" "ie_object (T' ! k) = 0" if "k \<in> set fl" for k
        using gfl [OF that] other [OF same [OF that]] by simp_all
    qed
    then show "\<exists>fl. free_ok T' ?P fl" by blast
    show "in_table T' ?P n \<or> n \<in> ite_name ` set (ist_inorder t')" if n: "n \<in> ?P" for n
    proof (cases "n \<in> tree_names s")
      case True
      then show ?thesis using in_table [of n] y(2) by (auto simp: t'(1))
    next
      case False
      then have "in_table ?T P n" using d(4) n by blast
      then have "MACH_PORT_INDEX n \<noteq> i" using n gen by (auto simp: in_table_def name_eq_iff [of n] i)
      then show ?thesis using in_table \<open>in_table ?T P n\<close> by simp
    qed
    have "small_indices (length ?T) (its ! is_table_next s) (ist_inorder t') = small_indices (length ?T) (its ! is_table_next s) ?xs"
      using small_indices_remove [OF index, of "length ?T" "its ! is_table_next s"] pos(2) by simp
    then show "is_tree_small s = card (small_indices (length T') (its ! is_table_next s) (ist_inorder t'))"
      using d(10) by (simp add: len)
    have "length (ist_inorder t') = length ?xs - 1"
      unfolding t'(1) by (rule length_filter_name) (use d(7) ordered_distinct y(1) in \<open>auto simp: ist_inv_def\<close>)
    then show "is_tree_total s - 1 = length (ist_inorder t')" by (simp add: d(9))
  qed (use tree t' d other [of 0] pos(1) in \<open>simp_all add: len\<close>)
  have find: "tree_find t' n = (if n = ite_name y then None else tree_find (is_tree s) n)" for n
    by (rule tree_find_filter) (use t' d(7) in simp_all)
  have "name_map ?P s' n = ((name_map P s)(name := None)) n" for n
  proof -
    consider "n = name" | "n = ite_name y" | "n \<noteq> name" "n \<noteq> ite_name y" "MACH_PORT_INDEX n = i" | "MACH_PORT_INDEX n \<noteq> i"
      by blast
    then show ?thesis
    proof cases
      case 1
      then show ?thesis using ny not_tree find [of n] in_table [of n] by (auto simp: name_map_def s' i tree_find_set(2))
    next
      case 2
      then have "in_table T' ?P n" using in_table [of n] y(2) by simp
      moreover have "content (T' ! i) = content (ite_entry y)" using bits(3) moved rb by (simp add: content_def)
      ultimately show ?thesis using 2 y(2) ny name_map_tree [OF inv y(1)] by (simp add: name_map_def [of ?P] s')
    next
      case 3
      then have "\<not> in_table ?T P n" using gen by (auto simp: in_table_def name_eq_iff [of n] i)
      then show ?thesis using 3 in_table [of n] find [of n] by (simp add: name_map_def s')
    next
      case 4
      have "content (T' ! MACH_PORT_INDEX n) = content (?T ! MACH_PORT_INDEX n)" if "in_table ?T P n"
        using that 4 other [of "MACH_PORT_INDEX n"] by (auto simp: content_def in_table_def dest: usedD)
      then show ?thesis using 4 in_table [of n] find [of n] y(2) i by (auto simp: name_map_def s')
    qed
  qed
  then show "name_map ?P s' = (name_map P s)(name := None)" by (rule ext)
qed

lemma global_delete_fields:
  "fst (ipc_hash_global_delete h sp s obj n) = fst (ipc_hash_global_delete h sp s' obj n)"
  "snd (ipc_hash_global_delete h sp s obj n) = s\<lparr>is_tree_hash := is_tree_hash s - 1\<rparr>"
  by (simp_all add: ipc_hash_global_delete_def Let_def)

lemma dealloc_move:
  assumes inv: "names_inv its P s" and hash: "hash_ok sp {name} h s" and i: "i = MACH_PORT_INDEX name"
    and here: "in_table (is_table s) P name" and coll: "bit (ie_bits (is_table s ! i)) 23"
  obtains h' s' where "ipc_entry_dealloc_move sp h s i = Some (h', s')" "names_inv its (P - {name}) s'"
    "hash_ok sp {} h' s'" "name_map (P - {name}) s' = (name_map P s)(name := None)" "is_active s' = is_active s"
proof -
  let ?T = "is_table s"
  note d = names_invD [OF inv]
  have pos: "0 < i" "i < length ?T" using here by (auto simp: in_table_def used_def i)
  have "i < 2 ^ 24 - 1" using pos d(3) by simp
  have occ: "i \<in> MACH_PORT_INDEX ` tree_names s" using coll pos d(8) unfolding tree_ok_def by blast
  obtain big c0 where s1: "ipc_splay_tree_split (is_tree s) (MACH_PORT_MAKE (i + 1) 0) = (big, c0)" by fastforce
  obtain c small where s2: "ipc_splay_tree_split c0 (MACH_PORT_MAKE i 0) = (c, small)" by fastforce
  obtain y c' where y: "ipc_splay_tree_pick c = Some (ite_name y, y)" "y \<in> set (ist_inorder (is_tree s))"
      "MACH_PORT_INDEX (ite_name y) = i" and c': "c' = ipc_splay_tree_delete c (ite_name y)"
      "ipc_splay_tree_pick c' \<noteq> None \<longleftrightarrow> i \<in> MACH_PORT_INDEX ` ite_name ` set (filter (\<lambda>z. ite_name z \<noteq> ite_name y) (ist_inorder (is_tree s)))"
    and joined: "\<And>t1 t2. t1 = (if ipc_splay_tree_pick c' = None then big else fst (ipc_splay_tree_join big c')) \<Longrightarrow>
       t2 = fst (ipc_splay_tree_join t1 small) \<Longrightarrow>
       ist_inv t2 \<and> ist_inorder t2 = filter (\<lambda>z. ite_name z \<noteq> ite_name y) (ist_inorder (is_tree s))"
    by (rule move_tree [OF d(7) \<open>i < 2 ^ 24 - 1\<close> occ s1 s2]) (rule that)
  define t' where "t' = fst (ipc_splay_tree_join
      (if ipc_splay_tree_pick c' = None then big else fst (ipc_splay_tree_join big c')) small)"
  have t': "ist_inorder t' = filter (\<lambda>z. ite_name z \<noteq> ite_name y) (ist_inorder (is_tree s))" "ist_inv t'"
    using joined [OF refl refl] unfolding t'_def by blast+
  define e where "e = ite_entry y"
  define snt where "snt \<longleftrightarrow> IE_BITS_TYPE (ie_bits e) = MACH_PORT_TYPE_SEND"
  define T1 where "T1 = ?T[i := (?T ! i)\<lparr>ie_bits := ie_bits e OR MACH_PORT_GEN (ite_name y), ie_object := ie_object e,
      ie_request := ie_request e\<rparr>]"
  define s0 where "s0 = s\<lparr>is_tree := big, is_table := T1\<rparr>"
  have nth1: "T1 ! k = (if k = i then (?T ! i)\<lparr>ie_bits := ie_bits e OR MACH_PORT_GEN (ite_name y), ie_object := ie_object e,
      ie_request := ie_request e\<rparr> else ?T ! k)" if "k < length ?T" for k
    using that by (simp add: T1_def nth_list_update)
  have len1 [simp]: "length T1 = length ?T" by (simp add: T1_def)
  have mk: "MACH_PORT_MAKEB i (ie_bits (?T ! i)) = name"
    using here MAKE_INDEX_GEN [of name] by (simp add: MACH_PORT_MAKEB_def i in_table_def)
  then have ni: "i \<notin> local_hashed {name} ?T" by (simp add: local_hashed_def)
  have lh: "lhash_inv T1 (local_hashed {name} ?T)"
    by (rule lhash_inv_cong [OF hash_okD(1) [OF hash]]) (use nth1 ni in \<open>auto simp: local_hashed_def\<close>)
  obtain A where A: "ghash_inv h A" "\<And>n. A (sp, n) = tree_hashed {name} (is_tree s) n" using hash_okD(2) [OF hash] by blast
  have ny: "ite_name y \<noteq> name" using y(2) names_in_table [OF inv] here by blast
  have fy: "tree_find (is_tree s) (ite_name y) = Some y" using tree_find_iff [OF d(7)] y(2) by simp
  have Ay: "A (sp, ite_name y) = (if snt then Some (ie_object e) else None)"
    using ny fy by (simp add: A(2) tree_hashed_def snt_def e_def)
  define h' where "h' = (if snt then fst (ipc_hash_global_delete h sp s (ie_object e) (ite_name y)) else h)"
  have gh: "ghash_inv h' (A((sp, ite_name y) := None))"
    using ipc_hash_global_delete_correct [OF A(1), of sp "ite_name y" "ie_object e" s] Ay A(1) by (auto simp: h'_def fun_upd_idem)
  define s2 where "s2 = (if snt then s0\<lparr>is_tree_hash := is_tree_hash s - 1\<rparr> else s0)"
  obtain T2 where T2: "(if snt then ipc_hash_local_insert s2 (ie_object e) i else Some s2) = Some (s2\<lparr>is_table := T2\<rparr>)"
      "same_entries T1 T2" "lhash_inv T2 (local_hashed {name} ?T \<union> (if snt then {i} else {}))"
  proof (cases snt)
    case True
    have "is_table s2 = T1" "is_table_size s2 = length T1" by (simp_all add: s2_def s0_def d(1))
    then show ?thesis
      using ipc_hash_local_insert_correct [of s2 "local_hashed {name} ?T" i "ie_object e"] lh ni pos nth1 [OF pos(2)] True that
      by auto
  next
    case False
    then show ?thesis using that [of T1] lh by (simp add: s2_def s0_def)
  qed
  have len2 [simp]: "length T2 = length ?T" using same_entries_length [OF T2(2)] by simp
  note nth2 = same_entries_nth [OF T2(2), unfolded len1]
  define more where "more \<longleftrightarrow> ipc_splay_tree_pick c' \<noteq> None"
  define T' where "T' = (if more then T2[i := (T2 ! i)\<lparr>ie_bits := ie_bits (T2 ! i) OR IE_BITS_COLLISION\<rparr>] else T2)"
  define s' where "s' = s2\<lparr>is_table := T', is_tree_total := is_tree_total s - 1, is_tree := t'\<rparr>"
  have run: "ipc_entry_dealloc_move sp h s i = Some (h', s')"
  proof -
    have "ipc_hash_local_insert (s0\<lparr>is_tree_hash := is_tree_hash s - 1\<rparr>) (ie_object e) i =
        Some (s0\<lparr>is_tree_hash := is_tree_hash s - 1, is_table := T2\<rparr>)" if snt
      using T2(1) that by (simp add: s2_def)
    moreover have "T2 = T1" if "\<not> snt"
      using arg_cong [of _ _ is_table, OF option.inject [THEN iffD1, OF T2(1) [unfolded if_not_P [OF that]]]] that
      by (simp add: s2_def s0_def)
    ultimately have "(if IE_BITS_TYPE (ie_bits (ite_entry y)) = MACH_PORT_TYPE_SEND
        then case ipc_hash_global_delete h sp s0 (ie_object (ite_entry y)) (ite_name y) of
          (h, s) \<Rightarrow> map_option (Pair h) (ipc_hash_local_insert s (ie_object (ite_entry y)) i)
        else Some (h, s0)) = Some (h', s2\<lparr>is_table := T2\<rparr>)"
      using global_delete_fields(1) [of h sp s0 "ie_object e" "ite_name y" s] global_delete_fields(2) [of h sp s0 "ie_object e" "ite_name y"]
      by (simp add: case_prod_unfold e_def [symmetric] snt_def [symmetric] s2_def h'_def) (simp add: s0_def)
    from this [unfolded s0_def T1_def e_def] show ?thesis
      unfolding ipc_entry_dealloc_move_def s1 s2 Let_def prod.case y(1) option.case
      by (simp add: c'(1) [symmetric] s'_def T'_def t'_def more_def s2_def s0_def split: option.split)
  qed
  have nth': "k < length ?T \<Longrightarrow> T' ! k = (if k = i \<and> more then (T2 ! i)\<lparr>ie_bits := ie_bits (T2 ! i) OR IE_BITS_COLLISION\<rparr> else T2 ! k)" for k
    by (simp add: T'_def nth_list_update)
  have len': "length T' = length ?T" by (simp add: T'_def)
  have "names_inv its (P - {name}) s'" "name_map (P - {name}) s' = (name_map P s)(name := None)"
  proof -
    have more: "more \<longleftrightarrow> i \<in> MACH_PORT_INDEX ` ite_name ` set (ist_inorder t')" using c'(2) t'(1) by (simp add: more_def)
    have other: "ie_bits (T' ! k) = ie_bits (?T ! k) \<and> ie_object (T' ! k) = ie_object (?T ! k) \<and> ie_request (T' ! k) = ie_request (?T ! k)"
      if "k < length ?T" "k \<noteq> i" for k
      using nth' [OF that(1)] nth2 [OF that(1)] nth1 [OF that(1)] that(2) by simp
    have moved: "ie_bits (T' ! i) = (let b = ie_bits (ite_entry y) OR MACH_PORT_GEN (ite_name y)
        in if i \<in> MACH_PORT_INDEX ` ite_name ` set (ist_inorder t') then b OR IE_BITS_COLLISION else b)"
      "ie_object (T' ! i) = ie_object (ite_entry y)" "ie_request (T' ! i) = ie_request (ite_entry y)"
      using nth' [OF pos(2)] nth2 [OF pos(2)] nth1 [OF pos(2)] unfolding more [symmetric] by (simp_all add: Let_def e_def)
    have s': "is_table s' = T'" "is_table_size s' = is_table_size s" "is_table_next s' = is_table_next s" "is_tree s' = t'"
      "is_tree_total s' = is_tree_total s - 1" "is_tree_small s' = is_tree_small s"
      by (simp_all add: s'_def s2_def s0_def)
    show "names_inv its (P - {name}) s'" "name_map (P - {name}) s' = (name_map P s)(name := None)"
      by (rule move_space [OF inv i here y(2,3) t' len' other moved s'], assumption+)+
  qed
  moreover have "hash_ok sp {} h' s'"
  proof -
    have "local_hashed {} T' = local_hashed {name} ?T \<union> (if snt then {i} else {})"
    proof (rule set_eqI)
      fix k
      have "IE_BITS_TYPE (ie_bits (T' ! i)) = IE_BITS_TYPE (ie_bits e)"
        using nth' [OF pos(2)] nth2(1) [OF pos(2)] nth1 [OF pos(2)] fields_with_gen(1) [OF tree_okD(3) [OF d(8) y(2)]]
        by (simp add: e_def ie_fields)
      moreover have "ie_bits (T' ! k) = ie_bits (?T ! k)" "MACH_PORT_MAKEB k (ie_bits (?T ! k)) \<noteq> name"
        if "k < length ?T" "k \<noteq> i"
        using nth' [OF that(1)] nth2(1) [OF that(1)] nth1 [OF that(1)] that d(3) INDEX_MAKE [of k]
        by (auto simp: MACH_PORT_MAKEB_def i)
      ultimately show "k \<in> local_hashed {} T' \<longleftrightarrow> k \<in> local_hashed {name} ?T \<union> (if snt then {i} else {})"
        using pos mk by (cases "k = i") (auto simp: local_hashed_def snt_def len')
    qed
    moreover have "lhash_inv T' (local_hashed {name} ?T \<union> (if snt then {i} else {}))"
      by (rule lhash_inv_cong [OF T2(3)]) (use nth' pos in \<open>auto simp: len' local_hashed_def split: if_splits\<close>)
    moreover have th: "tree_hashed {} t' = (tree_hashed {name} (is_tree s))(ite_name y := None)"
    proof (rule ext)
      fix n
      have "tree_find t' n = (if n = ite_name y then None else tree_find (is_tree s) n)"
        by (rule tree_find_filter) (use t' d(7) in simp_all)
      moreover have "tree_find (is_tree s) name = None" using names_in_table [OF inv] here by (auto simp: tree_find_set(2))
      ultimately show "tree_hashed {} t' n = ((tree_hashed {name} (is_tree s))(ite_name y := None)) n"
        by (auto simp: tree_hashed_def split: option.split)
    qed
    moreover have "is_tree_hash s' = card (dom (tree_hashed {} t'))"
      using card_dom_remove [OF th] hash_okD(3) [OF hash] Ay A(2) [of "ite_name y"] by (auto simp: s'_def s2_def s0_def dom_def)
    ultimately show ?thesis
      using gh A(2) unfolding hash_ok_def
      by (auto simp: s'_def intro!: exI [of _ "A((sp, ite_name y) := None)"])
  qed
  moreover have "is_active s' = is_active s" by (simp add: s'_def s2_def s0_def)
  ultimately show ?thesis using run that by blast
qed

section \<open>A fresh space\<close>

lemma init_chain:
  assumes "i < n" "T = ipc_space_init_table n"
  shows "free_chain T i [Suc i..<n]"
  using assms
proof (induction "n - i" arbitrary: i)
  case (Suc m)
  have req: "ie_request (T ! i) = (if i = n - 1 then 0 else i + 1)" using Suc.prems by (simp add: ipc_space_init_table_def)
  show ?case
  proof (cases "i = n - 1")
    case False
    then have "[Suc i..<n] = Suc i # [Suc (Suc i)..<n]" "Suc i < n" using Suc.prems by (simp_all add: upt_conv_Cons)
    then show ?thesis using req Suc.hyps(1) [of "Suc i"] Suc.hyps(2) Suc.prems(2) False by simp
  qed (use req Suc.prems in simp)
qed simp

lemma space_create_names:
  assumes "ipc_space_create its True True initial = Inr s" "0 < its ! initial" "its ! initial < 2 ^ 24 - 1"
  shows "names_inv its {} s" "name_map {} s = Map.empty" "is_tree_hash s = 0" "\<And>Q t. local_hashed Q (is_table s) = {}"
    "lhash_inv (is_table s) {}" "\<And>Q. tree_hashed Q (is_tree s) = Map.empty"
proof -
  let ?n = "its ! initial"
  have s: "is_table s = ipc_space_init_table ?n" "is_table_size s = ?n" "is_table_next s = initial + 1"
    "is_tree s = ipc_splay_tree_init ist_fresh" "is_tree_total s = 0" "is_tree_small s = 0" "is_tree_hash s = 0"
    using assms(1) by (auto simp: ipc_space_create_def Let_def)
  have nth: "ie_bits (is_table s ! k) = IE_BITS_GEN_MASK" "ie_object (is_table s ! k) = 0" "ie_index (is_table s ! k) = 0"
    if "k < ?n" for k using that by (simp_all add: s ipc_space_init_table_def)
  have len: "length (is_table s) = ?n" by (simp add: s ipc_space_init_table_def)
  have used: "\<not> used (is_table s) {} k" for k using nth(1) [of k] by (auto simp: used_def len fields_GEN_MASK)
  have tree: "ist_inorder (is_tree s) = []" "ist_inv (is_tree s)"
    by (simp_all add: s ipc_splay_tree_init_def ist_inorder_def ist_inv_def)
  have "free_ok (is_table s) {} [1..<?n]"
    unfolding free_ok_def
  proof (intro conjI ballI)
    show "free_chain (is_table s) 0 [1..<?n]" using init_chain [of 0 ?n "is_table s"] assms(2) by (simp add: s)
  qed (auto simp: used nth len)
  then show inv: "names_inv its {} s"
    unfolding names_inv_def tree
    using assms(2,3) nth [of 0] by (auto simp: len s(2,3,5,6) tree tree_ok_def small_indices_def nth fields_GEN_MASK)
  have find: "tree_find (is_tree s) n = None" for n by (simp add: tree_find_def tree)
  show "name_map {} s = Map.empty" by (simp add: name_map_def in_table_def used find fun_eq_iff)
  show "local_hashed Q (is_table s) = {}" for Q using nth by (auto simp: local_hashed_def len fields_GEN_MASK)
  show "lhash_inv (is_table s) {}" using assms(2) nth(3) by (auto simp: lhash_inv_def len)
  show "tree_hashed Q (is_tree s) = Map.empty" for Q by (simp add: tree_hashed_def find fun_eq_iff)
qed (use assms(1) in \<open>auto simp: ipc_space_create_def Let_def\<close>)

lemma entry_get_hash:
  assumes inv: "names_inv its P s" and hash: "hash_ok sp Q h s" and run: "ipc_entry_get s = Inr (name, e, s')"
  shows "hash_ok sp Q h s'"
proof -
  let ?T = "is_table s" and ?j = "ie_request (is_table s ! 0)"
  obtain fl where fl: "free_chain ?T 0 fl" "set fl = {i. 0 < i \<and> i < length ?T \<and> \<not> used ?T P i}"
    "\<And>i. i \<in> set fl \<Longrightarrow> gen_only (ie_bits (?T ! i)) \<and> ie_object (?T ! i) = 0"
    by (rule names_inv_free [OF inv]) (rule that)
  have "?j \<noteq> 0" using run by (auto simp: ipc_entry_get_def Let_def split: if_splits)
  then have "?j \<in> set fl" using fl(1) by (cases fl) auto
  then have j: "0 < ?j" "?j < length ?T" "gen_only (ie_bits (?T ! ?j))" using fl(2,3) by auto
  define T' where "T' = is_table s'"
  have s': "s' = s\<lparr>is_table := T'\<rparr>" and T': "T' = ?T[0 := (?T ! 0)\<lparr>ie_request := ie_request (?T ! ?j)\<rparr>,
      ?j := (?T ! ?j)\<lparr>ie_bits := ie_bits (?T ! ?j) + IE_BITS_GEN_ONE, ie_request := 0\<rparr>]"
    using run j(1) by (auto simp: ipc_entry_get_def Let_def T'_def split: if_splits)
  have len: "length T' = length ?T" by (simp add: T')
  have bits: "ie_bits (T' ! k) = (if k = ?j then ie_bits (?T ! ?j) + IE_BITS_GEN_ONE else ie_bits (?T ! k))"
    and same: "ie_object (T' ! k) = ie_object (?T ! k)" "ie_index (T' ! k) = ie_index (?T ! k)" if "k < length ?T" for k
    using j(1,2) that by (cases "k = 0"; auto simp: T' nth_list_update)+
  have types: "IE_BITS_TYPE (ie_bits (?T ! ?j)) = 0" "IE_BITS_TYPE (ie_bits (?T ! ?j) + IE_BITS_GEN_ONE) = 0"
    using gen_onlyD(1) [OF j(3)] gen_onlyD(1) [OF gen_only_next [OF j(3)]] by simp_all
  have "local_hashed Q T' = local_hashed Q ?T"
  proof (rule set_eqI)
    fix k
    show "k \<in> local_hashed Q T' \<longleftrightarrow> k \<in> local_hashed Q ?T"
      using bits [of k] types by (cases "k = ?j") (auto simp: local_hashed_def len)
  qed
  moreover have "lhash_inv T' (local_hashed Q ?T)"
    by (rule lhash_inv_cong [OF hash_okD(1) [OF hash] len]) (use same in \<open>auto simp: local_hashed_def\<close>)
  ultimately show ?thesis using hash by (simp add: hash_ok_def s')
qed

section \<open>Writing to an entry\<close>

text \<open>
  Storing a right in an entry: the generation and the collision bit stay, and the entry has
  a type afterwards.
\<close>

definition stores_right :: "ipc_entry \<Rightarrow> ipc_entry \<Rightarrow> bool" where
  "stores_right x x' \<longleftrightarrow>
     IE_BITS_GEN (ie_bits x') = IE_BITS_GEN (ie_bits x) \<and> bit (ie_bits x') 23 = bit (ie_bits x) 23 \<and>
     IE_BITS_TYPE (ie_bits x') \<noteq> 0 \<and>
     (ie_bits x AND IE_BITS_RIGHT_MASK = ie_bits x \<longrightarrow> ie_bits x' AND IE_BITS_RIGHT_MASK = ie_bits x')"

lemma table_change:
  assumes inv: "names_inv its P s" and len: "length T' = length (is_table s)" and used: "\<And>k. used T' P' k \<longleftrightarrow> used (is_table s) P k"
    and bits: "\<And>k. k < length (is_table s) \<Longrightarrow> IE_BITS_GEN (ie_bits (T' ! k)) = IE_BITS_GEN (ie_bits (is_table s ! k)) \<and>
      bit (ie_bits (T' ! k)) 23 = bit (ie_bits (is_table s ! k)) 23"
    and free: "\<And>k. k < length (is_table s) \<Longrightarrow> \<not> used (is_table s) P k \<Longrightarrow> T' ! k = is_table s ! k"
    and P': "P' \<subseteq> P" "\<And>y. y \<in> set (ist_inorder (is_tree s)) \<Longrightarrow> ite_name y \<notin> P - P'"
  shows "names_inv its P' (s\<lparr>is_table := T'\<rparr>)" "in_table T' P' n \<longleftrightarrow> in_table (is_table s) P n"
proof -
  let ?T = "is_table s" and ?xs = "ist_inorder (is_tree s)"
  note d = names_invD [OF inv]
  have in_table: "in_table T' P' n \<longleftrightarrow> in_table ?T P n" for n
    using used [of "MACH_PORT_INDEX n"] bits [of "MACH_PORT_INDEX n"] by (auto simp: in_table_def dest: usedD)
  then show "in_table T' P' n \<longleftrightarrow> in_table ?T P n" .
  have tree: "tree_ok T' P' ?xs"
    unfolding tree_ok_def len used
  proof (intro conjI allI ballI impI)
    show "bit (ie_bits (T' ! k)) 23 \<longleftrightarrow> k \<in> MACH_PORT_INDEX ` ite_name ` set ?xs" if "k < length ?T" for k
      using d(8) bits [OF that] that unfolding tree_ok_def by simp
    fix y assume y: "y \<in> set ?xs"
    show "used ?T P (MACH_PORT_INDEX (ite_name y))" "IE_BITS_GEN (ie_bits (T' ! MACH_PORT_INDEX (ite_name y))) \<noteq> MACH_PORT_GEN (ite_name y)"
      if "0 < MACH_PORT_INDEX (ite_name y)" "MACH_PORT_INDEX (ite_name y) < length ?T"
      using tree_okD(2) [OF d(8) y that] bits [OF that(2)] by simp_all
    show "ie_bits (ite_entry y) AND IE_BITS_RIGHT_MASK = ie_bits (ite_entry y)" "MACH_PORT_VALID (ite_name y)"
      "IE_BITS_TYPE (ie_bits (ite_entry y)) \<noteq> 0 \<or> ite_name y \<in> P'"
      using tree_okD(3-5) [OF d(8) y] P'(2) [OF y] by blast+
  qed
  have zero: "T' ! 0 = ?T ! 0" using free [OF d(2)] usedD [of ?T P 0] by blast
  show "names_inv its P' (s\<lparr>is_table := T'\<rparr>)"
    unfolding names_inv_def
  proof (intro conjI ballI)
    obtain fl where fl: "free_ok ?T P fl" using inv by (auto simp: names_inv_def)
    have "free_ok T' P' fl"
      by (rule free_ok_cong [OF fl len used _ _ d(2)]) (simp_all add: free)
    then show "\<exists>fl. free_ok (is_table (s\<lparr>is_table := T'\<rparr>)) P' fl" by auto
    show "in_table (is_table (s\<lparr>is_table := T'\<rparr>)) P' n \<or> n \<in> ite_name ` set (ist_inorder (is_tree (s\<lparr>is_table := T'\<rparr>)))"
      if "n \<in> P'" for n using d(4) [of n] that in_table [of n] P'(1) by auto
  qed (use tree d zero len in simp_all)
qed

lemma update_table:
  assumes inv: "names_inv its P s" and i: "i = MACH_PORT_INDEX name" and here: "in_table (is_table s) P name"
    and ok: "stores_right (is_table s ! i) x"
  shows "names_inv its (P - {name}) (s\<lparr>is_table := (is_table s)[i := x]\<rparr>)"
    "name_map (P - {name}) (s\<lparr>is_table := (is_table s)[i := x]\<rparr>) = (name_map P s)(name \<mapsto> content x)"
proof -
  let ?T = "is_table s"
  define T' where "T' = ?T[i := x]"
  note d = names_invD [OF inv]
  have pos: "0 < i" "i < length ?T" "used ?T P i" using here by (auto simp: in_table_def used_def i)
  have gen: "IE_BITS_GEN (ie_bits (?T ! i)) = MACH_PORT_GEN name" using here by (simp add: in_table_def i)
  have ok': "IE_BITS_GEN (ie_bits x) = IE_BITS_GEN (ie_bits (?T ! i))" "bit (ie_bits x) 23 = bit (ie_bits (?T ! i)) 23"
    "IE_BITS_TYPE (ie_bits x) \<noteq> 0" using ok by (simp_all add: stores_right_def)
  have len: "length T' = length ?T" by (simp add: T'_def)
  have nth: "T' ! k = (if k = i then x else ?T ! k)" for k using pos(2) by (simp add: T'_def nth_list_update)
  have other_name: "MACH_PORT_MAKEB k b \<noteq> name" if "k < length ?T" "k \<noteq> i" for k b
    using that d(3) INDEX_MAKE [of k] by (auto simp: MACH_PORT_MAKEB_def i)
  have used: "used T' (P - {name}) k \<longleftrightarrow> used ?T P k" for k
    using pos ok'(3) other_name [of k] by (cases "k = i") (auto simp: used_def len nth)
  have bits: "IE_BITS_GEN (ie_bits (T' ! k)) = IE_BITS_GEN (ie_bits (?T ! k)) \<and> bit (ie_bits (T' ! k)) 23 = bit (ie_bits (?T ! k)) 23" for k
    using ok'(1,2) by (simp add: nth)
  have free: "T' ! k = ?T ! k" if "k < length ?T" "\<not> used ?T P k" for k using that pos(3) by (auto simp: nth)
  have nt: "ite_name y \<notin> P - (P - {name})" if "y \<in> set (ist_inorder (is_tree s))" for y using names_in_table [OF inv that] here by auto
  note c = table_change [OF inv len used bits free _ nt, simplified]
  show "names_inv its (P - {name}) (s\<lparr>is_table := (is_table s)[i := x]\<rparr>)" using c(1) by (auto simp: T'_def)
  have "name_map (P - {name}) (s\<lparr>is_table := T'\<rparr>) n = ((name_map P s)(name \<mapsto> content x)) n" for n
  proof (cases "MACH_PORT_INDEX n = i")
    case True
    then have "in_table ?T P n \<longleftrightarrow> n = name" using here gen by (auto simp: in_table_def name_eq_iff [of n] i)
    then show ?thesis using c(2) [of n] True i by (simp add: name_map_def nth)
  next
    case False
    then show ?thesis using c(2) [of n] i by (auto simp: name_map_def nth)
  qed
  then show "name_map (P - {name}) (s\<lparr>is_table := (is_table s)[i := x]\<rparr>) = (name_map P s)(name \<mapsto> content x)"
    by (simp add: fun_eq_iff T'_def)
qed

lemma update_tree:
  assumes inv: "names_inv its P s" and here: "tree_find (is_tree s) name = Some y"
    and ok: "stores_right (ite_entry y) (f (ite_entry y))"
  shows "names_inv its (P - {name}) (s\<lparr>is_tree := tree_update (is_tree s) name f\<rparr>)"
    "name_map (P - {name}) (s\<lparr>is_tree := tree_update (is_tree s) name f\<rparr>) = (name_map P s)(name \<mapsto> content (f (ite_entry y)))"
proof -
  let ?T = "is_table s" and ?P = "P - {name}" and ?xs = "ist_inorder (is_tree s)"
  note d = names_invD [OF inv]
  have y: "y \<in> set ?xs" "ite_name y = name" using tree_find_set(1) [OF here] by auto
  have not_table: "\<not> in_table ?T P name" using names_in_table [OF inv y(1)] y(2) by simp
  have uniq: "z = y" if "z \<in> set ?xs" "ite_name z = name" for z
    using here that tree_find_iff [OF d(7), of name z] by simp
  have used: "used ?T ?P k \<longleftrightarrow> used ?T P k" for k
    using makeb_not [OF inv not_table, of k] by (auto simp: used_def)
  have in_table: "in_table ?T ?P n \<longleftrightarrow> in_table ?T P n" for n by (simp add: in_table_def used)
  have names: "ite_name ` set (map (ite_modify name f) ?xs) = ite_name ` set ?xs" by (simp add: image_image)
  have tree: "tree_ok ?T ?P (map (ite_modify name f) ?xs)"
    unfolding tree_ok_def used names
  proof (intro conjI allI ballI impI)
    fix z assume "z \<in> set (map (ite_modify name f) ?xs)"
    then obtain z0 where z0: "z0 \<in> set ?xs" "z = ite_modify name f z0" by auto
    show "used ?T P (MACH_PORT_INDEX (ite_name z))" "IE_BITS_GEN (ie_bits (?T ! MACH_PORT_INDEX (ite_name z))) \<noteq> MACH_PORT_GEN (ite_name z)"
      if "0 < MACH_PORT_INDEX (ite_name z)" "MACH_PORT_INDEX (ite_name z) < length ?T"
      using tree_okD(2) [OF d(8) z0(1)] that z0(2) by simp_all
    show "MACH_PORT_VALID (ite_name z)" using tree_okD(4) [OF d(8) z0(1)] z0(2) by simp
    show "ie_bits (ite_entry z) AND IE_BITS_RIGHT_MASK = ie_bits (ite_entry z)"
        "IE_BITS_TYPE (ie_bits (ite_entry z)) \<noteq> 0 \<or> ite_name z \<in> ?P"
      using tree_okD(3,5) [OF d(8) z0(1)] z0 uniq [OF z0(1)] ok by (auto simp: ite_modify_def stores_right_def)
  qed (use d(8) in \<open>simp add: tree_ok_def\<close>)
  show "names_inv its ?P (s\<lparr>is_tree := tree_update (is_tree s) name f\<rparr>)"
    unfolding names_inv_def
  proof (intro conjI ballI)
    obtain fl where "free_ok ?T P fl" using inv by (auto simp: names_inv_def)
    then have "free_ok ?T ?P fl" by (simp add: free_ok_def used)
    then show "\<exists>fl. free_ok (is_table (s\<lparr>is_tree := tree_update (is_tree s) name f\<rparr>)) ?P fl" by auto
    show "in_table (is_table (s\<lparr>is_tree := tree_update (is_tree s) name f\<rparr>)) ?P n \<or>
        n \<in> ite_name ` set (ist_inorder (is_tree (s\<lparr>is_tree := tree_update (is_tree s) name f\<rparr>)))" if "n \<in> ?P" for n
      using d(4) [of n] that in_table [of n] names by simp
    show "is_tree_small (s\<lparr>is_tree := tree_update (is_tree s) name f\<rparr>) =
        card (small_indices (length (is_table (s\<lparr>is_tree := tree_update (is_tree s) name f\<rparr>)))
          (its ! is_table_next (s\<lparr>is_tree := tree_update (is_tree s) name f\<rparr>)) (ist_inorder (is_tree (s\<lparr>is_tree := tree_update (is_tree s) name f\<rparr>))))"
      using d(10) names by (simp add: small_indices_def)
  qed (use tree d in simp_all)
  have "name_map ?P (s\<lparr>is_tree := tree_update (is_tree s) name f\<rparr>) n = ((name_map P s)(name \<mapsto> content (f (ite_entry y)))) n" for n
    using in_table [of n] not_table here tree_find_set(1) [of "is_tree s" n]
    by (cases "tree_find (is_tree s) n") (auto simp: name_map_def ite_modify_def)
  then show "name_map ?P (s\<lparr>is_tree := tree_update (is_tree s) name f\<rparr>) = (name_map P s)(name \<mapsto> content (f (ite_entry y)))"
    by (rule ext)
qed

lemma entry_update_correct:
  assumes "names_inv its P s" "name_ptr P s name = Some e" "entry_at s e = Some x" "stores_right x (f x)"
  shows "names_inv its (P - {name}) (entry_update s e f)"
    "name_map (P - {name}) (entry_update s e f) = (name_map P s)(name \<mapsto> content (f x))"
proof -
  have "names_inv its (P - {name}) (entry_update s e f) \<and>
    name_map (P - {name}) (entry_update s e f) = (name_map P s)(name \<mapsto> content (f x))"
  proof (cases "in_table (is_table s) P name")
    case True
    then show ?thesis using assms update_table [OF assms(1) refl True, of "f x"]
      by (auto simp: name_ptr_def split: if_splits)
  next
    case False
    then obtain y where "tree_find (is_tree s) name = Some y" "e = TreeEntry name"
      using assms(2) by (auto simp: name_ptr_def)
    then show ?thesis using assms update_tree [OF assms(1), of name y f] by auto
  qed
  then show "names_inv its (P - {name}) (entry_update s e f)"
    "name_map (P - {name}) (entry_update s e f) = (name_map P s)(name \<mapsto> content (f x))" by blast+
qed

section \<open>Looking up and deallocating refine the map of names\<close>

text \<open>Samples: a fresh space with four entries, the space with one entry taken, and with a right stored in it.\<close>

definition sample_fresh :: ipc_space where
  "sample_fresh = projr (ipc_space_create [4, 8, 8] True True 0)"

definition sample_taken :: ipc_space where
  "sample_taken = snd (snd (projr (ipc_entry_get sample_fresh)))"

definition sample_right :: "ipc_entry \<Rightarrow> ipc_entry" where
  "sample_right x = x\<lparr>ie_bits := ie_bits x OR MACH_PORT_TYPE_RECEIVE, ie_object := 7\<rparr>"

definition sample_named :: ipc_space where
  "sample_named = entry_update sample_taken (TableEntry 1) sample_right"

lemma sample_fresh_names:
  "names_inv [4, 8, 8] {} sample_fresh" "name_map {} sample_fresh = Map.empty" "hash_ok sp Q [[]] sample_fresh"
proof -
  have c: "ipc_space_create [4, 8, 8] True True 0 = Inr sample_fresh"
    by (simp add: sample_fresh_def ipc_space_create_def Let_def)
  note f = space_create_names [OF c]
  show "names_inv [4, 8, 8] {} sample_fresh" "name_map {} sample_fresh = Map.empty" using f(1,2) by simp_all
  have "ghash_inv [[]] Map.empty" unfolding ghash_inv_def by (auto intro!: exI [of _ 0])
  then show "hash_ok sp Q [[]] sample_fresh"
    using f(3-6) unfolding hash_ok_def by (auto intro!: exI [of _ Map.empty])
qed

lemma sample_get: "ipc_entry_get sample_fresh = Inr (256, TableEntry 1, sample_taken)"
  unfolding sample_taken_def by (simp add: sample_fresh_def ipc_space_create_def ipc_space_init_table_def ipc_entry_get_def Let_def
      MACH_PORT_MAKE_def IE_BITS_GEN_MASK_def IE_BITS_GEN_ONE_def upt_rec)

lemma sample_taken_names:
  "names_inv [4, 8, 8] {256} sample_taken" "hash_ok sp Q [[]] sample_taken"
  "name_map {256} sample_taken = [256 \<mapsto> (0, 0, 0)]" "name_ptr {256} sample_taken 256 = Some (TableEntry 1)"
proof -
  note g = entry_get_correct [OF sample_fresh_names(1), unfolded sample_get sum.case prod.case]
  show "names_inv [4, 8, 8] {256} sample_taken" "name_map {256} sample_taken = [256 \<mapsto> (0, 0, 0)]"
    using g sample_fresh_names(2) by simp_all
  then have "in_table (is_table sample_taken) {256} 256 \<or> tree_find (is_tree sample_taken) 256 \<noteq> None"
    by (auto simp: name_map_def fun_eq_iff split: if_splits dest: spec [of _ 256])
  moreover have "tree_find (is_tree sample_taken) 256 = None"
    by (simp add: sample_taken_def sample_fresh_def ipc_space_create_def ipc_space_init_table_def ipc_entry_get_def Let_def
        tree_find_def ist_inorder_def ipc_splay_tree_init_def upt_rec)
  ultimately show "name_ptr {256} sample_taken 256 = Some (TableEntry 1)"
    by (simp add: name_ptr_def MACH_PORT_INDEX_def)
  show "hash_ok sp Q [[]] sample_taken" by (rule entry_get_hash [OF sample_fresh_names(1,3) sample_get])
qed

lemma sample_entry: "entry_at sample_taken (TableEntry 1) = Some \<lparr>ie_bits = 0, ie_object = 0, ie_request = 0, ie_index = 0\<rparr>"
  by (simp add: sample_taken_def sample_fresh_def ipc_space_create_def ipc_space_init_table_def ipc_entry_get_def Let_def
      IE_BITS_GEN_MASK_def IE_BITS_GEN_ONE_def upt_rec)

lemma sample_named_names:
  "names_inv [4, 8, 8] {} sample_named" "name_map {} sample_named = [256 \<mapsto> (MACH_PORT_TYPE_RECEIVE, 7, 0)]"
proof -
  have st: "stores_right \<lparr>ie_bits = 0, ie_object = 0, ie_request = 0, ie_index = 0\<rparr> (sample_right \<lparr>ie_bits = 0, ie_object = 0, ie_request = 0, ie_index = 0\<rparr>)"
    by (simp add: stores_right_def sample_right_def field_defs IE_BITS_GEN_MASK_def IE_BITS_TYPE_MASK_def IE_BITS_RIGHT_MASK_def
        MACH_PORT_TYPE_RECEIVE_def)
  note u = entry_update_correct [OF sample_taken_names(1,4) sample_entry, where f = sample_right, OF st]
  show "names_inv [4, 8, 8] {} sample_named" using u(1) by (simp add: sample_named_def)
  show "name_map {} sample_named = [256 \<mapsto> (MACH_PORT_TYPE_RECEIVE, 7, 0)]"
    using u(2) by (simp add: sample_named_def sample_taken_names(3) content_def sample_right_def IE_BITS_RIGHT_MASK_def MACH_PORT_TYPE_RECEIVE_def)
qed



lemma entry_get_ptr:
  assumes "names_inv its P s" "ipc_entry_get s = Inr (name, e, s')"
  shows "name_ptr (insert name P) s' name = Some e"
proof -
  note g = entry_get_correct [OF assms(1), unfolded assms(2) sum.case prod.case]
  have "tree_find (is_tree s) name = None" using g by (auto simp: name_map_def split: if_splits)
  moreover have "is_tree s' = is_tree s" using assms(2) by (auto simp: ipc_entry_get_def Let_def split: if_splits)
  ultimately have "tree_find (is_tree s') name = None" by simp
  moreover have "name_ptr (insert name P) s' name \<noteq> None" using g by (simp add: name_ptr_None)
  ultimately show ?thesis using g by (auto simp: name_ptr_def split: if_splits)
qed

text \<open>C8: Taking an entry from the free list gives a valid name that the space did not have, adds exactly this name to the
  map, with no right yet, and keeps the invariant; it fails only when every entry of the
  table is in use, and then with KERN_NO_SPACE.
\<close>

theorem entry_get_refines:
  assumes "names_inv its P s"
  shows "case ipc_entry_get s of
      Inl kr \<Rightarrow> kr = KERN_NO_SPACE \<and> (\<forall>i. 0 < i \<longrightarrow> i < is_table_size s \<longrightarrow> used (is_table s) P i)
    | Inr (name, e, s') \<Rightarrow>
        MACH_PORT_VALID name \<and> name_map P s name = None \<and> names_inv its (insert name P) s' \<and>
        name_map (insert name P) s' = (name_map P s)(name \<mapsto> (0, 0, 0)) \<and> name_ptr (insert name P) s' name = Some e"
proof (cases "ipc_entry_get s")
  case (Inl kr)
  then show ?thesis using entry_get_correct [OF assms] names_invD(1) [OF assms] by simp
next
  case (Inr r)
  obtain name e s' where "r = (name, e, s')" by (cases r)
  then show ?thesis using entry_get_correct [OF assms] entry_get_ptr [OF assms, of name e s'] Inr by simp
qed

theorem entry_get_refines_witness:
  "\<exists>name e s'. ipc_entry_get sample_fresh = Inr (name, e, s') \<and> name_map {name} s' = [name \<mapsto> (0, 0, 0)]"
  using entry_get_refines [OF sample_fresh_names(1)] by (simp add: sample_get sample_fresh_names(2))

text \<open>C6: Deallocating the entry of a name removes exactly that name from the map of the space, whether the entry is in the table,
  alone or with colliding tree entries, of which one then moves into the table, or in the tree; the routine
  does not panic, and it keeps the invariant of the space and of the reverse hash tables.
\<close>

theorem entry_dealloc_refines:
  assumes "names_inv its P s" "hash_ok sp {name} h s" "name_ptr P s name = Some e"
    "map_option ie_object (entry_at s e) = Some 0"
  shows "\<exists>h' s'. ipc_entry_dealloc its sp h s name e = Some (h', s') \<and> names_inv its (P - {name}) s' \<and>
    hash_ok sp {} h' s' \<and> name_map (P - {name}) s' = (name_map P s)(name := None)"
proof (cases "in_table (is_table s) P name")
  case True
  define i where "i = MACH_PORT_INDEX name"
  have e: "e = TableEntry i" "i < is_table_size s" and obj: "ie_object (is_table s ! i) = 0"
    using assms(3,4) True names_invD(1) [OF assms(1)] by (auto simp: name_ptr_def i_def in_table_def dest: usedD)
  show ?thesis
  proof (cases "bit (ie_bits (is_table s ! i)) 23")
    case coll: True
    obtain h' s' where "ipc_entry_dealloc_move sp h s i = Some (h', s')" "names_inv its (P - {name}) s'"
      "hash_ok sp {} h' s'" "name_map (P - {name}) s' = (name_map P s)(name := None)"
      by (rule dealloc_move [OF assms(1,2) i_def True coll])
    then show ?thesis using e coll by (auto simp: ipc_entry_dealloc_def Let_def i_def COLLISION_iff)
  next
    case False
    note f = dealloc_free [OF assms(1,2) i_def True obj False _ refl]
    then show ?thesis using e False COLLISION_iff [of "ie_bits (is_table s ! i)"] usedD [of "is_table s" P i] True
      by (auto simp: ipc_entry_dealloc_def Let_def i_def [symmetric] in_table_def)
  qed
next
  case False
  then have "name \<in> tree_names s" "e = TreeEntry name"
    using assms(3) tree_find_set(2) [of "is_tree s" name] by (auto simp: name_ptr_def)
  then show ?thesis using dealloc_tree [OF assms(1,2)] by auto
qed

theorem entry_dealloc_refines_witness:
  "\<exists>h' s'. ipc_entry_dealloc [4, 8, 8] 9 [[]] sample_taken 256 (TableEntry 1) = Some (h', s') \<and> name_map {} s' = Map.empty"
proof -
  have "map_option ie_object (entry_at sample_taken (TableEntry 1)) = Some 0" unfolding sample_entry by simp
  from entry_dealloc_refines [OF sample_taken_names(1) sample_taken_names(2) [of 9] sample_taken_names(4) this]
  show ?thesis using sample_taken_names(3) by auto
qed

text \<open>The excluded name: allocating an entry for it in a fresh space, storing a right, and looking it up.\<close>

definition lost_name :: "ipc_entry_ptr option \<times> ipc_entry_ptr option" where
  "lost_name =
     (case ipc_entry_alloc_name 3 [4, 8, 8] 9 False [[]] sample_fresh 255 [] of
        Some (Inr e, (h, s), ws) \<Rightarrow> (Some e, fst (ipc_entry_lookup (entry_update s e sample_right) 255))
      | _ \<Rightarrow> (None, None))"


end
