(* ===== verification/Ipc_State.thy ===== *)
theory Ipc_State
  imports Ipc_Entry
begin

text \<open>
  The objects of the communication system and the state of the whole: ports, port sets,
  kernel messages, message queues, the threads waiting on them, and msg-accepted requests
  (\<^verbatim>\<open>src/ipc/ipc_object.h\<close>, \<^verbatim>\<open>ipc_port.h\<close>, \<^verbatim>\<open>ipc_pset.h\<close>, \<^verbatim>\<open>ipc_mqueue.h\<close>, \<^verbatim>\<open>ipc_marequest.h\<close>).

  A pointer is a 32-bit word; the state has a map from pointers to structures for each
  kind of structure.  Reading through a pointer to nothing, a panic, and a loop that
  does not end all give \<open>None\<close>.  Locks are not modelled: a routine runs without
  interference, except where it says that it gives up its locks.

  The results of the allocators are part of the state: \<open>ks_zalloc\<close> lists the addresses
  that the next allocations return, \<open>0\<close> being a failure and an empty list standing for
  exhausted memory.  Calls of parts of the kernel that are not modelled (delivery and
  destruction of messages, waking threads, kernel objects) are recorded in order in
  \<open>ks_effects\<close>.

  Counts of references and rights are natural numbers; make-send counts, sequence numbers
  and timestamps wrap around.
\<close>

section \<open>Kernel messages\<close>

text \<open>
  A descriptor of a complex message; the constructor is its \<open>type\<close> field.
\<close>

datatype mach_msg_descriptor =
    MACH_MSG_PORT_DESCRIPTOR u32 u32          \<comment> \<open>name, disposition\<close>
  | MACH_MSG_OOL_DESCRIPTOR ptr u32 u32       \<comment> \<open>address, size, copy\<close>
  | MACH_MSG_OOL_PORTS_DESCRIPTOR ptr u32 u32 u32   \<comment> \<open>address, count, copy, disposition\<close>

text \<open>
  The body of a message: nothing of interest, the descriptors of a complex message, the
  name or the count of a notification, or the one typed item of an old notification
  (its \<open>msgt_name\<close> and value).
\<close>

datatype ikm_body =
    NoBody
  | Descriptors "mach_msg_descriptor list"
  | NotPort mach_port_t
  | NotCount u32
  | NotCompat u32 u32

text \<open>A kernel message buffer; the links are left out, queues being lists.\<close>

record ipc_kmsg =
  ikm_size :: u32
  ikm_marequest :: ptr
  ikm_sender :: "u32 \<times> u32"
  ikm_delta :: int
  msgh_bits :: u32
  msgh_size :: u32
  msgh_remote_port :: ptr
  msgh_local_port :: ptr
  msgh_reserved :: u32
  msgh_id :: u32
  ikm_body :: ikm_body

definition MACH_MSGH_BITS_COMPLEX :: u32 where "MACH_MSGH_BITS_COMPLEX = 0x80000000"
definition MACH_MSGH_BITS_CIRCULAR :: u32 where "MACH_MSGH_BITS_CIRCULAR = 0x40000000"
definition MACH_MSGH_BITS_OLD_FORMAT :: u32 where "MACH_MSGH_BITS_OLD_FORMAT = 0x08000000"

definition MACH_MSGH_BITS :: "u32 \<Rightarrow> u32 \<Rightarrow> u32" where
  "MACH_MSGH_BITS remote local = remote OR push_bit 8 local"

definition MACH_MSGH_BITS_REMOTE :: "u32 \<Rightarrow> u32" where
  "MACH_MSGH_BITS_REMOTE bits = bits AND 0xff"

definition MACH_MSG_TYPE_PORT_NAME :: u32 where "MACH_MSG_TYPE_PORT_NAME = 15"
definition MACH_MSG_TYPE_MOVE_RECEIVE :: u32 where "MACH_MSG_TYPE_MOVE_RECEIVE = 16"
definition MACH_MSG_TYPE_MOVE_SEND :: u32 where "MACH_MSG_TYPE_MOVE_SEND = 17"
definition MACH_MSG_TYPE_MOVE_SEND_ONCE :: u32 where "MACH_MSG_TYPE_MOVE_SEND_ONCE = 18"
definition MACH_MSG_TYPE_COPY_SEND :: u32 where "MACH_MSG_TYPE_COPY_SEND = 19"
definition MACH_MSG_TYPE_MAKE_SEND :: u32 where "MACH_MSG_TYPE_MAKE_SEND = 20"
definition MACH_MSG_TYPE_MAKE_SEND_ONCE :: u32 where "MACH_MSG_TYPE_MAKE_SEND_ONCE = 21"

abbreviation MACH_MSG_TYPE_PORT_RECEIVE :: u32 where
  "MACH_MSG_TYPE_PORT_RECEIVE \<equiv> MACH_MSG_TYPE_MOVE_RECEIVE"
abbreviation MACH_MSG_TYPE_PORT_SEND :: u32 where
  "MACH_MSG_TYPE_PORT_SEND \<equiv> MACH_MSG_TYPE_MOVE_SEND"
abbreviation MACH_MSG_TYPE_PORT_SEND_ONCE :: u32 where
  "MACH_MSG_TYPE_PORT_SEND_ONCE \<equiv> MACH_MSG_TYPE_MOVE_SEND_ONCE"

definition MSG_TYPE_PORT_ALL :: u32 where "MSG_TYPE_PORT_ALL = 5"
definition MSG_TYPE_PORT :: u32 where "MSG_TYPE_PORT = 6"

definition MACH_MSG_SUCCESS :: u32 where "MACH_MSG_SUCCESS = 0"
definition MACH_MSG_IPC_KERNEL :: u32 where "MACH_MSG_IPC_KERNEL = 0x00000800"
definition MACH_MSG_VM_KERNEL :: u32 where "MACH_MSG_VM_KERNEL = 0x00000400"
definition MACH_SEND_IN_PROGRESS :: u32 where "MACH_SEND_IN_PROGRESS = 0x10000001"
definition MACH_SEND_INVALID_DEST :: u32 where "MACH_SEND_INVALID_DEST = 0x10000003"
definition MACH_SEND_TIMED_OUT :: u32 where "MACH_SEND_TIMED_OUT = 0x10000004"
definition MACH_SEND_INTERRUPTED :: u32 where "MACH_SEND_INTERRUPTED = 0x10000007"
definition MACH_RCV_IN_PROGRESS :: u32 where "MACH_RCV_IN_PROGRESS = 0x10004001"
definition MACH_RCV_INVALID_NAME :: u32 where "MACH_RCV_INVALID_NAME = 0x10004002"
definition MACH_RCV_TIMED_OUT :: u32 where "MACH_RCV_TIMED_OUT = 0x10004003"
definition MACH_RCV_TOO_LARGE :: u32 where "MACH_RCV_TOO_LARGE = 0x10004004"
definition MACH_RCV_INTERRUPTED :: u32 where "MACH_RCV_INTERRUPTED = 0x10004005"
definition MACH_RCV_PORT_CHANGED :: u32 where "MACH_RCV_PORT_CHANGED = 0x10004006"
definition MACH_RCV_PORT_DIED :: u32 where "MACH_RCV_PORT_DIED = 0x10004009"
definition MACH_RCV_IN_SET :: u32 where "MACH_RCV_IN_SET = 0x1000400a"
definition MACH_RCV_HEADER_ERROR :: u32 where "MACH_RCV_HEADER_ERROR = 0x1000400b"
definition MACH_RCV_BODY_ERROR :: u32 where "MACH_RCV_BODY_ERROR = 0x1000400c"
definition MACH_RCV_INVALID_TYPE :: u32 where "MACH_RCV_INVALID_TYPE = 0x1000400d"
definition MACH_RCV_SCATTER_SMALL :: u32 where "MACH_RCV_SCATTER_SMALL = 0x1000400e"

definition MACH_SEND_TIMEOUT :: u32 where "MACH_SEND_TIMEOUT = 0x00000010"
definition MACH_SEND_ALWAYS :: u32 where "MACH_SEND_ALWAYS = 0x00010000"
definition MACH_SEND_SWITCH :: u32 where "MACH_SEND_SWITCH = 0x00080000"
definition MACH_RCV_TIMEOUT :: u32 where "MACH_RCV_TIMEOUT = 0x00000100"
definition MACH_RCV_LARGE :: u32 where "MACH_RCV_LARGE = 0x00000800"
definition MACH_RCV_OLD_FORMAT :: u32 where "MACH_RCV_OLD_FORMAT = 0x00008000"

definition THREAD_TIMED_OUT :: u32 where "THREAD_TIMED_OUT = 1"
definition THREAD_INTERRUPTED :: u32 where "THREAD_INTERRUPTED = 2"
definition THREAD_SHOULD_TERMINATE :: u32 where "THREAD_SHOULD_TERMINATE = 3"

section \<open>Objects\<close>

record ipc_mqueue =
  imq_messages :: "ipc_kmsg list"
  imq_threads :: "ptr list"

definition imq_empty :: ipc_mqueue where
  "imq_empty = \<lparr>imq_messages = [], imq_threads = []\<rparr>"

text \<open>
  \<open>ipr_notify\<close> is \<open>ipr_soright\<close> of a slot in use and \<open>ipr_next\<close> of a free slot; \<open>ipr_name\<close> of
  the first element is \<open>ipr_size\<close>, as a position in \<open>ipc_table_dnrequests\<close>.
\<close>

record ipc_port_request =
  ipr_notify :: u32
  ipr_name :: u32

text \<open>
  \<open>ip_data\<close> is the union of receiver, destination and timestamp.  A table of dead-name
  requests comes with its address.
\<close>

record ipc_port =
  ip_references :: nat
  ip_bits :: u32
  ip_data :: u32
  ip_receiver_name :: mach_port_t
  ip_kobject :: ptr
  ip_mscount :: u32
  ip_srights :: nat
  ip_sorights :: nat
  ip_nsrequest :: ptr
  ip_pdrequest :: ptr
  ip_dnrequests :: "(ptr \<times> ipc_port_request list) option"
  ip_pset :: ptr
  ip_seqno :: u32
  ip_msgcount :: nat
  ip_qlimit :: nat
  ip_messages :: ipc_mqueue
  ip_blocked :: "ptr list"

record ipc_pset =
  ips_references :: nat
  ips_bits :: u32
  ips_local_name :: mach_port_t
  ips_messages :: ipc_mqueue

text \<open>
  What the communication system keeps of a thread: \<open>ith_data\<close> is the union of \<open>ith_msize\<close> and
  \<open>ith_kmsg\<close>.
\<close>

datatype ith_data = ITH_MSIZE u32 | ITH_KMSG ipc_kmsg

record ipc_thread =
  ith_state :: u32
  ith_rcv_option :: u32
  ith_list :: "ipc_kmsg option"
  ith_seqno :: u32
  ith_data :: ith_data
  ith_wait_result :: u32

record ipc_marequest =
  imar_space :: ptr
  imar_name :: mach_port_t
  imar_soright :: ptr

definition IO_NULL :: ptr where "IO_NULL = 0"
definition IO_DEAD :: ptr where "IO_DEAD = NOT 0"

definition IO_VALID :: "ptr \<Rightarrow> bool" where
  "IO_VALID obj \<longleftrightarrow> obj \<noteq> IO_NULL \<and> obj \<noteq> IO_DEAD"

definition IO_BITS_KOTYPE :: u32 where "IO_BITS_KOTYPE = 0x0000ffff"
definition IO_BITS_ACTIVE :: u32 where "IO_BITS_ACTIVE = 0x80000000"

definition IOT_PORT :: u32 where "IOT_PORT = 0"
definition IOT_PORT_SET :: u32 where "IOT_PORT_SET = 1"

text \<open>\<open>(int) io_bits < 0\<close>\<close>

definition io_active :: "u32 \<Rightarrow> bool" where
  "io_active bits \<longleftrightarrow> sint bits < 0"

definition io_makebits :: "bool \<Rightarrow> u32 \<Rightarrow> u32 \<Rightarrow> u32" where
  "io_makebits active otype kotype =
     (if active then IO_BITS_ACTIVE else 0) OR push_bit 16 otype OR kotype"

abbreviation ip_active :: "ipc_port \<Rightarrow> bool" where
  "ip_active port \<equiv> io_active (ip_bits port)"
abbreviation ips_active :: "ipc_pset \<Rightarrow> bool" where
  "ips_active pset \<equiv> io_active (ips_bits pset)"

section \<open>The state\<close>

datatype ipc_effect =
    MqueueSendAlways ipc_kmsg
  | KmsgDestroy ipc_kmsg
  | ThreadGo ptr
  | ThreadGoAndSwitch ptr
  | KobjectDestroy ptr

record ipc_state =
  ks_its :: "nat list"
  ks_dnits :: "nat list"
  ks_hash :: ipc_hash
  ks_kernel_space :: ptr
  ks_spaces :: "ptr \<Rightarrow> ipc_space option"
  ks_ports :: "ptr \<Rightarrow> ipc_port option"
  ks_psets :: "ptr \<Rightarrow> ipc_pset option"
  ks_threads :: "ptr \<Rightarrow> ipc_thread option"
  ks_marequests :: "ptr \<Rightarrow> ipc_marequest option"
  ks_mabuckets :: "ptr list list"
  ks_timestamp :: u32
  ks_zalloc :: "ptr list"
  ks_effects :: "ipc_effect list"

text \<open>A state without objects, for concrete examples.\<close>

definition empty_state :: ipc_state where
  "empty_state =
     \<lparr>ks_its = [4, 8, 16, 16], ks_dnits = [2, 4, 8, 0], ks_hash = [[], []], ks_kernel_space = 0x1000,
      ks_spaces = Map.empty, ks_ports = Map.empty, ks_psets = Map.empty, ks_threads = Map.empty,
      ks_marequests = Map.empty, ks_mabuckets = [[], []], ks_timestamp = 0, ks_zalloc = [], ks_effects = []\<rparr>"

section \<open>Access\<close>

definition put_port :: "ptr \<Rightarrow> ipc_port \<Rightarrow> ipc_state \<Rightarrow> ipc_state" where
  "put_port p port s = s\<lparr>ks_ports := (ks_ports s)(p := Some port)\<rparr>"

definition put_pset :: "ptr \<Rightarrow> ipc_pset \<Rightarrow> ipc_state \<Rightarrow> ipc_state" where
  "put_pset p pset s = s\<lparr>ks_psets := (ks_psets s)(p := Some pset)\<rparr>"

definition put_space :: "ptr \<Rightarrow> ipc_space \<Rightarrow> ipc_state \<Rightarrow> ipc_state" where
  "put_space sp is s = s\<lparr>ks_spaces := (ks_spaces s)(sp := Some is)\<rparr>"

definition put_thread :: "ptr \<Rightarrow> ipc_thread \<Rightarrow> ipc_state \<Rightarrow> ipc_state" where
  "put_thread th t s = s\<lparr>ks_threads := (ks_threads s)(th := Some t)\<rparr>"

definition effect :: "ipc_effect \<Rightarrow> ipc_state \<Rightarrow> ipc_state" where
  "effect e s = s\<lparr>ks_effects := ks_effects s @ [e]\<rparr>"

text \<open>The result of the next allocation.\<close>

definition zalloc :: "ipc_state \<Rightarrow> ptr \<times> ipc_state" where
  "zalloc s = (case ks_zalloc s of [] \<Rightarrow> (0, s) | p # ps \<Rightarrow> (p, s\<lparr>ks_zalloc := ps\<rparr>))"

text \<open>Assigning to a port.\<close>

definition mod_port :: "ptr \<Rightarrow> (ipc_port \<Rightarrow> ipc_port) \<Rightarrow> ipc_state \<Rightarrow> ipc_state option" where
  "mod_port p f s = map_option (\<lambda>port. put_port p (f port) s) (ks_ports s p)"

definition mod_pset :: "ptr \<Rightarrow> (ipc_pset \<Rightarrow> ipc_pset) \<Rightarrow> ipc_state \<Rightarrow> ipc_state option" where
  "mod_pset p f s = map_option (\<lambda>pset. put_pset p (f pset) s) (ks_psets s p)"

definition mod_thread :: "ptr \<Rightarrow> (ipc_thread \<Rightarrow> ipc_thread) \<Rightarrow> ipc_state \<Rightarrow> ipc_state option" where
  "mod_thread th f s = map_option (\<lambda>t. put_thread th (f t) s) (ks_threads s th)"

text \<open>Reading and assigning the entry behind an entry pointer of a space.\<close>

definition get_entry :: "ptr \<Rightarrow> ipc_entry_ptr \<Rightarrow> ipc_state \<Rightarrow> ipc_entry option" where
  "get_entry sp e s = ks_spaces s sp \<bind> (\<lambda>is. entry_at is e)"

definition set_entry :: "ptr \<Rightarrow> ipc_entry_ptr \<Rightarrow> (ipc_entry \<Rightarrow> ipc_entry) \<Rightarrow> ipc_state \<Rightarrow> ipc_state option" where
  "set_entry sp e f s = map_option (\<lambda>is. put_space sp (entry_update is e f) s) (ks_spaces s sp)"

text \<open>The routines on entries and hash tables, on the state.\<close>

definition entry_lookup :: "ptr \<Rightarrow> mach_port_t \<Rightarrow> ipc_state \<Rightarrow> (ipc_entry_ptr option \<times> ipc_state) option" where
  "entry_lookup sp name s =
     do {
       is \<leftarrow> ks_spaces s sp;
       let (e, is) = ipc_entry_lookup is name;
       Some (e, put_space sp is s)
     }"

definition entry_dealloc :: "ptr \<Rightarrow> mach_port_t \<Rightarrow> ipc_entry_ptr \<Rightarrow> ipc_state \<Rightarrow> ipc_state option" where
  "entry_dealloc sp name e s =
     do {
       is \<leftarrow> ks_spaces s sp;
       (h, is) \<leftarrow> ipc_entry_dealloc (ks_its s) sp (ks_hash s) is name e;
       Some (put_space sp is (s\<lparr>ks_hash := h\<rparr>))
     }"

definition hash_lookup ::
    "ptr \<Rightarrow> ptr \<Rightarrow> ipc_state \<Rightarrow> ((mach_port_t \<times> ipc_entry_ptr) option \<times> ipc_state) option" where
  "hash_lookup sp obj s =
     do {
       is \<leftarrow> ks_spaces s sp;
       (r, h) \<leftarrow> ipc_hash_lookup (ks_hash s) sp is obj;
       Some (r, s\<lparr>ks_hash := h\<rparr>)
     }"

definition hash_insert :: "ptr \<Rightarrow> ptr \<Rightarrow> mach_port_t \<Rightarrow> ipc_entry_ptr \<Rightarrow> ipc_state \<Rightarrow> ipc_state option" where
  "hash_insert sp obj name e s =
     do {
       is \<leftarrow> ks_spaces s sp;
       (h, is) \<leftarrow> ipc_hash_insert (ks_hash s) sp is obj name e;
       Some (put_space sp is (s\<lparr>ks_hash := h\<rparr>))
     }"

definition hash_delete :: "ptr \<Rightarrow> ptr \<Rightarrow> mach_port_t \<Rightarrow> ipc_entry_ptr \<Rightarrow> ipc_state \<Rightarrow> ipc_state option" where
  "hash_delete sp obj name e s =
     do {
       is \<leftarrow> ks_spaces s sp;
       (h, is) \<leftarrow> ipc_hash_delete (ks_hash s) sp is obj name e;
       Some (put_space sp is (s\<lparr>ks_hash := h\<rparr>))
     }"

definition space_reference :: "ptr \<Rightarrow> ipc_state \<Rightarrow> ipc_state option" where
  "space_reference sp s = map_option (\<lambda>is. put_space sp (ipc_space_reference is) s) (ks_spaces s sp)"

definition space_release :: "ptr \<Rightarrow> ipc_state \<Rightarrow> ipc_state option" where
  "space_release sp s =
     map_option (\<lambda>is. s\<lparr>ks_spaces := (ks_spaces s)(sp := ipc_space_release is)\<rparr>) (ks_spaces s sp)"

section \<open>References to objects\<close>

text \<open>
  An object is a port or a port set.  \<open>io_check_unlock\<close> frees it when no reference is left.
\<close>

definition ip_check_unlock :: "ptr \<Rightarrow> ipc_state \<Rightarrow> ipc_state option" where
  "ip_check_unlock p s =
     map_option (\<lambda>port. if ip_references port = 0 then s\<lparr>ks_ports := (ks_ports s)(p := None)\<rparr> else s)
       (ks_ports s p)"

definition ips_check_unlock :: "ptr \<Rightarrow> ipc_state \<Rightarrow> ipc_state option" where
  "ips_check_unlock p s =
     map_option (\<lambda>pset. if ips_references pset = 0 then s\<lparr>ks_psets := (ks_psets s)(p := None)\<rparr> else s)
       (ks_psets s p)"

abbreviation ip_reference :: "ipc_port \<Rightarrow> ipc_port" where
  "ip_reference port \<equiv> port\<lparr>ip_references := ip_references port + 1\<rparr>"
abbreviation ip_release :: "ipc_port \<Rightarrow> ipc_port" where
  "ip_release port \<equiv> port\<lparr>ip_references := ip_references port - 1\<rparr>"
abbreviation ips_reference :: "ipc_pset \<Rightarrow> ipc_pset" where
  "ips_reference pset \<equiv> pset\<lparr>ips_references := ips_references pset + 1\<rparr>"
abbreviation ips_release :: "ipc_pset \<Rightarrow> ipc_pset" where
  "ips_release pset \<equiv> pset\<lparr>ips_references := ips_references pset - 1\<rparr>"

definition ipc_object_reference :: "ptr \<Rightarrow> ipc_state \<Rightarrow> ipc_state option" where
  "ipc_object_reference obj s =
     (case ks_ports s obj of
        Some port \<Rightarrow> Some (put_port obj (ip_reference port) s)
      | None \<Rightarrow> mod_pset obj ips_reference s)"

definition ipc_object_release :: "ptr \<Rightarrow> ipc_state \<Rightarrow> ipc_state option" where
  "ipc_object_release obj s =
     (case ks_ports s obj of
        Some port \<Rightarrow> ip_check_unlock obj (put_port obj (ip_release port) s)
      | None \<Rightarrow> mod_pset obj ips_release s \<bind> ips_check_unlock obj)"

abbreviation ipc_port_release :: "ptr \<Rightarrow> ipc_state \<Rightarrow> ipc_state option" where
  "ipc_port_release p \<equiv> ipc_object_release p"

section \<open>Lemmas on access\<close>

named_theorems state_defs \<open>reading and assigning the structures of the state\<close>

lemmas [state_defs] = put_port_def put_pset_def put_space_def put_thread_def effect_def
  mod_port_def mod_pset_def mod_thread_def

lemma put_sel [simp]:
  "ks_ports (put_port p x s) = (ks_ports s)(p \<mapsto> x)"
  "ks_psets (put_port p x s) = ks_psets s"
  "ks_threads (put_port p x s) = ks_threads s"
  "ks_spaces (put_port p x s) = ks_spaces s"
  "ks_effects (put_port p x s) = ks_effects s"
  "ks_zalloc (put_port p x s) = ks_zalloc s"
  "ks_ports (put_thread th t s) = ks_ports s"
  "ks_psets (put_thread th t s) = ks_psets s"
  "ks_threads (put_thread th t s) = (ks_threads s)(th \<mapsto> t)"
  "ks_spaces (put_thread th t s) = ks_spaces s"
  "ks_effects (put_thread th t s) = ks_effects s"
  "ks_ports (put_pset q y s) = ks_ports s"
  "ks_psets (put_pset q y s) = (ks_psets s)(q \<mapsto> y)"
  "ks_threads (put_pset q y s) = ks_threads s"
  "ks_spaces (put_pset q y s) = ks_spaces s"
  "ks_effects (put_pset q y s) = ks_effects s"
  "ks_ports (put_space sp is s) = ks_ports s"
  "ks_psets (put_space sp is s) = ks_psets s"
  "ks_threads (put_space sp is s) = ks_threads s"
  "ks_spaces (put_space sp is s) = (ks_spaces s)(sp \<mapsto> is)"
  "ks_effects (put_space sp is s) = ks_effects s"
  "ks_ports (effect e s) = ks_ports s"
  "ks_psets (effect e s) = ks_psets s"
  "ks_threads (effect e s) = ks_threads s"
  "ks_spaces (effect e s) = ks_spaces s"
  "ks_effects (effect e s) = ks_effects s @ [e]"
  by (simp_all add: state_defs)

lemma mod_port_Some: "ks_ports s p = Some x \<Longrightarrow> mod_port p f s = Some (put_port p (f x) s)"
  by (simp add: mod_port_def)

lemma mod_thread_Some: "ks_threads s th = Some t \<Longrightarrow> mod_thread th f s = Some (put_thread th (f t) s)"
  by (simp add: mod_thread_def)

lemma mod_pset_Some: "ks_psets s q = Some y \<Longrightarrow> mod_pset q f s = Some (put_pset q (f y) s)"
  by (simp add: mod_pset_def)

lemma mod_port_eq_Some:
  "mod_port p f s = Some s' \<longleftrightarrow> (\<exists>x. ks_ports s p = Some x \<and> s' = put_port p (f x) s)"
  by (auto simp: mod_port_def)

lemma mod_thread_eq_Some:
  "mod_thread th f s = Some s' \<longleftrightarrow> (\<exists>t. ks_threads s th = Some t \<and> s' = put_thread th (f t) s)"
  by (auto simp: mod_thread_def)

lemma mod_pset_eq_Some:
  "mod_pset q f s = Some s' \<longleftrightarrow> (\<exists>y. ks_psets s q = Some y \<and> s' = put_pset q (f y) s)"
  by (auto simp: mod_pset_def)

lemma put_port_twice [simp]: "put_port p y (put_port p x s) = put_port p y s"
  by (simp add: put_port_def)

lemma zalloc_sel [simp]:
  "ks_ports (snd (zalloc s)) = ks_ports s" "ks_psets (snd (zalloc s)) = ks_psets s"
  "ks_threads (snd (zalloc s)) = ks_threads s" "ks_spaces (snd (zalloc s)) = ks_spaces s"
  "ks_effects (snd (zalloc s)) = ks_effects s"
  by (simp_all add: zalloc_def split: list.split)

lemma io_active_iff: "io_active bits \<longleftrightarrow> bit bits 31"
  using bit_last_iff [of bits] by (simp add: io_active_def)

lemma bit_ACTIVE: "bit IO_BITS_ACTIVE n \<longleftrightarrow> n = 31"
proof -
  have "IO_BITS_ACTIVE = push_bit 31 1" by (simp add: IO_BITS_ACTIVE_def)
  then show ?thesis unfolding \<open>IO_BITS_ACTIVE = push_bit 31 1\<close> bit_push_one by simp
qed

lemma io_active_clear [simp]: "\<not> io_active (bits AND NOT IO_BITS_ACTIVE)"
  by (simp add: io_active_iff bit_simps bit_ACTIVE)

end
