(* ===== verification/Ipc_Mqueue.thy ===== *)
theory Ipc_Mqueue
  imports Ipc_State
begin

text \<open>
  Message queues, \<^verbatim>\<open>src/ipc/ipc_mqueue.c\<close>: handing messages to waiting receivers, moving
  messages between queues, and sending; with the check of scatter lists of
  \<^verbatim>\<open>src/ipc/ipc_kmsg.c\<close>.  The queues of messages and threads are lists, first element first.

  A thread that blocks waits for the next element of a list of changes that the rest of
  the system makes to the state while it sleeps; when the list is used up, the thread
  sleeps forever, which is \<open>None\<close>.
\<close>

section \<open>Queues in the state\<close>

datatype mqueue_ref = PortQueue ptr | PsetQueue ptr

fun get_mqueue :: "mqueue_ref \<Rightarrow> ipc_state \<Rightarrow> ipc_mqueue option" where
  "get_mqueue (PortQueue p) s = map_option ip_messages (ks_ports s p)"
| "get_mqueue (PsetQueue p) s = map_option ips_messages (ks_psets s p)"

fun put_mqueue :: "mqueue_ref \<Rightarrow> ipc_mqueue \<Rightarrow> ipc_state \<Rightarrow> ipc_state option" where
  "put_mqueue (PortQueue p) mq s = mod_port p (\<lambda>port. port\<lparr>ip_messages := mq\<rparr>) s"
| "put_mqueue (PsetQueue p) mq s = mod_pset p (\<lambda>pset. pset\<lparr>ips_messages := mq\<rparr>) s"

definition ipc_mqueue_init :: ipc_mqueue where
  "ipc_mqueue_init = imq_empty"

section \<open>Scatter lists\<close>

definition MACH_MSG_OVERWRITE :: u32 where "MACH_MSG_OVERWRITE = 3"

datatype check_result = CheckReturn u32 | CheckDone bool

text \<open>
  The loop over the gather list \<open>gs\<close> with the rest \<open>ss\<close> of a scatter list that had \<open>count\<close>
  descriptors; \<open>large\<close> is the receive option.  \<open>CheckDone\<close> carries \<open>size_error\<close>.
\<close>

fun skip_ports :: "mach_msg_descriptor list \<Rightarrow> mach_msg_descriptor list" where
  "skip_ports (MACH_MSG_PORT_DESCRIPTOR n d # ss) = skip_ports ss"
| "skip_ports ss = ss"

fun check_scatter_loop ::
    "bool \<Rightarrow> nat \<Rightarrow> mach_msg_descriptor list \<Rightarrow> mach_msg_descriptor list \<Rightarrow> bool \<Rightarrow> check_result" where
  "check_scatter_loop large count [] ss size_error = CheckDone size_error"
| "check_scatter_loop large count (MACH_MSG_PORT_DESCRIPTOR n d # gs) ss size_error =
     check_scatter_loop large count gs ss size_error"
| "check_scatter_loop large count (MACH_MSG_OOL_DESCRIPTOR a gsize c # gs) ss size_error =
     (if count = 0 then if \<not> large then CheckReturn MACH_RCV_SCATTER_SMALL else CheckDone True
      else
        case skip_ports ss of
          [] \<Rightarrow> CheckDone size_error
        | MACH_MSG_OOL_DESCRIPTOR a' ssize c' # ss' \<Rightarrow>
            if c' = MACH_MSG_OVERWRITE \<and> gsize > ssize then
              if \<not> large then CheckReturn MACH_RCV_SCATTER_SMALL
              else check_scatter_loop large count gs ss' True
            else check_scatter_loop large count gs ss' size_error
        | _ \<Rightarrow> CheckReturn MACH_RCV_INVALID_TYPE)"
| "check_scatter_loop large count (MACH_MSG_OOL_PORTS_DESCRIPTOR a gcount c d # gs) ss size_error =
     (if count = 0 then if \<not> large then CheckReturn MACH_RCV_SCATTER_SMALL else CheckDone True
      else
        case skip_ports ss of
          [] \<Rightarrow> CheckDone size_error
        | MACH_MSG_OOL_PORTS_DESCRIPTOR a' scount c' d' # ss' \<Rightarrow>
            if c' = MACH_MSG_OVERWRITE \<and> gcount > scount then
              if \<not> large then CheckReturn MACH_RCV_SCATTER_SMALL
              else check_scatter_loop large count gs ss' True
            else check_scatter_loop large count gs ss' size_error
        | _ \<Rightarrow> CheckReturn MACH_RCV_INVALID_TYPE)"

fun kmsg_descriptors :: "ipc_kmsg \<Rightarrow> mach_msg_descriptor list option" where
  "kmsg_descriptors kmsg = (case ikm_body kmsg of Descriptors ds \<Rightarrow> Some ds | _ \<Rightarrow> None)"

declare kmsg_descriptors.simps [simp del]

text \<open>
  Filling in a descriptor of the new scatter list; the fields that the code does not
  assign are taken to be zero.
\<close>

fun fill_descriptor :: "mach_msg_descriptor \<Rightarrow> mach_msg_descriptor" where
  "fill_descriptor (MACH_MSG_PORT_DESCRIPTOR n d) = MACH_MSG_PORT_DESCRIPTOR 0 0"
| "fill_descriptor (MACH_MSG_OOL_DESCRIPTOR a sz c) = MACH_MSG_OOL_DESCRIPTOR 0 sz 0"
| "fill_descriptor (MACH_MSG_OOL_PORTS_DESCRIPTOR a n c d) = MACH_MSG_OOL_PORTS_DESCRIPTOR 0 n 0 0"

definition ipc_kmsg_check_scatter ::
    "ipc_kmsg \<Rightarrow> u32 \<Rightarrow> ipc_kmsg \<Rightarrow> ipc_state \<Rightarrow> (u32 \<times> ipc_kmsg \<times> ipc_state) option" where
  "ipc_kmsg_check_scatter kmsg opt lst s =
     do {
       gs \<leftarrow> kmsg_descriptors kmsg;
       ss \<leftarrow> kmsg_descriptors lst;
       (case check_scatter_loop (opt AND MACH_RCV_LARGE \<noteq> 0) (length ss) gs ss False of
          CheckReturn mr \<Rightarrow> Some (mr, lst, s)
        | CheckDone False \<Rightarrow> Some (MACH_MSG_SUCCESS, lst, s)
        | CheckDone True \<Rightarrow>
            let (p, s) = zalloc s
            in if p = 0 then Some (MACH_MSG_VM_KERNEL OR MACH_RCV_BODY_ERROR, lst, s)
               else
                 Some (MACH_RCV_SCATTER_SMALL,
                   lst\<lparr>msgh_size := of_nat (4 + 12 * length gs), ikm_body := Descriptors (map fill_descriptor gs)\<rparr>,
                   s))
     }"

section \<open>Trailers\<close>

definition sizeof_mach_msg_header :: u32 where "sizeof_mach_msg_header = 24"

text \<open>Reading past the end of \<open>trailer_size\<close> gives \<open>None\<close>.\<close>

definition trailer_size :: "u32 list" where "trailer_size = [8, 12, 20]"

definition GET_RCV_ELEMENTS :: "u32 \<Rightarrow> nat" where
  "GET_RCV_ELEMENTS y = unat (drop_bit 24 y AND 0xf)"

definition REQUESTED_TRAILER_SIZE :: "u32 \<Rightarrow> u32 option" where
  "REQUESTED_TRAILER_SIZE y =
     (if GET_RCV_ELEMENTS y < length trailer_size then Some (trailer_size ! GET_RCV_ELEMENTS y) else None)"

section \<open>Handing over a message\<close>

fun ith_msize :: "ipc_thread \<Rightarrow> u32 option" where
  "ith_msize t = (case ith_data t of ITH_MSIZE sz \<Rightarrow> Some sz | ITH_KMSG k \<Rightarrow> None)"

text \<open>
  \<open>th->ith_kmsg = kmsg; th->ith_seqno = port->ip_seqno++; thread_go(th)\<close> after \<open>th->ith_state = mr\<close>
\<close>

definition hand_over :: "ipc_effect \<Rightarrow> ptr \<Rightarrow> u32 \<Rightarrow> ipc_kmsg \<Rightarrow> ptr \<Rightarrow> ipc_state \<Rightarrow> ipc_state option" where
  "hand_over go th mr kmsg port s =
     do {
       p \<leftarrow> ks_ports s port;
       s \<leftarrow> mod_thread th (\<lambda>t. t\<lparr>ith_state := mr, ith_data := ITH_KMSG kmsg, ith_seqno := ip_seqno p\<rparr>) s;
       s \<leftarrow> mod_port port (\<lambda>p. p\<lparr>ip_seqno := ip_seqno p + 1\<rparr>) s;
       Some (effect go s)
     }"

text \<open>\<open>th->ith_state = mr; th->ith_msize = size; thread_go(th)\<close>\<close>

definition turn_away :: "ptr \<Rightarrow> u32 \<Rightarrow> u32 \<Rightarrow> ipc_state \<Rightarrow> ipc_state option" where
  "turn_away th mr sz s =
     do {
       s \<leftarrow> mod_thread th (\<lambda>t. t\<lparr>ith_state := mr, ith_data := ITH_MSIZE sz\<rparr>) s;
       Some (effect (ThreadGo th) s)
     }"

definition receive_too_large :: "ipc_thread \<Rightarrow> ipc_kmsg \<Rightarrow> bool option" where
  "receive_too_large t kmsg =
     do {
       msize \<leftarrow> ith_msize t;
       trailer \<leftarrow> REQUESTED_TRAILER_SIZE (ith_rcv_option t);
       Some (msgh_size kmsg > msize - trailer)
     }"

section \<open>Moving messages\<close>

text \<open>
  The search for a receiver of an old message among the threads that wait in the
  destination.  The results: was the message handed over, and the threads left.
\<close>

fun move_old :: "ipc_kmsg \<Rightarrow> ptr \<Rightarrow> ptr list \<Rightarrow> ipc_state \<Rightarrow> (bool \<times> ptr list \<times> ipc_state) option" where
  "move_old kmsg port [] s = Some (False, [], s)"
| "move_old kmsg port (th # blockedq) s =
     do {
       t \<leftarrow> ks_threads s th;
       (if ith_rcv_option t AND MACH_RCV_OLD_FORMAT = 0 then
          do {
            s \<leftarrow> hand_over (ThreadGo th) th MACH_RCV_HEADER_ERROR kmsg port s;
            Some (True, blockedq, s)
          }
        else
          do {
            msize \<leftarrow> ith_msize t;
            (if msgh_size kmsg \<le> msize then
               do {
                 s \<leftarrow> hand_over (ThreadGo th) th MACH_MSG_SUCCESS kmsg port s;
                 Some (True, blockedq, s)
               }
             else
               do {
                 s \<leftarrow> turn_away th MACH_RCV_TOO_LARGE (msgh_size kmsg) s;
                 move_old kmsg port blockedq s
               })
          })
     }"

text \<open>The same for a message of the new format.\<close>

fun move_new :: "ipc_kmsg \<Rightarrow> ptr \<Rightarrow> ptr list \<Rightarrow> ipc_state \<Rightarrow> (bool \<times> ptr list \<times> ipc_state) option" where
  "move_new kmsg port [] s = Some (False, [], s)"
| "move_new kmsg port (th # blockedq) s =
     do {
       t \<leftarrow> ks_threads s th;
       msize \<leftarrow> ith_msize t;
       let hand = (\<lambda>mr s. map_option (\<lambda>s. (True, blockedq, s)) (hand_over (ThreadGo th) th mr kmsg port s));
       let msg_is_complex = (msgh_bits kmsg AND MACH_MSGH_BITS_COMPLEX \<noteq> 0);
       (if ith_rcv_option t AND MACH_RCV_OLD_FORMAT \<noteq> 0 then
          if msg_is_complex \<or> msgh_size kmsg > sizeof_mach_msg_header \<or> msize < sizeof_mach_msg_header
          then hand MACH_RCV_HEADER_ERROR s
          else hand MACH_MSG_SUCCESS s
        else
          do {
            too_large \<leftarrow> receive_too_large t kmsg;
            (if too_large then
               if ith_rcv_option t AND MACH_RCV_LARGE \<noteq> 0
               then turn_away th MACH_RCV_TOO_LARGE (msgh_size kmsg) s \<bind> move_new kmsg port blockedq
               else hand MACH_RCV_TOO_LARGE s
             else
               case ith_list t of
                 None \<Rightarrow> hand MACH_MSG_SUCCESS s
               | Some lst \<Rightarrow>
                   if \<not> msg_is_complex then hand MACH_MSG_SUCCESS s
                   else
                     do {
                       (mr, lst, s) \<leftarrow> ipc_kmsg_check_scatter kmsg (ith_rcv_option t) lst s;
                       s \<leftarrow> mod_thread th (\<lambda>t. t\<lparr>ith_list := Some lst\<rparr>) s;
                       (if mr = MACH_MSG_SUCCESS then hand MACH_MSG_SUCCESS s
                        else if mr = MACH_RCV_INVALID_TYPE \<or> mr AND MACH_MSG_VM_KERNEL \<noteq> 0
                        then turn_away th mr msize s \<bind> move_new kmsg port blockedq
                        else if ith_rcv_option t AND MACH_RCV_LARGE \<noteq> 0
                        then turn_away th mr (msgh_size kmsg) s \<bind> move_new kmsg port blockedq
                        else hand mr s)
                     })
          })
     }"

definition move_receiver :: "ipc_kmsg \<Rightarrow> ptr \<Rightarrow> ptr list \<Rightarrow> ipc_state \<Rightarrow> (bool \<times> ptr list \<times> ipc_state) option" where
  "move_receiver kmsg =
     (if msgh_bits kmsg AND MACH_MSGH_BITS_OLD_FORMAT \<noteq> 0 then move_old kmsg else move_new kmsg)"

text \<open>
  The loop over the messages of the old queue; the results are the messages that stay
  there and the new queue.
\<close>

fun move_loop ::
    "ptr \<Rightarrow> ipc_kmsg list \<Rightarrow> ipc_mqueue \<Rightarrow> ipc_state \<Rightarrow> (ipc_kmsg list \<times> ipc_mqueue \<times> ipc_state) option" where
  "move_loop port [] dest s = Some ([], dest, s)"
| "move_loop port (kmsg # oldq) dest s =
     (if msgh_remote_port kmsg \<noteq> port then
        do {
          (oldq, dest, s) \<leftarrow> move_loop port oldq dest s;
          Some (kmsg # oldq, dest, s)
        }
      else
        do {
          (handed, blockedq, s) \<leftarrow> move_receiver kmsg port (imq_threads dest) s;
          let dest = dest\<lparr>imq_threads := blockedq\<rparr>;
          move_loop port oldq (if handed then dest else dest\<lparr>imq_messages := imq_messages dest @ [kmsg]\<rparr>) s
        })"

definition ipc_mqueue_move :: "mqueue_ref \<Rightarrow> mqueue_ref \<Rightarrow> ptr \<Rightarrow> ipc_state \<Rightarrow> ipc_state option" where
  "ipc_mqueue_move dest source port s =
     do {
       sq \<leftarrow> get_mqueue source s;
       dq \<leftarrow> get_mqueue dest s;
       (oldq, dq, s) \<leftarrow> move_loop port (imq_messages sq) dq s;
       s \<leftarrow> put_mqueue source (sq\<lparr>imq_messages := oldq\<rparr>) s;
       put_mqueue dest dq s
     }"

section \<open>Waking receivers\<close>

fun changed_loop :: "u32 \<Rightarrow> ptr list \<Rightarrow> ipc_state \<Rightarrow> ipc_state option" where
  "changed_loop mr [] s = Some s"
| "changed_loop mr (th # ths) s =
     do {
       s \<leftarrow> mod_thread th (\<lambda>t. t\<lparr>ith_state := mr\<rparr>) s;
       changed_loop mr ths (effect (ThreadGo th) s)
     }"

definition ipc_mqueue_changed :: "mqueue_ref \<Rightarrow> u32 \<Rightarrow> ipc_state \<Rightarrow> ipc_state option" where
  "ipc_mqueue_changed mqueue mr s =
     do {
       mq \<leftarrow> get_mqueue mqueue s;
       s \<leftarrow> changed_loop mr (imq_threads mq) s;
       put_mqueue mqueue (mq\<lparr>imq_threads := []\<rparr>) s
     }"

section \<open>Sending\<close>

text \<open>
  The loop in which a sender waits for room in the queue.  Each element of \<open>wakes\<close> is what
  happens to the state while the sender sleeps once.
\<close>

datatype send_wait = SendReturn u32 | SendDeliver

definition send_may_block :: "ipc_port \<Rightarrow> ipc_kmsg \<Rightarrow> u32 \<Rightarrow> bool" where
  "send_may_block port kmsg opt \<longleftrightarrow>
     \<not> (ip_msgcount port < ip_qlimit port \<or> opt AND MACH_SEND_ALWAYS \<noteq> 0 \<or>
        MACH_MSGH_BITS_REMOTE (msgh_bits kmsg) = MACH_MSG_TYPE_PORT_SEND_ONCE)"

fun send_wait_loop ::
    "ptr \<Rightarrow> ptr \<Rightarrow> ipc_kmsg \<Rightarrow> u32 \<Rightarrow> (ipc_state \<Rightarrow> ipc_state) list \<Rightarrow> u32 \<Rightarrow> ipc_state \<Rightarrow>
     (send_wait \<times> (ipc_state \<Rightarrow> ipc_state) list \<times> ipc_state) option" where
  "send_wait_loop self port kmsg opt wakes timeout s =
     do {
       p \<leftarrow> ks_ports s port;
       (if \<not> ip_active p then
          do {
            s \<leftarrow> ip_check_unlock port (put_port port (ip_release p) s);
            Some (SendReturn MACH_MSG_SUCCESS, wakes, effect (KmsgDestroy (kmsg\<lparr>msgh_remote_port := 0\<rparr>)) s)
          }
        else if \<not> send_may_block p kmsg opt then Some (SendDeliver, wakes, s)
        else if opt AND MACH_SEND_TIMEOUT \<noteq> 0 \<and> timeout = 0 then Some (SendReturn MACH_SEND_TIMED_OUT, wakes, s)
        else
          case wakes of
            [] \<Rightarrow> None
          | wake # wakes \<Rightarrow>
              do {
                let s = put_port port (p\<lparr>ip_blocked := ip_blocked p @ [self]\<rparr>) s;
                s \<leftarrow> mod_thread self (\<lambda>t. t\<lparr>ith_state := MACH_SEND_IN_PROGRESS\<rparr>) s;
                let s = wake s;
                t \<leftarrow> ks_threads s self;
                (if ith_state t = MACH_MSG_SUCCESS then send_wait_loop self port kmsg opt wakes timeout s
                 else
                   do {
                     s \<leftarrow> mod_port port (\<lambda>p. p\<lparr>ip_blocked := remove1 self (ip_blocked p)\<rparr>) s;
                     (if ith_wait_result t = THREAD_INTERRUPTED \<or> ith_wait_result t = THREAD_SHOULD_TERMINATE
                      then Some (SendReturn MACH_SEND_INTERRUPTED, wakes, s)
                      else if ith_wait_result t = THREAD_TIMED_OUT
                      then send_wait_loop self port kmsg opt wakes 0 s
                      else None)
                   })
              })
     }"

declare send_wait_loop.simps [simp del]

text \<open>
  The two searches for a receiver; the results say whether the message was handed over,
  and the threads left.  A receiver that gets an old message may be switched to.
\<close>

fun send_old ::
    "u32 \<Rightarrow> ipc_kmsg \<Rightarrow> ptr \<Rightarrow> ptr list \<Rightarrow> ipc_state \<Rightarrow> (bool \<times> ptr list \<times> ipc_state) option" where
  "send_old opt kmsg port [] s = Some (False, [], s)"
| "send_old opt kmsg port (receiver # receivers) s =
     do {
       t \<leftarrow> ks_threads s receiver;
       (if ith_rcv_option t AND MACH_RCV_OLD_FORMAT = 0 then
          do {
            s \<leftarrow> hand_over (ThreadGo receiver) receiver MACH_RCV_HEADER_ERROR kmsg port s;
            Some (True, receivers, s)
          }
        else
          do {
            msize \<leftarrow> ith_msize t;
            (if msgh_size kmsg \<le> msize then
               do {
                 let go = (if opt AND MACH_SEND_SWITCH \<noteq> 0 then ThreadGoAndSwitch receiver else ThreadGo receiver);
                 s \<leftarrow> hand_over go receiver MACH_MSG_SUCCESS kmsg port s;
                 Some (True, receivers, s)
               }
             else
               do {
                 s \<leftarrow> turn_away receiver MACH_RCV_TOO_LARGE (msgh_size kmsg) s;
                 send_old opt kmsg port receivers s
               })
          })
     }"

fun send_new :: "ipc_kmsg \<Rightarrow> ptr \<Rightarrow> ptr list \<Rightarrow> ipc_state \<Rightarrow> (bool \<times> ptr list \<times> ipc_state) option" where
  "send_new kmsg port [] s = Some (False, [], s)"
| "send_new kmsg port (receiver # receivers) s =
     do {
       t \<leftarrow> ks_threads s receiver;
       msize \<leftarrow> ith_msize t;
       let hand = (\<lambda>mr s. map_option (\<lambda>s. (True, receivers, s))
                            (hand_over (ThreadGo receiver) receiver mr kmsg port s));
       let msg_is_complex = (msgh_bits kmsg AND MACH_MSGH_BITS_COMPLEX \<noteq> 0);
       (if ith_rcv_option t AND MACH_RCV_OLD_FORMAT \<noteq> 0 then
          if msg_is_complex \<or> msgh_size kmsg > sizeof_mach_msg_header \<or> msize < sizeof_mach_msg_header
          then hand MACH_RCV_HEADER_ERROR s
          else hand MACH_MSG_SUCCESS s
        else
          do {
            too_large \<leftarrow> receive_too_large t kmsg;
            (if too_large then
               if ith_rcv_option t AND MACH_RCV_LARGE \<noteq> 0
               then turn_away receiver MACH_RCV_TOO_LARGE (msgh_size kmsg) s \<bind> send_new kmsg port receivers
               else hand MACH_RCV_TOO_LARGE s
             else
               case ith_list t of
                 None \<Rightarrow> hand MACH_MSG_SUCCESS s
               | Some lst \<Rightarrow>
                   if \<not> msg_is_complex then hand MACH_MSG_SUCCESS s
                   else
                     do {
                       (mr, lst, s) \<leftarrow> ipc_kmsg_check_scatter kmsg (ith_rcv_option t) lst s;
                       s \<leftarrow> mod_thread receiver (\<lambda>t. t\<lparr>ith_list := Some lst\<rparr>) s;
                       (if mr = MACH_MSG_SUCCESS then hand MACH_MSG_SUCCESS s
                        else if mr = MACH_RCV_INVALID_TYPE \<or> mr AND MACH_MSG_VM_KERNEL \<noteq> 0
                        then turn_away receiver mr msize s \<bind> send_new kmsg port receivers
                        else if ith_rcv_option t AND MACH_RCV_LARGE \<noteq> 0
                        then turn_away receiver mr (msgh_size kmsg) s \<bind> send_new kmsg port receivers
                        else hand mr s)
                     })
          })
     }"

text \<open>The block that delivers the message to the queue of the port or of its set.\<close>

definition port_mqueue :: "ptr \<Rightarrow> ipc_port \<Rightarrow> mqueue_ref" where
  "port_mqueue p port = (if ip_pset port = 0 then PortQueue p else PsetQueue (ip_pset port))"

definition send_deliver :: "u32 \<Rightarrow> ipc_kmsg \<Rightarrow> ptr \<Rightarrow> ipc_state \<Rightarrow> ipc_state option" where
  "send_deliver opt kmsg port s =
     do {
       s \<leftarrow> mod_port port (\<lambda>p. p\<lparr>ip_msgcount := ip_msgcount p + 1\<rparr>) s;
       p \<leftarrow> ks_ports s port;
       let mqueue = port_mqueue port p;
       mq \<leftarrow> get_mqueue mqueue s;
       (handed, receivers, s) \<leftarrow>
         (if msgh_bits kmsg AND MACH_MSGH_BITS_OLD_FORMAT \<noteq> 0 then send_old opt kmsg port (imq_threads mq) s
          else send_new kmsg port (imq_threads mq) s);
       put_mqueue mqueue
         \<lparr>imq_messages = imq_messages mq @ (if handed then [] else [kmsg]), imq_threads = receivers\<rparr> s
     }"

text \<open>
  \<open>server\<close> is \<open>ipc_kobject_server\<close>, which handles a message to a kernel object and may give a
  reply; a reply is sent in turn, and \<open>fuel\<close> bounds the number of replies that are again
  for kernel objects.
\<close>

primrec ipc_mqueue_send ::
    "nat \<Rightarrow> (ipc_kmsg \<Rightarrow> ipc_state \<Rightarrow> ipc_kmsg option \<times> ipc_state) \<Rightarrow> ptr \<Rightarrow> ipc_kmsg \<Rightarrow> u32 \<Rightarrow> u32 \<Rightarrow>
     (ipc_state \<Rightarrow> ipc_state) list \<Rightarrow> ipc_state \<Rightarrow> (u32 \<times> ipc_state) option" where
  "ipc_mqueue_send 0 server self kmsg opt timeout wakes s = None"
| "ipc_mqueue_send (Suc fuel) server self kmsg opt timeout wakes s =
     do {
       let port = msgh_remote_port kmsg;
       p \<leftarrow> ks_ports s port;
       (if ip_data p = ks_kernel_space s then
          (case server kmsg s of
             (None, s) \<Rightarrow> Some (MACH_MSG_SUCCESS, s)
           | (Some reply, s) \<Rightarrow>
               do {
                 (mr, s) \<leftarrow> ipc_mqueue_send fuel server self reply MACH_SEND_ALWAYS 0 wakes s;
                 Some (MACH_MSG_SUCCESS, s)
               })
        else
          do {
            (r, wakes, s) \<leftarrow> send_wait_loop self port kmsg opt wakes timeout s;
            (case r of
               SendReturn mr \<Rightarrow> Some (mr, s)
             | SendDeliver \<Rightarrow>
                 if msgh_bits kmsg AND MACH_MSGH_BITS_CIRCULAR \<noteq> 0
                 then Some (MACH_MSG_SUCCESS, effect (KmsgDestroy kmsg) s)
                 else map_option (Pair MACH_MSG_SUCCESS) (send_deliver opt kmsg port s))
          })
     }"

text \<open>
  Sending from an interrupt: \<open>port_try\<close> and \<open>mqueue_try\<close> tell whether the attempts to lock
  succeed.
\<close>

fun send_interrupt :: "ipc_kmsg \<Rightarrow> ptr \<Rightarrow> ptr list \<Rightarrow> ipc_state \<Rightarrow> (bool \<times> ptr list \<times> ipc_state) option" where
  "send_interrupt kmsg port [] s = Some (False, [], s)"
| "send_interrupt kmsg port (receiver # receivers) s =
     do {
       t \<leftarrow> ks_threads s receiver;
       msize \<leftarrow> ith_msize t;
       let hand = (\<lambda>mr s. map_option (\<lambda>s. (True, receivers, s))
                            (hand_over (ThreadGo receiver) receiver mr kmsg port s));
       (if ith_rcv_option t AND MACH_RCV_OLD_FORMAT \<noteq> 0 then
          if msgh_size kmsg > sizeof_mach_msg_header \<or> msize < sizeof_mach_msg_header
          then hand MACH_RCV_HEADER_ERROR s
          else hand MACH_MSG_SUCCESS s
        else
          do {
            too_large \<leftarrow> receive_too_large t kmsg;
            (if too_large then
               if ith_rcv_option t AND MACH_RCV_LARGE \<noteq> 0
               then turn_away receiver MACH_RCV_TOO_LARGE (msgh_size kmsg) s \<bind> send_interrupt kmsg port receivers
               else hand MACH_RCV_TOO_LARGE s
             else hand MACH_MSG_SUCCESS s)
          })
     }"

definition ipc_mqueue_send_interrupt ::
    "bool \<Rightarrow> bool \<Rightarrow> ipc_kmsg \<Rightarrow> ipc_state \<Rightarrow> (u32 \<times> ipc_state) option" where
  "ipc_mqueue_send_interrupt port_try mqueue_try kmsg s =
     (let port = msgh_remote_port kmsg
      in if \<not> port_try then Some (MACH_MSG_IPC_KERNEL, s)
         else do {
           p \<leftarrow> ks_ports s port;
           (if \<not> ip_active p then Some (MACH_SEND_INVALID_DEST, s)
            else if \<not> mqueue_try then Some (MACH_MSG_IPC_KERNEL, s)
            else
              do {
                let mqueue = port_mqueue port p;
                mq \<leftarrow> get_mqueue mqueue s;
                s \<leftarrow> mod_port port (\<lambda>p. p\<lparr>ip_msgcount := ip_msgcount p + 1\<rparr>) s;
                (handed, receivers, s) \<leftarrow> send_interrupt kmsg port (imq_threads mq) s;
                s \<leftarrow> put_mqueue mqueue
                  \<lparr>imq_messages = imq_messages mq @ (if handed then [] else [kmsg]), imq_threads = receivers\<rparr> s;
                Some (MACH_MSG_SUCCESS, s)
              })
         })"

section \<open>The searches for a receiver\<close>

text \<open>A thread that waits in a queue, as \<open>ipc_mqueue_receive\<close> leaves it, and a message that can be queued.\<close>

definition rcv_waiting :: "ipc_state \<Rightarrow> ptr \<Rightarrow> bool" where
  "rcv_waiting s th \<longleftrightarrow>
     (case ks_threads s th of
        None \<Rightarrow> False
      | Some t \<Rightarrow>
          (case ith_data t of ITH_MSIZE _ \<Rightarrow> True | ITH_KMSG _ \<Rightarrow> False) \<and>
          GET_RCV_ELEMENTS (ith_rcv_option t) < length trailer_size \<and>
          (case ith_list t of None \<Rightarrow> True | Some l \<Rightarrow> kmsg_descriptors l \<noteq> None))"

definition kmsg_ok :: "ipc_kmsg \<Rightarrow> bool" where
  "kmsg_ok kmsg \<longleftrightarrow>
     (msgh_bits kmsg AND MACH_MSGH_BITS_OLD_FORMAT = 0 \<longrightarrow> msgh_bits kmsg AND MACH_MSGH_BITS_COMPLEX \<noteq> 0 \<longrightarrow>
      kmsg_descriptors kmsg \<noteq> None)"

text \<open>
  What a search for a receiver among \<open>ths\<close> does: some threads are turned away, and then
  either the next one gets the message with the port's sequence number, or no thread is left.
\<close>

definition search_ok :: "ipc_kmsg \<Rightarrow> ptr \<Rightarrow> ptr list \<Rightarrow> ipc_state \<Rightarrow> bool \<Rightarrow> ptr list \<Rightarrow> ipc_state \<Rightarrow> bool" where
  "search_ok kmsg port ths s handed ths' s' \<longleftrightarrow>
     (\<exists>away p.
        ks_ports s port = Some p \<and>
        ks_ports s' = (ks_ports s)(port \<mapsto> p\<lparr>ip_seqno := ip_seqno p + (if handed then 1 else 0)\<rparr>) \<and>
        ks_psets s' = ks_psets s \<and> ks_spaces s' = ks_spaces s \<and>
        (\<forall>x. x \<notin> set ths - set ths' \<longrightarrow> ks_threads s' x = ks_threads s x) \<and>
        (\<forall>x\<in>set away. \<exists>t sz. ks_threads s' x = Some t \<and> ith_state t \<noteq> MACH_MSG_SUCCESS \<and> ith_data t = ITH_MSIZE sz) \<and>
        (if handed
         then \<exists>th t. ths = away @ th # ths' \<and> ks_threads s' th = Some t \<and>
                     ith_data t = ITH_KMSG kmsg \<and> ith_seqno t = ip_seqno p
         else ths = away \<and> ths' = []))"

lemma search_okE:
  assumes "search_ok kmsg port ths s handed ths' s'"
  obtains away p where "ks_ports s port = Some p"
    "ks_ports s' = (ks_ports s)(port \<mapsto> p\<lparr>ip_seqno := ip_seqno p + (if handed then 1 else 0)\<rparr>)"
    "ks_psets s' = ks_psets s" "ks_spaces s' = ks_spaces s"
    "\<And>x. x \<notin> set ths - set ths' \<Longrightarrow> ks_threads s' x = ks_threads s x"
    "\<And>x. x \<in> set away \<Longrightarrow> \<exists>t sz. ks_threads s' x = Some t \<and> ith_state t \<noteq> MACH_MSG_SUCCESS \<and> ith_data t = ITH_MSIZE sz"
    "if handed then \<exists>th t. ths = away @ th # ths' \<and> ks_threads s' th = Some t \<and>
        ith_data t = ITH_KMSG kmsg \<and> ith_seqno t = ip_seqno p
     else ths = away \<and> ths' = []"
  using assms unfolding search_ok_def by (elim exE conjE) blast

lemma search_ok_Nil: "ks_ports s port = Some p \<Longrightarrow> search_ok kmsg port [] s False [] s"
  unfolding search_ok_def by (intro exI [of _ "[]"] exI [of _ p]) (simp add: fun_upd_idem)

lemma search_ok_hand:
  assumes "hand_over go th mr kmsg port s = Some s'" "th \<notin> set ths"
  shows "search_ok kmsg port (th # ths) s True ths s'"
proof -
  obtain p where p: "ks_ports s port = Some p" using assms(1) by (auto simp: hand_over_def split: bind_splits)
  obtain t where t: "ks_threads s th = Some t"
    using assms(1) p by (auto simp: hand_over_def mod_thread_def split: bind_splits)
  have s': "s' = effect go (put_port port (p\<lparr>ip_seqno := ip_seqno p + 1\<rparr>)
      (put_thread th (t\<lparr>ith_state := mr, ith_data := ITH_KMSG kmsg, ith_seqno := ip_seqno p\<rparr>) s))"
    using assms(1) p t by (simp add: hand_over_def mod_thread_def mod_port_def)
  show ?thesis
    unfolding search_ok_def using p assms(2)
    by (intro exI [of _ "[]"] exI [of _ p]) (auto simp: s')
qed

lemma search_ok_away:
  assumes "turn_away th mr sz s = Some s1" "search_ok kmsg port ths s1 handed ths' s'"
    "mr \<noteq> MACH_MSG_SUCCESS" "th \<notin> set ths"
  shows "search_ok kmsg port (th # ths) s handed ths' s'"
proof -
  obtain t where t: "ks_threads s th = Some t"
    using assms(1) by (auto simp: turn_away_def mod_thread_def split: bind_splits)
  have s1: "s1 = effect (ThreadGo th) (put_thread th (t\<lparr>ith_state := mr, ith_data := ITH_MSIZE sz\<rparr>) s)"
    using assms(1) t by (simp add: turn_away_def mod_thread_def)
  from assms(2) obtain away p where o: "ks_ports s1 port = Some p"
    "ks_ports s' = (ks_ports s1)(port \<mapsto> p\<lparr>ip_seqno := ip_seqno p + (if handed then 1 else 0)\<rparr>)"
    "ks_psets s' = ks_psets s1" "ks_spaces s' = ks_spaces s1"
    "\<And>x. x \<notin> set ths - set ths' \<Longrightarrow> ks_threads s' x = ks_threads s1 x"
    "\<And>x. x \<in> set away \<Longrightarrow> \<exists>t sz. ks_threads s' x = Some t \<and> ith_state t \<noteq> MACH_MSG_SUCCESS \<and> ith_data t = ITH_MSIZE sz"
    "if handed then \<exists>th t. ths = away @ th # ths' \<and> ks_threads s' th = Some t \<and>
        ith_data t = ITH_KMSG kmsg \<and> ith_seqno t = ip_seqno p
     else ths = away \<and> ths' = []"
    by (rule search_okE) (rule that)
  have sub: "set ths' \<subseteq> set ths" using o(7) by (auto split: if_splits)
  have th: "ks_threads s' th = ks_threads s1 th" using assms(4) o(5) [of th] by simp
  show ?thesis
    unfolding search_ok_def
  proof (intro exI conjI)
    show "ks_ports s port = Some p" using o(1) by (simp add: s1)
    show "ks_ports s' = (ks_ports s)(port \<mapsto> p\<lparr>ip_seqno := ip_seqno p + (if handed then 1 else 0)\<rparr>)"
      using o(2) by (simp add: s1)
    show "ks_psets s' = ks_psets s" "ks_spaces s' = ks_spaces s" using o(3,4) by (simp_all add: s1)
    show "\<forall>x. x \<notin> set (th # ths) - set ths' \<longrightarrow> ks_threads s' x = ks_threads s x"
      using o(5) assms(4) sub by (auto simp: s1)
    show "\<forall>x\<in>set (th # away). \<exists>t sz. ks_threads s' x = Some t \<and> ith_state t \<noteq> MACH_MSG_SUCCESS \<and> ith_data t = ITH_MSIZE sz"
      using o(6) th assms(3) by (auto simp: s1)
    show "if handed then \<exists>tha t. th # ths = (th # away) @ tha # ths' \<and> ks_threads s' tha = Some t \<and>
        ith_data t = ITH_KMSG kmsg \<and> ith_seqno t = ip_seqno p
      else th # ths = th # away \<and> ths' = []"
      using o(7) by (simp split: if_splits)
  qed
qed

lemma ex_bool [simp]:
  "(\<exists>b. b \<and> P b) = P True" "(\<exists>b. \<not> b \<and> P b) = P False"
  by auto

lemma search_ok_pre:
  assumes "search_ok kmsg port (th # ths) s2 handed ths' s'" "th \<notin> set ths'"
    "ks_ports s2 = ks_ports s" "ks_psets s2 = ks_psets s" "ks_spaces s2 = ks_spaces s"
    "\<And>x. x \<noteq> th \<Longrightarrow> ks_threads s2 x = ks_threads s x"
  shows "search_ok kmsg port (th # ths) s handed ths' s'"
proof -
  have "ks_threads s' x = ks_threads s x"
    if "\<forall>x. x \<notin> set (th # ths) - set ths' \<longrightarrow> ks_threads s' x = ks_threads s2 x"
      "x \<notin> set (th # ths) - set ths'" for x
    using that assms(2) assms(6) [of x] by (cases "x = th") auto
  then show ?thesis using assms(1) unfolding search_ok_def assms(3-5) by blast
qed

lemma search_ok_rest: "search_ok kmsg port ths s handed ths' s' \<Longrightarrow> set ths' \<subseteq> set ths"
  by (erule search_okE) (auto split: if_splits)

lemma hand_over_total:
  "ks_ports s port = Some p \<Longrightarrow> ks_threads s th = Some t \<Longrightarrow> \<exists>s'. hand_over go th mr kmsg port s = Some s'"
  by (simp add: hand_over_def mod_thread_def mod_port_def)

lemma hand_over_search:
  assumes "ks_ports s port = Some p" "ks_threads s th = Some t" "th \<notin> set ths"
  shows "\<exists>handed ths' s'. map_option (\<lambda>s. (True, ths, s)) (hand_over go th mr kmsg port s) = Some (handed, ths', s') \<and>
    search_ok kmsg port (th # ths) s handed ths' s'"
proof -
  obtain s' where "hand_over go th mr kmsg port s = Some s'" using hand_over_total [OF assms(1,2)] by blast
  then show ?thesis using search_ok_hand [OF _ assms(3)] by simp
qed

lemma rcv_waiting_other: "ks_threads s' x = ks_threads s x \<Longrightarrow> rcv_waiting s' x = rcv_waiting s x"
  by (simp add: rcv_waiting_def)

lemma rcv_waiting_others:
  assumes "distinct (th # ths)" "\<forall>x\<in>set (th # ths). rcv_waiting s x" "\<And>x. x \<noteq> th \<Longrightarrow> ks_threads s' x = ks_threads s x"
  shows "\<forall>x\<in>set ths. rcv_waiting s' x"
proof
  fix x assume "x \<in> set ths"
  then have "x \<noteq> th" "rcv_waiting s x" using assms(1,2) by auto
  then show "rcv_waiting s' x" using rcv_waiting_other [OF assms(3)] by blast
qed

lemma rcv_waitingE:
  assumes "rcv_waiting s th"
  obtains t msize where "ks_threads s th = Some t" "ith_data t = ITH_MSIZE msize"
    "GET_RCV_ELEMENTS (ith_rcv_option t) < length trailer_size"
    "\<And>l. ith_list t = Some l \<Longrightarrow> kmsg_descriptors l \<noteq> None"
proof -
  from assms obtain t where "ks_threads s th = Some t"
      "case ith_data t of ITH_MSIZE _ \<Rightarrow> True | ITH_KMSG _ \<Rightarrow> False"
      "GET_RCV_ELEMENTS (ith_rcv_option t) < length trailer_size"
      "case ith_list t of None \<Rightarrow> True | Some l \<Rightarrow> kmsg_descriptors l \<noteq> None"
    by (cases "ks_threads s th") (simp_all add: rcv_waiting_def)
  then show ?thesis by (cases "ith_data t") (rule that [of t], simp_all split: option.splits)
qed

lemma turn_away_search:
  assumes "ks_ports s port = Some p" "ks_threads s th = Some t" "distinct (th # ths)" "mr \<noteq> MACH_MSG_SUCCESS"
    "\<And>s1. ks_ports s1 port = Some p \<Longrightarrow> (\<And>x. x \<noteq> th \<Longrightarrow> ks_threads s1 x = ks_threads s x) \<Longrightarrow>
       \<exists>handed ths' s'. f s1 = Some (handed, ths', s') \<and> search_ok kmsg port ths s1 handed ths' s'"
  shows "\<exists>handed ths' s'. turn_away th mr sz s \<bind> f = Some (handed, ths', s') \<and>
    search_ok kmsg port (th # ths) s handed ths' s'"
proof -
  obtain s1 where s1: "turn_away th mr sz s = Some s1" "ks_ports s1 port = Some p"
      "\<And>x. x \<noteq> th \<Longrightarrow> ks_threads s1 x = ks_threads s x"
    using assms(1,2) by (auto simp: turn_away_def mod_thread_def)
  obtain handed ths' s' where "f s1 = Some (handed, ths', s')" "search_ok kmsg port ths s1 handed ths' s'"
    using assms(5) [OF s1(2,3)] by blast
  then show ?thesis using search_ok_away [OF s1(1) _ assms(4)] assms(3) s1(1) by auto
qed

lemma rcv_codes:
  "MACH_RCV_TOO_LARGE \<noteq> MACH_MSG_SUCCESS" "MACH_RCV_INVALID_TYPE \<noteq> MACH_MSG_SUCCESS"
  "MACH_RCV_SCATTER_SMALL \<noteq> MACH_MSG_SUCCESS" "MACH_RCV_HEADER_ERROR \<noteq> MACH_MSG_SUCCESS"
  by (simp_all add: MACH_RCV_TOO_LARGE_def MACH_RCV_INVALID_TYPE_def MACH_RCV_SCATTER_SMALL_def
      MACH_RCV_HEADER_ERROR_def MACH_MSG_SUCCESS_def)

lemma send_old_search:
  assumes "ks_ports s port = Some p" "distinct ths" "\<forall>th\<in>set ths. rcv_waiting s th"
  shows "\<exists>handed ths' s'. send_old opt kmsg port ths s = Some (handed, ths', s') \<and> search_ok kmsg port ths s handed ths' s'"
  using assms
proof (induction ths arbitrary: s)
  case Nil
  then show ?case by (simp add: search_ok_Nil)
next
  case (Cons th ths)
  from Cons.prems obtain t msize where t: "ks_threads s th = Some t" "ith_data t = ITH_MSIZE msize"
    by (auto simp: rcv_waiting_def split: option.splits ith_data.splits)
  have hand: "\<exists>handed ths' s'. hand_over go th mr kmsg port s \<bind> (\<lambda>s. Some (True, ths, s)) = Some (handed, ths', s') \<and>
      search_ok kmsg port (th # ths) s handed ths' s'" for go mr
    using hand_over_search [OF Cons.prems(1) t(1), of ths go mr kmsg] Cons.prems(2) by (auto split: bind_splits)
  have away: "\<exists>handed ths' s'. turn_away th MACH_RCV_TOO_LARGE sz s \<bind> send_old opt kmsg port ths = Some (handed, ths', s') \<and>
      search_ok kmsg port (th # ths) s handed ths' s'" for sz
  proof (rule turn_away_search [OF Cons.prems(1) t(1) Cons.prems(2) rcv_codes(1)])
    fix s1 :: ipc_state assume s1: "ks_ports s1 port = Some p" "\<And>x. x \<noteq> th \<Longrightarrow> ks_threads s1 x = ks_threads s x"
    show "\<exists>handed ths' s'. send_old opt kmsg port ths s1 = Some (handed, ths', s') \<and> search_ok kmsg port ths s1 handed ths' s'"
    proof (rule Cons.IH [OF s1(1)])
      show "distinct ths" using Cons.prems(2) by simp
      show "\<forall>x\<in>set ths. rcv_waiting s1 x" by (rule rcv_waiting_others [OF Cons.prems(2,3) s1(2)])
    qed
  qed
  show ?case using hand away by (simp add: t Let_def)
qed

lemma send_old_switch: "opt AND MACH_SEND_SWITCH = 0 \<Longrightarrow> send_old opt kmsg port ths = move_old kmsg port ths"
  by (induction ths) (rule ext, simp add: Let_def cong: if_cong)+

lemma move_old_search:
  assumes "ks_ports s port = Some p" "distinct ths" "\<forall>th\<in>set ths. rcv_waiting s th"
  shows "\<exists>handed ths' s'. move_old kmsg port ths s = Some (handed, ths', s') \<and> search_ok kmsg port ths s handed ths' s'"
  using send_old_search [OF assms, of 0 kmsg] by (simp add: send_old_switch)

lemma check_scatter_total:
  assumes "kmsg_descriptors kmsg \<noteq> None" "kmsg_descriptors l \<noteq> None"
  shows "\<exists>mr l' s'. ipc_kmsg_check_scatter kmsg opt l s = Some (mr, l', s') \<and> kmsg_descriptors l' \<noteq> None \<and>
    ks_ports s' = ks_ports s \<and> ks_psets s' = ks_psets s \<and> ks_spaces s' = ks_spaces s \<and> ks_threads s' = ks_threads s"
proof -
  obtain gs ss where d: "kmsg_descriptors kmsg = Some gs" "kmsg_descriptors l = Some ss" using assms by blast
  show ?thesis
    unfolding ipc_kmsg_check_scatter_def d
    using d by (auto simp: zalloc_def Let_def kmsg_descriptors.simps split: list.split check_result.split bool.split)
qed

lemma move_new_search:
  assumes "ks_ports s port = Some p" "distinct ths" "\<forall>th\<in>set ths. rcv_waiting s th"
    "msgh_bits kmsg AND MACH_MSGH_BITS_COMPLEX \<noteq> 0 \<longrightarrow> kmsg_descriptors kmsg \<noteq> None"
  shows "\<exists>handed ths' s'. move_new kmsg port ths s = Some (handed, ths', s') \<and> search_ok kmsg port ths s handed ths' s'"
  using assms(1-3)
proof (induction ths arbitrary: s)
  case Nil
  then show ?case by (simp add: search_ok_Nil)
next
  case (Cons th ths)
  define ok where "ok = (\<lambda>s r. \<exists>handed ths' s'. r = Some (handed, ths', s') \<and> search_ok kmsg port (th # ths) s handed ths' s')"
  from Cons.prems obtain t msize where t: "ks_threads s th = Some t" "ith_data t = ITH_MSIZE msize"
      "GET_RCV_ELEMENTS (ith_rcv_option t) < length trailer_size"
      "\<And>l. ith_list t = Some l \<Longrightarrow> kmsg_descriptors l \<noteq> None"
    using rcv_waitingE [of s th] by auto
  have hand: "ok s1 (map_option (\<lambda>s. (True, ths, s)) (hand_over (ThreadGo th) th mr kmsg port s1))"
    if "ks_ports s1 port = Some p" "ks_threads s1 th \<noteq> None" for mr s1
    unfolding ok_def using hand_over_search [OF that(1)] that(2) Cons.prems(2) by fastforce
  have away: "ok s1 (turn_away th mr sz s1 \<bind> move_new kmsg port ths)"
    if s1: "ks_ports s1 port = Some p" "ks_threads s1 th \<noteq> None"
      "\<And>x. x \<noteq> th \<Longrightarrow> ks_threads s1 x = ks_threads s x" and "mr \<noteq> MACH_MSG_SUCCESS" for mr sz s1
  proof -
    obtain t1 where t1: "ks_threads s1 th = Some t1" using s1(2) by blast
    show ?thesis
      unfolding ok_def
    proof (rule turn_away_search [OF s1(1) t1 Cons.prems(2) \<open>mr \<noteq> _\<close>])
      fix s2 :: ipc_state
      assume s2: "ks_ports s2 port = Some p" "\<And>x. x \<noteq> th \<Longrightarrow> ks_threads s2 x = ks_threads s1 x"
      show "\<exists>handed ths' s'. move_new kmsg port ths s2 = Some (handed, ths', s') \<and> search_ok kmsg port ths s2 handed ths' s'"
      proof (rule Cons.IH [OF s2(1)])
        show "distinct ths" using Cons.prems(2) by simp
        show "\<forall>x\<in>set ths. rcv_waiting s2 x"
          using s1(3) s2(2) by (intro rcv_waiting_others [OF Cons.prems(2,3)]) simp
      qed
    qed
  qed
  have scatter: "ok s (ipc_kmsg_check_scatter kmsg opt l s \<bind> (\<lambda>(mr, l, s).
      mod_thread th (\<lambda>t. t\<lparr>ith_list := Some l\<rparr>) s \<bind> (\<lambda>s. f mr s)))"
    if d: "kmsg_descriptors kmsg \<noteq> None" "kmsg_descriptors l \<noteq> None"
      "\<And>mr s1. ks_ports s1 port = Some p \<Longrightarrow> ks_threads s1 th \<noteq> None \<Longrightarrow>
         (\<And>x. x \<noteq> th \<Longrightarrow> ks_threads s1 x = ks_threads s x) \<Longrightarrow> ok s1 (f mr s1)" for opt l f
  proof -
    obtain mr l' s1 where s1: "ipc_kmsg_check_scatter kmsg opt l s = Some (mr, l', s1)"
        "ks_ports s1 = ks_ports s" "ks_psets s1 = ks_psets s" "ks_spaces s1 = ks_spaces s" "ks_threads s1 = ks_threads s"
      using check_scatter_total [OF d(1,2)] by blast
    define s2 where "s2 = put_thread th (t\<lparr>ith_list := Some l'\<rparr>) s1"
    have f: "ks_ports s2 = ks_ports s" "ks_psets s2 = ks_psets s" "ks_spaces s2 = ks_spaces s"
        "\<And>x. x \<noteq> th \<Longrightarrow> ks_threads s2 x = ks_threads s x" "ks_threads s2 th \<noteq> None"
      by (simp_all add: s2_def s1)
    obtain handed ths' s' where "f mr s2 = Some (handed, ths', s')" "search_ok kmsg port (th # ths) s2 handed ths' s'"
      using d(3) [of s2 mr] f Cons.prems(1) unfolding ok_def by auto
    moreover from this have "th \<notin> set ths'"
      using Cons.prems(2) by (elim search_okE) (auto split: if_splits simp: Cons_eq_append_conv)
    ultimately have "search_ok kmsg port (th # ths) s handed ths' s'"
      using search_ok_pre [OF _ _ f(1-4)] by blast
    then show ?thesis unfolding ok_def using \<open>f mr s2 = _\<close> by (simp add: s1 mod_thread_def t s2_def)
  qed
  obtain too_large where large: "receive_too_large t kmsg = Some too_large"
    by (simp add: receive_too_large_def REQUESTED_TRAILER_SIZE_def t(2,3))
  have th: "ks_threads s th \<noteq> None" by (simp add: t(1))
  have msize: "ith_msize t = Some msize" by (simp add: t(2))
  have d: "kmsg_descriptors kmsg \<noteq> None" if "\<not> \<not> msgh_bits kmsg AND MACH_MSGH_BITS_COMPLEX \<noteq> 0"
    using assms(4) that by blast
  have okI: "(b \<Longrightarrow> ok s1 x) \<Longrightarrow> (\<not> b \<Longrightarrow> ok s1 y) \<Longrightarrow> ok s1 (if b then x else y)"
      "(opt = None \<Longrightarrow> ok s1 x) \<Longrightarrow> (\<And>v. opt = Some v \<Longrightarrow> ok s1 (f v)) \<Longrightarrow>
       ok s1 (case opt of None \<Rightarrow> x | Some v \<Rightarrow> f v)" for b s1 x y f and opt :: "ipc_kmsg option"
    by (simp_all split: option.split)
  have "ok s (move_new kmsg port (th # ths) s)"
    unfolding move_new.simps t(1) msize large Let_def bind.bind_lunit
    by (intro okI hand away scatter d t(4) Cons.prems(1) th rcv_codes(1) refl)
  then show ?case by (simp add: ok_def)
qed

lemma send_new_eq: "send_new kmsg port ths = move_new kmsg port ths"
  by (induction ths) (rule ext, simp add: Let_def cong: if_cong option.case_cong)+

lemma send_interrupt_eq:
  assumes "msgh_bits kmsg AND MACH_MSGH_BITS_COMPLEX = 0"
  shows "send_interrupt kmsg port ths = move_new kmsg port ths"
proof (induction ths)
  case (Cons th ths)
  have choose: "(case l of None \<Rightarrow> x | Some _ \<Rightarrow> x) = x" for l :: "ipc_kmsg option" and x :: "(bool \<times> ptr list \<times> ipc_state) option"
    by (simp split: option.split)
  show ?case by (rule ext) (simp add: assms Cons choose Let_def cong: if_cong option.case_cong)
qed (rule ext, simp)

end
