(* ===== verification/Ipc_Pset.thy ===== *)
theory Ipc_Pset
  imports Ipc_Mqueue
begin

text \<open>
  Port sets, \<^verbatim>\<open>src/ipc/ipc_pset.c\<close>: putting a port into a set, taking it out, moving it and
  destroying a set.  Sets are allocated in \<open>Ipc_Object\<close>.
\<close>

definition ipc_pset_add :: "ptr \<Rightarrow> ptr \<Rightarrow> ipc_state \<Rightarrow> ipc_state option" where
  "ipc_pset_add pset port s =
     do {
       s \<leftarrow> mod_port port (\<lambda>p. p\<lparr>ip_pset := pset\<rparr>) s;
       s \<leftarrow> mod_pset pset ips_reference s;
       s \<leftarrow> ipc_mqueue_move (PsetQueue pset) (PortQueue port) port s;
       ipc_mqueue_changed (PortQueue port) MACH_RCV_PORT_CHANGED s
     }"

definition ipc_pset_remove :: "ptr \<Rightarrow> ptr \<Rightarrow> ipc_state \<Rightarrow> ipc_state option" where
  "ipc_pset_remove pset port s =
     do {
       s \<leftarrow> mod_port port (\<lambda>p. p\<lparr>ip_pset := 0\<rparr>) s;
       s \<leftarrow> mod_pset pset ips_release s;
       ipc_mqueue_move (PortQueue port) (PsetQueue pset) port s
     }"

definition ipc_pset_move :: "ptr \<Rightarrow> ptr \<Rightarrow> ipc_state \<Rightarrow> (kern_return \<times> ipc_state) option" where
  "ipc_pset_move port nset s =
     do {
       p \<leftarrow> ks_ports s port;
       let oset = ip_pset p;
       (oset, s) \<leftarrow>
         (if oset = nset then Some (oset, s)
          else if oset = 0 then map_option (Pair oset) (ipc_pset_add nset port s)
          else if nset = 0 then
            do {
              s \<leftarrow> ipc_pset_remove oset port s;
              ps \<leftarrow> ks_psets s oset;
              (if ips_active ps then Some (oset, s)
               else map_option (Pair 0) (ips_check_unlock oset s))
            }
          else
            do {
              s \<leftarrow> ipc_pset_remove oset port s;
              s \<leftarrow> ipc_pset_add nset port s;
              map_option (Pair oset) (ips_check_unlock oset s)
            });
       Some (if nset = 0 \<and> oset = 0 then KERN_NOT_IN_SET else KERN_SUCCESS, s)
     }"

definition ipc_pset_destroy :: "ptr \<Rightarrow> ipc_state \<Rightarrow> ipc_state option" where
  "ipc_pset_destroy pset s =
     do {
       s \<leftarrow> mod_pset pset (\<lambda>ps. ps\<lparr>ips_bits := ips_bits ps AND NOT IO_BITS_ACTIVE\<rparr>) s;
       s \<leftarrow> ipc_mqueue_changed (PsetQueue pset) MACH_RCV_PORT_DIED s;
       s \<leftarrow> mod_pset pset ips_release s;
       ips_check_unlock pset s
     }"

end
