(* ===== verification/Ipc_Port.thy ===== *)
theory Ipc_Port
  imports Ipc_Pset
begin

text \<open>
  Ports, \<^verbatim>\<open>src/ipc/ipc_port.c\<close>: timestamps, the table of dead-name requests, queue limits,
  initialisation, the check for circular transit, and naked rights.  Destruction of
  ports, which is entangled with notifications and with the rights of a space, is in
  \<open>Ipc_Destroy\<close>.
\<close>

section \<open>Timestamps\<close>

definition ipc_port_timestamp :: "ipc_state \<Rightarrow> u32 \<times> ipc_state" where
  "ipc_port_timestamp s = (ks_timestamp s, s\<lparr>ks_timestamp := ks_timestamp s + 1\<rparr>)"

definition IP_TIMESTAMP_ORDER :: "u32 \<Rightarrow> u32 \<Rightarrow> bool" where
  "IP_TIMESTAMP_ORDER one two \<longleftrightarrow> sint (one - two) < 0"

section \<open>Tagged pointers\<close>

text \<open>\<open>ip_pdsendp\<close>, \<open>ip_pdsend\<close>, \<open>ip_pdsendm\<close> and \<open>ipr_spacep\<close>, \<open>ipr_space\<close>, \<open>ipr_spacem\<close>\<close>

definition ip_pdsendp :: "ptr \<Rightarrow> bool" where "ip_pdsendp soright \<longleftrightarrow> soright AND 1 \<noteq> 0"
definition ip_pdsend :: "ptr \<Rightarrow> ptr" where "ip_pdsend soright = soright AND NOT 1"
definition ip_pdsendm :: "ptr \<Rightarrow> ptr" where "ip_pdsendm sright = sright OR 1"
definition ipr_spacep :: "ptr \<Rightarrow> bool" where "ipr_spacep soright \<longleftrightarrow> soright AND 1 \<noteq> 0"
definition ipr_space :: "ptr \<Rightarrow> ptr" where "ipr_space soright = soright AND NOT 1"
definition ipr_spacem :: "ptr \<Rightarrow> ptr" where "ipr_spacem space = space OR 1"

section \<open>Dead-name requests\<close>

definition ipc_port_dnrequest ::
    "ipc_port \<Rightarrow> mach_port_t \<Rightarrow> ptr \<Rightarrow> kern_return + (nat \<times> ipc_port)" where
  "ipc_port_dnrequest port name soright =
     (case ip_dnrequests port of
        None \<Rightarrow> Inl KERN_NO_SPACE
      | Some (a, table) \<Rightarrow>
          let index = unat (ipr_notify (table ! 0))
          in if index = 0 then Inl KERN_NO_SPACE
             else
               let ipr = table ! index;
                   table = table[0 := (table ! 0)\<lparr>ipr_notify := ipr_notify ipr\<rparr>];
                   table = table[index := \<lparr>ipr_notify = soright, ipr_name = name\<rparr>]
               in Inr (index, port\<lparr>ip_dnrequests := Some (a, table)\<rparr>))"

text \<open>The elements that are added to the free list, from \<open>osize\<close> up.\<close>

fun dngrow_free :: "nat list \<Rightarrow> ipc_port_request list \<Rightarrow> nat \<Rightarrow> ipc_port_request list \<times> nat" where
  "dngrow_free [] ntable free = (ntable, free)"
| "dngrow_free (i # is) ntable free =
     dngrow_free is (ntable[i := \<lparr>ipr_notify = of_nat free, ipr_name = MACH_PORT_NULL\<rparr>]) i"

definition ipr_zero :: ipc_port_request where
  "ipr_zero = \<lparr>ipr_notify = 0, ipr_name = 0\<rparr>"

text \<open>The new table, with position \<open>its\<close> in \<open>dnits\<close>, made from the old one.\<close>

definition dngrow_table :: "nat list \<Rightarrow> nat \<Rightarrow> ipc_port_request list option \<Rightarrow> ipc_port_request list" where
  "dngrow_table dnits its otable =
     (let nsize = dnits ! its;
          (osize, free, ntable) =
            (case otable of
               None \<Rightarrow> (1, 0, replicate nsize ipr_zero)
             | Some table \<Rightarrow>
                 let osize = dnits ! unat (ipr_name (table ! 0))
                 in (osize, unat (ipr_notify (table ! 0)),
                     ipr_zero # take (osize - 1) (tl table) @ replicate (nsize - osize) ipr_zero));
          (ntable, free) = dngrow_free [osize..<nsize] ntable free
      in ntable[0 := \<lparr>ipr_notify = of_nat free, ipr_name = of_nat its\<rparr>])"

text \<open>The search for a size that satisfies the target, from position \<open>its\<close> of \<open>dnits\<close>.\<close>

fun dngrow_target :: "nat \<Rightarrow> nat list \<Rightarrow> nat \<Rightarrow> nat \<Rightarrow> nat" where
  "dngrow_target 0 dnits target its = its"
| "dngrow_target (Suc fuel) dnits target its =
     (if dnits ! its \<noteq> 0 \<and> dnits ! its < target then dngrow_target fuel dnits target (its + 1) else its)"

text \<open>
  The port is unlocked while memory is allocated; \<open>env\<close> is what happens then.
\<close>

definition ipc_port_dngrow ::
    "(ipc_state \<Rightarrow> ipc_state) \<Rightarrow> ptr \<Rightarrow> nat option \<Rightarrow> ipc_state \<Rightarrow> (kern_return \<times> ipc_state) option" where
  "ipc_port_dngrow env port tsize s =
     do {
       p \<leftarrow> ks_ports s port;
       let dnits = ks_dnits s;
       let otable = ip_dnrequests p;
       let oits = (\<lambda>table. unat (ipr_name (table ! 0)));
       let its = (case otable of None \<Rightarrow> 0 | Some (a, table) \<Rightarrow> oits table + 1);
       let (stop, its) =
         (case tsize of
            None \<Rightarrow> (None, its)
          | Some target \<Rightarrow>
              if (case otable of None \<Rightarrow> False | Some (a, table) \<Rightarrow> target \<le> dnits ! oits table)
              then (Some KERN_SUCCESS, its)
              else
                let its = dngrow_target (length dnits) dnits target its
                in (if dnits ! its = 0 then Some KERN_NO_SPACE else None, its));
       (case stop of
          Some kr \<Rightarrow> Some (kr, s)
        | None \<Rightarrow>
            do {
              let s = put_port port (ip_reference p) s;
              let (ntable, s) = (if dnits ! its = 0 then (0, s) else zalloc s);
              let s = env s;
              (if ntable = 0 then map_option (Pair KERN_RESOURCE_SHORTAGE) (ipc_port_release port s)
               else
                 do {
                   s \<leftarrow> mod_port port ip_release s;
                   p \<leftarrow> ks_ports s port;
                   (if ip_active p \<and> map_option fst (ip_dnrequests p) = map_option fst otable \<and>
                       (case ip_dnrequests p of None \<Rightarrow> True | Some (a, table) \<Rightarrow> oits table + 1 = its)
                    then Some (KERN_SUCCESS, put_port port
                           (p\<lparr>ip_dnrequests := Some (ntable, dngrow_table dnits its (map_option snd (ip_dnrequests p)))\<rparr>) s)
                    else map_option (Pair KERN_SUCCESS) (ip_check_unlock port s))
                 })
            })
     }"

definition ipc_port_dncancel :: "ipc_port \<Rightarrow> mach_port_t \<Rightarrow> nat \<Rightarrow> (ptr \<times> ipc_port) option" where
  "ipc_port_dncancel port name index =
     (case ip_dnrequests port of
        None \<Rightarrow> None
      | Some (a, table) \<Rightarrow>
          let dnrequest = ipr_notify (table ! index);
              table = table[index := \<lparr>ipr_notify = ipr_notify (table ! 0), ipr_name = MACH_PORT_NULL\<rparr>];
              table = table[0 := (table ! 0)\<lparr>ipr_notify := of_nat index\<rparr>]
          in Some (dnrequest, port\<lparr>ip_dnrequests := Some (a, table)\<rparr>))"

definition ipc_port_dnrename :: "ipc_port \<Rightarrow> nat \<Rightarrow> mach_port_t \<Rightarrow> mach_port_t \<Rightarrow> ipc_port option" where
  "ipc_port_dnrename port index oname nname =
     (case ip_dnrequests port of
        None \<Rightarrow> None
      | Some (a, table) \<Rightarrow>
          Some (port\<lparr>ip_dnrequests := Some (a, table[index := (table ! index)\<lparr>ipr_name := nname\<rparr>])\<rparr>))"

section \<open>Attributes\<close>

definition ipc_port_pdrequest :: "ptr \<Rightarrow> ptr \<Rightarrow> ipc_state \<Rightarrow> (ptr \<times> ipc_state) option" where
  "ipc_port_pdrequest port notify s =
     map_option (\<lambda>p. (ip_pdrequest p, put_port port (p\<lparr>ip_pdrequest := notify\<rparr>) s)) (ks_ports s port)"

definition MACH_PORT_QLIMIT_DEFAULT :: nat where "MACH_PORT_QLIMIT_DEFAULT = 5"
definition MACH_PORT_QLIMIT_MAX :: nat where "MACH_PORT_QLIMIT_MAX = 16"

text \<open>Waking the first threads of a queue of blocked senders.\<close>

fun wake_senders :: "ptr list \<Rightarrow> ipc_state \<Rightarrow> ipc_state option" where
  "wake_senders [] s = Some s"
| "wake_senders (th # ths) s =
     do {
       s \<leftarrow> mod_thread th (\<lambda>t. t\<lparr>ith_state := MACH_MSG_SUCCESS\<rparr>) s;
       wake_senders ths (effect (ThreadGo th) s)
     }"

definition ipc_port_set_qlimit :: "ptr \<Rightarrow> nat \<Rightarrow> ipc_state \<Rightarrow> ipc_state option" where
  "ipc_port_set_qlimit port qlimit s =
     do {
       p \<leftarrow> ks_ports s port;
       let wakeup = (if qlimit > ip_qlimit p then qlimit - ip_qlimit p else 0);
       s \<leftarrow> wake_senders (take wakeup (ip_blocked p)) s;
       mod_port port (\<lambda>p. p\<lparr>ip_blocked := drop wakeup (ip_blocked p), ip_qlimit := qlimit\<rparr>) s
     }"

definition ipc_port_set_seqno :: "ptr \<Rightarrow> u32 \<Rightarrow> ipc_state \<Rightarrow> ipc_state option" where
  "ipc_port_set_seqno port seqno s =
     do {
       p \<leftarrow> ks_ports s port;
       s \<leftarrow>
         (if ip_pset p = 0 then Some s
          else
            do {
              ps \<leftarrow> ks_psets s (ip_pset p);
              (if ips_active ps then Some s
               else ipc_pset_remove (ip_pset p) port s \<bind> ips_check_unlock (ip_pset p))
            });
       mod_port port (\<lambda>p. p\<lparr>ip_seqno := seqno\<rparr>) s
     }"

definition ipc_port_clear_receiver :: "ptr \<Rightarrow> ipc_state \<Rightarrow> ipc_state option" where
  "ipc_port_clear_receiver port s =
     do {
       p \<leftarrow> ks_ports s port;
       s \<leftarrow>
         (if ip_pset p \<noteq> 0 then ipc_pset_remove (ip_pset p) port s \<bind> ips_check_unlock (ip_pset p)
          else ipc_mqueue_changed (PortQueue port) MACH_RCV_PORT_DIED s);
       mod_port port (\<lambda>p. p\<lparr>ip_mscount := 0, ip_seqno := 0\<rparr>) s
     }"

definition ipc_port_init :: "ptr \<Rightarrow> mach_port_t \<Rightarrow> ipc_port \<Rightarrow> ipc_port" where
  "ipc_port_init space name port =
     port\<lparr>ip_data := space, ip_receiver_name := name, ip_mscount := 0, ip_srights := 0, ip_sorights := 0,
          ip_nsrequest := 0, ip_pdrequest := 0, ip_dnrequests := None, ip_pset := 0, ip_seqno := 0,
          ip_msgcount := 0, ip_qlimit := MACH_PORT_QLIMIT_DEFAULT,
          ip_messages := ipc_mqueue_init, ip_blocked := []\<rparr>"

section \<open>Circular transit\<close>

text \<open>A port in transit: active, without a receiver, and with a destination.\<close>

definition ip_in_transit :: "ipc_port \<Rightarrow> bool" where
  "ip_in_transit p \<longleftrightarrow> ip_active p \<and> ip_receiver_name p = MACH_PORT_NULL \<and> ip_data p \<noteq> 0"

text \<open>The end of the chain of destinations, a port not in transit.\<close>

partial_function (option) transit_base :: "ipc_state \<Rightarrow> ptr \<Rightarrow> ptr option" where
  "transit_base s base =
     (case ks_ports s base of
        None \<Rightarrow> None
      | Some p \<Rightarrow> if \<not> ip_in_transit p then Some base else transit_base s (ip_data p))"

text \<open>\<open>try\<close> tells whether the attempt to lock \<open>dest\<close> for the quick check succeeds.\<close>

definition ipc_port_check_circularity :: "bool \<Rightarrow> ptr \<Rightarrow> ptr \<Rightarrow> ipc_state \<Rightarrow> (bool \<times> ipc_state) option" where
  "ipc_port_check_circularity try port dest s =
     (if port = dest then Some (True, s)
      else
        do {
          d \<leftarrow> ks_ports s dest;
          circular \<leftarrow>
            (if try \<and> \<not> ip_in_transit d then Some False
             else map_option (\<lambda>base. port = base) (transit_base s dest));
          (if circular then Some (True, s)
           else
             do {
               s \<leftarrow> mod_port dest ip_reference s;
               s \<leftarrow> mod_port port (\<lambda>p. p\<lparr>ip_data := dest\<rparr>) s;
               Some (False, s)
             })
        })"

section \<open>Naked rights\<close>

definition ipc_port_lookup_notify :: "ptr \<Rightarrow> mach_port_t \<Rightarrow> ipc_state \<Rightarrow> (ptr \<times> ipc_state) option" where
  "ipc_port_lookup_notify space name s =
     do {
       (e, s) \<leftarrow> entry_lookup space name s;
       (case e of
          None \<Rightarrow> Some (0, s)
        | Some e \<Rightarrow>
            do {
              entry \<leftarrow> get_entry space e s;
              (if ie_bits entry AND MACH_PORT_TYPE_RECEIVE = 0 then Some (0, s)
               else
                 do {
                   let port = ie_object entry;
                   s \<leftarrow> mod_port port (\<lambda>p. (ip_reference p)\<lparr>ip_sorights := ip_sorights p + 1\<rparr>) s;
                   Some (port, s)
                 })
            })
     }"

definition ipc_port_make_send :: "ptr \<Rightarrow> ipc_state \<Rightarrow> (ptr \<times> ipc_state) option" where
  "ipc_port_make_send port s =
     map_option (Pair port)
       (mod_port port (\<lambda>p. (ip_reference p)\<lparr>ip_mscount := ip_mscount p + 1, ip_srights := ip_srights p + 1\<rparr>) s)"

definition ipc_port_copy_send :: "ptr \<Rightarrow> ipc_state \<Rightarrow> (ptr \<times> ipc_state) option" where
  "ipc_port_copy_send port s =
     (if \<not> IO_VALID port then Some (port, s)
      else
        do {
          p \<leftarrow> ks_ports s port;
          Some (if ip_active p then (port, put_port port ((ip_reference p)\<lparr>ip_srights := ip_srights p + 1\<rparr>) s)
                else (IO_DEAD, s))
        })"

text \<open>\<open>ipc_space_make_notify\<close>\<close>

definition ipc_space_make_notify :: "ptr \<Rightarrow> ipc_state \<Rightarrow> (ptr \<times> ipc_state) option" where
  "ipc_space_make_notify space s = ks_spaces s space \<bind> (\<lambda>is. ipc_port_copy_send (is_notify is) s)"

definition ipc_port_make_sonce :: "ptr \<Rightarrow> ipc_state \<Rightarrow> (ptr \<times> ipc_state) option" where
  "ipc_port_make_sonce port s =
     map_option (Pair port) (mod_port port (\<lambda>p. (ip_reference p)\<lparr>ip_sorights := ip_sorights p + 1\<rparr>) s)"

definition ipc_port_release_sonce :: "ptr \<Rightarrow> ipc_state \<Rightarrow> ipc_state option" where
  "ipc_port_release_sonce port s =
     do {
       p \<leftarrow> ks_ports s port;
       (if \<not> ip_active p then ip_check_unlock port (put_port port (ip_release p) s)
        else Some (put_port port ((ip_release p)\<lparr>ip_sorights := ip_sorights p - 1\<rparr>) s))
     }"

definition ipc_port_alloc_special :: "ipc_port \<Rightarrow> ptr \<Rightarrow> ipc_state \<Rightarrow> ptr \<times> ipc_state" where
  "ipc_port_alloc_special fresh space s =
     (let (port, s) = zalloc s
      in if port = 0 then (0, s)
         else (port, put_port port
                (ipc_port_init space 1 (fresh\<lparr>ip_references := 1, ip_bits := io_makebits True IOT_PORT 0\<rparr>)) s))"

section \<open>Timestamps are ordered\<close>

text \<open>The timestamp handed out after \<open>n\<close> others.\<close>

definition nth_timestamp :: "nat \<Rightarrow> ipc_state \<Rightarrow> u32" where
  "nth_timestamp n s = fst (ipc_port_timestamp (((snd \<circ> ipc_port_timestamp) ^^ n) s))"

lemma nth_timestamp_eq: "nth_timestamp n s = ks_timestamp s + of_nat n"
proof -
  have "ks_timestamp (((snd \<circ> ipc_port_timestamp) ^^ n) s) = ks_timestamp s + of_nat n"
    by (induction n) (simp_all add: ipc_port_timestamp_def)
  then show ?thesis by (simp add: nth_timestamp_def ipc_port_timestamp_def)
qed

lemma sint_of_int_small:
  assumes "- (2 ^ 31) \<le> k" and "k < 2 ^ 31"
  shows "sint (of_int k :: u32) = k"
  using assms by (simp add: signed_of_int signed_take_bit_int_eq_self)

text \<open>C24: Timestamps of port deaths are ordered as they were handed out, also when the counter wraps
  around between them, as long as fewer than 2^31 timestamps lie between the two.\<close>

theorem timestamp_order:
  assumes "m < n + 2 ^ 31" and "n < m + 2 ^ 31"
  shows "IP_TIMESTAMP_ORDER (nth_timestamp m s) (nth_timestamp n s) \<longleftrightarrow> m < n"
proof -
  have "nth_timestamp m s - nth_timestamp n s = of_int (int m - int n)"
    by (simp add: nth_timestamp_eq)
  moreover have "sint (of_int (int m - int n) :: u32) = int m - int n"
    using assms by (intro sint_of_int_small) auto
  ultimately show ?thesis by (simp add: IP_TIMESTAMP_ORDER_def)
qed

section \<open>The table of dead-name requests\<close>

text \<open>The free list, from its first index.\<close>

fun dn_chain :: "ipc_port_request list \<Rightarrow> u32 \<Rightarrow> nat list \<Rightarrow> bool" where
  "dn_chain table i [] \<longleftrightarrow> i = 0"
| "dn_chain table i (x # xs) \<longleftrightarrow>
     i = of_nat x \<and> 0 < x \<and> x < length table \<and> ipr_name (table ! x) = 0 \<and> dn_chain table (ipr_notify (table ! x)) xs"

definition dn_inv :: "ipc_port_request list \<Rightarrow> bool" where
  "dn_inv table \<longleftrightarrow> 0 < length table \<and> length table < 2 ^ 32 \<and>
     (\<exists>xs. dn_chain table (ipr_notify (table ! 0)) xs \<and> distinct xs \<and>
       set xs = {i. 0 < i \<and> i < length table \<and> ipr_name (table ! i) = 0})"

text \<open>The requests that a table holds.\<close>

definition dn_requests :: "ipc_port_request list \<Rightarrow> nat \<rightharpoonup> mach_port_t \<times> ptr" where
  "dn_requests table i =
     (if 0 < i \<and> i < length table \<and> ipr_name (table ! i) \<noteq> 0
      then Some (ipr_name (table ! i), ipr_notify (table ! i)) else None)"

lemma dn_chain_update:
  "i \<notin> set xs \<Longrightarrow> dn_chain table k xs \<Longrightarrow> dn_chain (table[i := r]) k xs"
  by (induction xs arbitrary: k) auto

lemma dn_chain_head:
  assumes "dn_chain table i xs" and "length table < 2 ^ 32"
  shows "xs = (if i = 0 then [] else unat i # tl xs)"
proof (cases xs)
  case Nil
  with assms show ?thesis by simp
next
  case (Cons x ys)
  with assms have "unat i = x" and "0 < x" by (auto simp: unsigned_of_nat take_bit_nat_eq_self)
  then show ?thesis using Cons by auto
qed

lemma dnrequest_None: "dn_inv table \<Longrightarrow> unat (ipr_notify (table ! 0)) = 0 \<Longrightarrow>
    (\<forall>i. 0 < i \<longrightarrow> i < length table \<longrightarrow> dn_requests table i \<noteq> None)"
proof -
  assume inv: "dn_inv table" and z: "unat (ipr_notify (table ! 0)) = 0"
  obtain xs where xs: "dn_chain table (ipr_notify (table ! 0)) xs"
      "set xs = {i. 0 < i \<and> i < length table \<and> ipr_name (table ! i) = 0}"
    and len: "length table < 2 ^ 32"
    using inv unfolding dn_inv_def by blast
  have "ipr_notify (table ! 0) = 0" using z by (simp add: unat_eq_0)
  then have "xs = []" using dn_chain_head [OF xs(1) len] by simp
  then show ?thesis using xs(2) by (auto simp: dn_requests_def)
qed

lemma dnrequest_table:
  fixes soright :: ptr
  assumes inv: "dn_inv table" and nz: "ipr_notify (table ! 0) \<noteq> 0" and name: "name \<noteq> 0"
  defines "index \<equiv> unat (ipr_notify (table ! 0))"
  defines "table' \<equiv> table[0 := (table ! 0)\<lparr>ipr_notify := ipr_notify (table ! index)\<rparr>,
                           index := \<lparr>ipr_notify = soright, ipr_name = name\<rparr>]"
  shows "dn_inv table'" "dn_requests table index = None" "0 < index" "index < length table"
    "dn_requests table' = (dn_requests table)(index \<mapsto> (name, soright))"
proof -
  obtain xs where xs: "dn_chain table (ipr_notify (table ! 0)) xs" "distinct xs"
      "set xs = {i. 0 < i \<and> i < length table \<and> ipr_name (table ! i) = 0}"
    and len: "0 < length table" "length table < 2 ^ 32"
    using inv unfolding dn_inv_def by blast
  obtain ys where ys: "xs = index # ys"
    using dn_chain_head [OF xs(1) len(2)] nz by (auto simp: index_def)
  have idx: "0 < index" "index < length table" "ipr_name (table ! index) = 0"
    and tail: "dn_chain table (ipr_notify (table ! index)) ys"
    using xs(1) unfolding ys by auto
  show "0 < index" "index < length table" by (fact idx)+
  show "dn_requests table index = None" using idx by (simp add: dn_requests_def)
  have nth: "table' ! i = (if i = index then \<lparr>ipr_notify = soright, ipr_name = name\<rparr>
      else if i = 0 then (table ! 0)\<lparr>ipr_notify := ipr_notify (table ! index)\<rparr> else table ! i)"
    if "i < length table" for i
    using that idx len by (auto simp: table'_def nth_list_update)
  have len': "length table' = length table" by (simp add: table'_def)
  have notin: "index \<notin> set ys" "0 \<notin> set ys" using xs(2,3) unfolding ys by auto
  have head: "ipr_notify (table' ! 0) = ipr_notify (table ! index)" using idx len by (simp add: nth)
  have "dn_chain table' (ipr_notify (table' ! 0)) ys"
    unfolding head unfolding table'_def using tail notin by (intro dn_chain_update)
  moreover have "set ys = {i. 0 < i \<and> i < length table' \<and> ipr_name (table' ! i) = 0}"
  proof (rule set_eqI)
    fix i
    have "i \<in> set ys \<longleftrightarrow> i \<noteq> index \<and> i \<in> set xs" using xs(2) ys by auto
    then show "i \<in> set ys \<longleftrightarrow> i \<in> {i. 0 < i \<and> i < length table' \<and> ipr_name (table' ! i) = 0}"
      unfolding xs(3) len' using name by (cases "i < length table") (simp_all add: nth)
  qed
  moreover have "distinct ys" using xs(2) ys by simp
  ultimately show "dn_inv table'" using len unfolding dn_inv_def len' by blast
  show "dn_requests table' = (dn_requests table)(index \<mapsto> (name, soright))"
  proof (rule ext)
    fix i
    show "dn_requests table' i = ((dn_requests table)(index \<mapsto> (name, soright))) i"
      using idx name by (cases "i < length table") (simp_all add: dn_requests_def len' nth)
  qed
qed

lemma dncancel_table:
  assumes inv: "dn_inv table" and req: "dn_requests table index = Some (name, soright)"
  defines "table' \<equiv> table[index := \<lparr>ipr_notify = ipr_notify (table ! 0), ipr_name = MACH_PORT_NULL\<rparr>,
                           0 := (table ! 0)\<lparr>ipr_notify := of_nat index\<rparr>]"
  shows "dn_inv table'" "dn_requests table' = (dn_requests table)(index := None)"
    "ipr_notify (table ! index) = soright" "ipr_notify (table' ! 0) = of_nat index"
proof -
  obtain xs where xs: "dn_chain table (ipr_notify (table ! 0)) xs" "distinct xs"
      "set xs = {i. 0 < i \<and> i < length table \<and> ipr_name (table ! i) = 0}"
    and len: "0 < length table" "length table < 2 ^ 32"
    using inv unfolding dn_inv_def by blast
  have idx: "0 < index" "index < length table" "ipr_name (table ! index) = name" "name \<noteq> 0"
    and so: "ipr_notify (table ! index) = soright"
    using req by (auto simp: dn_requests_def split: if_splits)
  show "ipr_notify (table ! index) = soright" by (fact so)
  have nth: "table' ! i = (if i = 0 then (table ! 0)\<lparr>ipr_notify := of_nat index\<rparr>
      else if i = index then \<lparr>ipr_notify = ipr_notify (table ! 0), ipr_name = MACH_PORT_NULL\<rparr> else table ! i)"
    if "i < length table" for i
    using that idx len by (auto simp: table'_def nth_list_update)
  have len': "length table' = length table" by (simp add: table'_def)
  show head: "ipr_notify (table' ! 0) = of_nat index" using len by (simp add: nth)
  have notin: "index \<notin> set xs" "0 \<notin> set xs" using xs(3) idx by auto
  have "dn_chain table' (ipr_notify (table ! 0)) xs"
    unfolding table'_def using xs(1) notin by (intro dn_chain_update)
  then have "dn_chain table' (ipr_notify (table' ! 0)) (index # xs)"
    unfolding head using idx by (simp add: nth len' MACH_PORT_NULL_def)
  moreover have "set (index # xs) = {i. 0 < i \<and> i < length table' \<and> ipr_name (table' ! i) = 0}"
  proof (rule set_eqI)
    fix i
    show "i \<in> set (index # xs) \<longleftrightarrow> i \<in> {i. 0 < i \<and> i < length table' \<and> ipr_name (table' ! i) = 0}"
      using idx xs(3) unfolding len' by (cases "i < length table") (auto simp: nth MACH_PORT_NULL_def)
  qed
  moreover have "distinct (index # xs)" using xs(2) notin by simp
  ultimately show "dn_inv table'" using len unfolding dn_inv_def len' by blast
  show "dn_requests table' = (dn_requests table)(index := None)"
  proof (rule ext)
    fix i
    show "dn_requests table' i = ((dn_requests table)(index := None)) i"
      using idx by (cases "i < length table") (simp_all add: dn_requests_def len' nth MACH_PORT_NULL_def)
  qed
qed

lemma dngrow_free_chain:
  assumes "dn_chain ntable (of_nat free) xs" "set is \<inter> set xs = {}" "distinct is"
    "\<forall>i\<in>set is. 0 < i \<and> i < length ntable"
  shows "dn_chain (fst (dngrow_free is ntable free)) (of_nat (snd (dngrow_free is ntable free))) (rev is @ xs)"
  using assms
proof (induction "is" arbitrary: ntable free xs)
  case (Cons i "is")
  let ?nt = "ntable[i := \<lparr>ipr_notify = of_nat free, ipr_name = MACH_PORT_NULL\<rparr>]"
  have "dn_chain ?nt (of_nat i) (i # xs)"
    using Cons.prems dn_chain_update [of i xs ntable "of_nat free"] by (auto simp: MACH_PORT_NULL_def)
  with Cons.prems have "dn_chain (fst (dngrow_free is ?nt i)) (of_nat (snd (dngrow_free is ?nt i))) (rev is @ i # xs)"
    by (intro Cons.IH) auto
  then show ?case by simp
qed simp

lemma dngrow_free_length: "length (fst (dngrow_free is ntable free)) = length ntable"
  by (induction "is" arbitrary: ntable free) auto

lemma dngrow_free_other: "i \<notin> set is \<Longrightarrow> fst (dngrow_free is ntable free) ! i = ntable ! i"
  by (induction "is" arbitrary: ntable free) auto

lemma dngrow_free_name:
  "i \<in> set is \<Longrightarrow> i < length ntable \<Longrightarrow> ipr_name (fst (dngrow_free is ntable free) ! i) = 0"
proof (induction "is" arbitrary: ntable free)
  case (Cons j "is")
  then show ?case
    by (cases "i \<in> set is") (auto simp: dngrow_free_other MACH_PORT_NULL_def)
qed simp

lemmas dngrow_free_nth = dngrow_free_length dngrow_free_other dngrow_free_name

text \<open>The old table with its first element cleared, padded with zeroes.\<close>

definition dn_padded :: "ipc_port_request list option \<Rightarrow> nat \<Rightarrow> ipc_port_request list" where
  "dn_padded otable nsize =
     (case otable of None \<Rightarrow> [] | Some table \<Rightarrow> ipr_zero # tl table) @
     replicate (nsize - (case otable of None \<Rightarrow> 0 | Some table \<Rightarrow> length table)) ipr_zero"

definition dn_table_ok :: "nat list \<Rightarrow> ipc_port_request list \<Rightarrow> bool" where
  "dn_table_ok dnits table \<longleftrightarrow> dn_inv table \<and> length table = dnits ! unat (ipr_name (table ! 0))"

lemma dngrow_table_padded:
  assumes "case otable of None \<Rightarrow> True | Some table \<Rightarrow> dn_table_ok dnits table"
  shows "dngrow_table dnits its otable =
    (let osize = (case otable of None \<Rightarrow> 1 | Some table \<Rightarrow> length table);
         r = dngrow_free [osize..<dnits ! its] (dn_padded otable (dnits ! its))
               (case otable of None \<Rightarrow> 0 | Some table \<Rightarrow> unat (ipr_notify (table ! 0)))
     in (fst r)[0 := \<lparr>ipr_notify = of_nat (snd r), ipr_name = of_nat its\<rparr>])"
  using assms
  by (cases otable) (simp_all add: dngrow_table_def dn_padded_def dn_table_ok_def dn_inv_def case_prod_unfold Let_def)

lemma dngrow_table_grows:
  assumes old: "case otable of None \<Rightarrow> True | Some table \<Rightarrow> dn_table_ok dnits table"
    and grow: "(case otable of None \<Rightarrow> 1 | Some table \<Rightarrow> length table) < dnits ! its"
    and small: "dnits ! its < 2 ^ 32" "its < 2 ^ 32"
  defines "table' \<equiv> dngrow_table dnits its otable"
  shows "dn_table_ok dnits table'"
    "dn_requests table' = (case otable of None \<Rightarrow> Map.empty | Some table \<Rightarrow> dn_requests table)"
    "ipr_notify (table' ! 0) \<noteq> 0" "unat (ipr_name (table' ! 0)) = its"
proof -
  define osize where "osize = (case otable of None \<Rightarrow> 1 | Some table \<Rightarrow> length table)"
  define free where "free = (case otable of None \<Rightarrow> 0 | Some table \<Rightarrow> unat (ipr_notify (table ! 0)))"
  define nt where "nt = dn_padded otable (dnits ! its)"
  define r where "r = dngrow_free [osize..<dnits ! its] nt free"
  have table': "table' = (fst r)[0 := \<lparr>ipr_notify = of_nat (snd r), ipr_name = of_nat its\<rparr>]"
    unfolding table'_def dngrow_table_padded [OF old] by (simp add: r_def nt_def osize_def free_def Let_def)
  have osz: "0 < osize" "osize < dnits ! its"
    using old grow by (auto simp: osize_def dn_table_ok_def dn_inv_def split: option.splits)
  have lnt: "length nt = dnits ! its"
    using grow osz by (cases otable) (auto simp: nt_def dn_padded_def osize_def neq_Nil_conv)
  have len: "length table' = dnits ! its" by (simp add: table' r_def dngrow_free_nth lnt)
  have oldnth: "nt ! i = (case otable of None \<Rightarrow> ipr_zero | Some table \<Rightarrow> table ! i)" if "0 < i" "i < osize" for i
    using that old
    by (auto simp: nt_def dn_padded_def osize_def nth_append nth_tl nth_Cons' dn_table_ok_def dn_inv_def split: option.splits)
  have nth: "table' ! i = (if i < osize then nt ! i else table' ! i)" if "0 < i" for i
    using that by (simp add: table' r_def dngrow_free_nth)
  have fresh: "ipr_name (table' ! i) = 0" if "osize \<le> i" "i < dnits ! its" for i
    using that osz by (simp add: table' r_def dngrow_free_nth lnt)
  have names: "ipr_name (table' ! i) = 0 \<longleftrightarrow> osize \<le> i \<or> ipr_name (nt ! i) = 0" if "0 < i" "i < dnits ! its" for i
    using that nth [of i] fresh [of i] by (cases "i < osize") auto
  obtain xs where xs: "dn_chain nt (of_nat free) xs" "distinct xs"
      "set xs = {i. 0 < i \<and> i < osize \<and> ipr_name (nt ! i) = 0}"
  proof (cases otable)
    case None
    have "dn_chain nt (of_nat free) []" by (simp add: free_def None)
    moreover have "set [] = {i. 0 < i \<and> i < osize \<and> ipr_name (nt ! i) = 0}" by (auto simp: osize_def None)
    ultimately show thesis using that [of "[]"] by simp
  next
    case (Some table)
    then obtain ys where ys: "dn_chain table (ipr_notify (table ! 0)) ys" "distinct ys"
        "set ys = {i. 0 < i \<and> i < length table \<and> ipr_name (table ! i) = 0}"
      using old by (auto simp: dn_table_ok_def dn_inv_def)
    have "dn_chain nt k ys" if "dn_chain table k ys" "set ys \<subseteq> {0<..<osize}" for k ys
      using that
    proof (induction ys arbitrary: k)
      case (Cons y ys)
      then show ?case using oldnth [of y] osz lnt by (auto simp: Some)
    qed simp
    moreover have "set ys \<subseteq> {0<..<osize}" unfolding ys(3) by (auto simp: osize_def Some)
    ultimately have "dn_chain nt (of_nat free) ys" using ys(1) by (simp add: free_def Some)
    moreover have "set ys = {i. 0 < i \<and> i < osize \<and> ipr_name (nt ! i) = 0}"
      unfolding ys(3) using oldnth by (auto simp: osize_def Some)
    ultimately show thesis using that ys(2) by blast
  qed
  have "dn_chain (fst r) (of_nat (snd r)) (rev [osize..<dnits ! its] @ xs)"
    unfolding r_def using osz by (intro dngrow_free_chain xs(1)) (auto simp: xs(3) lnt)
  moreover have t0: "table' ! 0 = \<lparr>ipr_notify = of_nat (snd r), ipr_name = of_nat its\<rparr>"
    using osz by (simp add: table' r_def dngrow_free_nth lnt)
  moreover have "0 \<notin> set (rev [osize..<dnits ! its] @ xs)" using osz by (simp add: xs(3))
  ultimately have chain: "dn_chain table' (ipr_notify (table' ! 0)) (rev [osize..<dnits ! its] @ xs)"
    unfolding t0 unfolding table' by (simp add: dn_chain_update)
  have "distinct (rev [osize..<dnits ! its] @ xs)" by (auto simp: xs)
  moreover have "set (rev [osize..<dnits ! its] @ xs) = {i. 0 < i \<and> i < length table' \<and> ipr_name (table' ! i) = 0}"
    unfolding len set_append xs(3) using osz by (auto simp: names)
  ultimately have inv: "dn_inv table'" unfolding dn_inv_def using chain len osz small by auto
  show its: "unat (ipr_name (table' ! 0)) = its"
    using small by (simp add: t0 unsigned_of_nat take_bit_nat_eq_self)
  show "dn_table_ok dnits table'" using inv len by (simp add: dn_table_ok_def its)
  have "rev [osize..<dnits ! its] @ xs \<noteq> []" using osz by simp
  then show "ipr_notify (table' ! 0) \<noteq> 0"
    using chain dn_chain_head [OF _ small(1) [folded len]] by fastforce
  show "dn_requests table' = (case otable of None \<Rightarrow> Map.empty | Some table \<Rightarrow> dn_requests table)"
  proof (rule ext)
    fix i
    show "dn_requests table' i = (case otable of None \<Rightarrow> Map.empty | Some table \<Rightarrow> dn_requests table) i"
    proof (cases "0 < i \<and> i < osize")
      case True
      then show ?thesis using nth [of i] oldnth [of i] osz
        by (auto simp: dn_requests_def len osize_def ipr_zero_def split: option.splits)
    next
      case False
      then show ?thesis using fresh [of i]
        by (auto simp: dn_requests_def len osize_def split: option.splits)
    qed
  qed
qed

text \<open>C23: In a port's table of dead-name requests a new request takes a free slot and leaves the others alone;
  when it is refused no slot is free.  Cancelling it gives back its send-once right and the
  table as it was, and the slot given back is the one that the next request gets.\<close>

theorem dnrequest_cancel:
  assumes "ip_dnrequests port = Some (a, table)" and "dn_inv table" and "name \<noteq> 0"
  shows "case ipc_port_dnrequest port name soright of
      Inl kr \<Rightarrow> kr = KERN_NO_SPACE \<and> (\<forall>i. 0 < i \<longrightarrow> i < length table \<longrightarrow> dn_requests table i \<noteq> None)
    | Inr (index, port') \<Rightarrow>
        \<exists>table' port'' table''.
          ip_dnrequests port' = Some (a, table') \<and> dn_inv table' \<and> dn_requests table index = None \<and>
          dn_requests table' = (dn_requests table)(index \<mapsto> (name, soright)) \<and>
          ipc_port_dncancel port' name index = Some (soright, port'') \<and>
          ip_dnrequests port'' = Some (a, table'') \<and> dn_inv table'' \<and> dn_requests table'' = dn_requests table \<and>
          (\<forall>name' soright'. \<exists>port3. ipc_port_dnrequest port'' name' soright' = Inr (index, port3))"
proof (cases "ipr_notify (table ! 0) = 0")
  case True
  then show ?thesis
    using dnrequest_None [OF assms(2)] assms(1) by (simp add: ipc_port_dnrequest_def)
next
  case False
  define index where "index = unat (ipr_notify (table ! 0))"
  define t1 where "t1 = table[0 := (table ! 0)\<lparr>ipr_notify := ipr_notify (table ! index)\<rparr>,
                        index := \<lparr>ipr_notify = soright, ipr_name = name\<rparr>]"
  define t2 where "t2 = t1[index := \<lparr>ipr_notify = ipr_notify (t1 ! 0), ipr_name = MACH_PORT_NULL\<rparr>,
                        0 := (t1 ! 0)\<lparr>ipr_notify := of_nat index\<rparr>]"
  have r: "dn_inv t1" "dn_requests table index = None" "0 < index" "index < length table"
      "dn_requests t1 = (dn_requests table)(index \<mapsto> (name, soright))"
    unfolding t1_def index_def by (rule dnrequest_table [OF assms(2) False assms(3)])+
  have req: "dn_requests t1 index = Some (name, soright)" using r(5) by simp
  note c = dncancel_table [OF r(1) req, folded t2_def]
  have idx: "unat (of_nat index :: u32) = index" by (simp add: index_def)
  have "index \<noteq> 0" using r(3) by simp
  have "ipc_port_dnrequest port name soright = Inr (index, port\<lparr>ip_dnrequests := Some (a, t1)\<rparr>)"
    using assms(1) r(3) by (simp add: ipc_port_dnrequest_def index_def [symmetric] t1_def Let_def)
  moreover have "ipc_port_dncancel (port\<lparr>ip_dnrequests := Some (a, t1)\<rparr>) name index =
      Some (soright, port\<lparr>ip_dnrequests := Some (a, t2)\<rparr>)"
    using c(3) r(3) by (simp add: ipc_port_dncancel_def t2_def Let_def)
  moreover have "dn_requests t2 = dn_requests table" using c(2) r(2,5) by (auto simp: fun_eq_iff)
  moreover have "\<exists>port3. ipc_port_dnrequest (port\<lparr>ip_dnrequests := Some (a, t2)\<rparr>) name' soright' = Inr (index, port3)"
    for name' soright'
    using c(4) \<open>index \<noteq> 0\<close> by (simp add: ipc_port_dnrequest_def idx Let_def)
  ultimately show ?thesis using r c by simp
qed

definition sample_dn_table :: "ipc_port_request list" where
  "sample_dn_table = [\<lparr>ipr_notify = 2, ipr_name = 0\<rparr>, \<lparr>ipr_notify = 0x5000, ipr_name = 0x103\<rparr>,
                      \<lparr>ipr_notify = 3, ipr_name = 0\<rparr>, \<lparr>ipr_notify = 0, ipr_name = 0\<rparr>]"

lemma sample_dn_inv: "dn_inv sample_dn_table"
proof -
  have "{i. 0 < i \<and> i < length sample_dn_table \<and> ipr_name (sample_dn_table ! i) = 0} = {2, 3}"
    by (auto simp: sample_dn_table_def less_Suc_eq nth_Cons')
  moreover have "dn_chain sample_dn_table (ipr_notify (sample_dn_table ! 0)) [2, 3]"
    by (simp add: sample_dn_table_def)
  ultimately show ?thesis
    unfolding dn_inv_def by (intro conjI exI [of _ "[2, 3]"]) (simp_all add: sample_dn_table_def)
qed

definition sample_port :: ipc_port where
  "sample_port =
     \<lparr>ip_references = 3, ip_bits = io_makebits True IOT_PORT 0, ip_data = 0x9000, ip_receiver_name = 0x103,
      ip_kobject = 0, ip_mscount = 1, ip_srights = 2, ip_sorights = 0, ip_nsrequest = 0, ip_pdrequest = 0,
      ip_dnrequests = Some (0x7000, sample_dn_table), ip_pset = 0, ip_seqno = 0, ip_msgcount = 0,
      ip_qlimit = 5, ip_messages = imq_empty, ip_blocked = []\<rparr>"

theorem dnrequest_cancel_witness:
  "\<exists>table' port''. case ipc_port_dnrequest sample_port 0x203 0x6000 of
     Inl kr \<Rightarrow> False
   | Inr (index, port') \<Rightarrow>
       index = 2 \<and> dn_requests sample_dn_table 2 = None \<and> ip_dnrequests port' = Some (0x7000, table') \<and>
       dn_requests table' = (dn_requests sample_dn_table)(2 \<mapsto> (0x203, 0x6000)) \<and>
       ipc_port_dncancel port' 0x203 2 = Some (0x6000, port'')"
  using dnrequest_cancel [of sample_port "0x7000" sample_dn_table "0x203" "0x6000"] sample_dn_inv
  by (auto simp: sample_port_def ipc_port_dnrequest_def sample_dn_table_def split: prod.splits)

theorem timestamp_order_witness:
  "\<exists>s. ks_timestamp s = 0xfffffffe \<and> nth_timestamp 3 s = 1 \<and>
     IP_TIMESTAMP_ORDER (nth_timestamp 0 s) (nth_timestamp 3 s)"
proof -
  define s where "s = empty_state\<lparr>ks_timestamp := 0xfffffffe\<rparr>"
  have "IP_TIMESTAMP_ORDER (nth_timestamp 0 s) (nth_timestamp 3 s)"
    using timestamp_order [of 0 3 s] by simp
  moreover have "nth_timestamp 3 s = 1" by (simp add: nth_timestamp_eq s_def empty_state_def)
  ultimately show ?thesis by (intro exI [of _ s]) (simp add: s_def empty_state_def)
qed

subsection \<open>Growing the table\<close>

definition port_dn :: "ipc_port \<Rightarrow> nat \<rightharpoonup> mach_port_t \<times> ptr" where
  "port_dn p = (case ip_dnrequests p of None \<Rightarrow> Map.empty | Some (a, table) \<Rightarrow> dn_requests table)"

definition port_dn_ok :: "nat list \<Rightarrow> ipc_port \<Rightarrow> bool" where
  "port_dn_ok dnits p = (case ip_dnrequests p of None \<Rightarrow> True | Some (a, table) \<Rightarrow> dn_table_ok dnits table)"

text \<open>The array of sizes increases up to a final zero, as \<open>ipc_table_init\<close> makes it.\<close>

definition dnits_ok :: "nat list \<Rightarrow> bool" where
  "dnits_ok dnits \<longleftrightarrow> 1 < dnits ! 0 \<and> length dnits < 2 ^ 32 \<and> (\<forall>n\<in>set dnits. n < 2 ^ 32) \<and>
     (\<forall>i. Suc i < length dnits \<longrightarrow> dnits ! Suc i \<noteq> 0 \<longrightarrow> dnits ! i < dnits ! Suc i)"

text \<open>The position of the next size of a port's table.\<close>

definition next_dnits :: "ipc_port \<Rightarrow> nat" where
  "next_dnits p = (case ip_dnrequests p of None \<Rightarrow> 0 | Some (a, table) \<Rightarrow> unat (ipr_name (table ! 0)) + 1)"

lemma dngrow_install:
  fixes a :: ptr
  assumes "dnits_ok dnits" "port_dn_ok dnits p" "next_dnits p < length dnits" "dnits ! next_dnits p \<noteq> 0"
  defines "p' \<equiv> p\<lparr>ip_dnrequests := Some (a, dngrow_table dnits (next_dnits p) (map_option snd (ip_dnrequests p)))\<rparr>"
  shows "port_dn p' = port_dn p" "port_dn_ok dnits p'" "\<exists>r. ipc_port_dnrequest p' name soright = Inr r"
proof -
  let ?ot = "map_option snd (ip_dnrequests p)"
  have old: "case ?ot of None \<Rightarrow> True | Some table \<Rightarrow> dn_table_ok dnits table"
    using assms(2) by (auto simp: port_dn_ok_def split: option.splits)
  have grow: "(case ?ot of None \<Rightarrow> 1 | Some table \<Rightarrow> length table) < dnits ! next_dnits p"
    using assms(1-4)
    by (auto simp: next_dnits_def port_dn_ok_def dn_table_ok_def dnits_ok_def split: option.splits)
  have small: "dnits ! next_dnits p < 2 ^ 32" "next_dnits p < 2 ^ 32"
    using assms(1,3) nth_mem [OF assms(3)] by (auto simp: dnits_ok_def)
  note g = dngrow_table_grows [OF old grow small]
  show "port_dn p' = port_dn p"
    using g(2) by (auto simp: port_dn_def p'_def split: option.splits)
  show "port_dn_ok dnits p'" using g(1) by (simp add: port_dn_ok_def p'_def)
  show "\<exists>r. ipc_port_dnrequest p' name soright = Inr r"
    using g(3) by (simp add: ipc_port_dnrequest_def p'_def Let_def unat_eq_0)
qed



section \<open>No circles of ports in transit\<close>

text \<open>What the chains of destinations depend on.\<close>

definition transit_link :: "ipc_state \<Rightarrow> ptr \<Rightarrow> ptr option option" where
  "transit_link s q = map_option (\<lambda>p. if ip_in_transit p then Some (ip_data p) else None) (ks_ports s q)"

lemma transit_base_link:
  "transit_base s q =
     (case transit_link s q of None \<Rightarrow> None | Some None \<Rightarrow> Some q | Some (Some d) \<Rightarrow> transit_base s d)"
  by (subst transit_base.simps) (simp add: transit_link_def split: option.split)

definition transit_ok :: "ipc_state \<Rightarrow> bool" where
  "transit_ok s \<longleftrightarrow> (\<forall>q. ks_ports s q \<noteq> None \<longrightarrow> transit_base s q \<noteq> None)"

lemma transit_base_induct [consumes 1, case_names stop link]:
  assumes "transit_base s q = Some r"
    and end': "\<And>q. transit_link s q = Some None \<Longrightarrow> P q q"
    and step: "\<And>q d r. transit_link s q = Some (Some d) \<Longrightarrow> transit_base s d = Some r \<Longrightarrow> P d r \<Longrightarrow> P q r"
  shows "P q r"
proof -
  have "s = s \<longrightarrow> P q r \<and> transit_base s q = Some r"
  proof (rule transit_base.raw_induct [of "\<lambda>s' q r. s' = s \<longrightarrow> P q r \<and> transit_base s q = Some r", OF _ assms(1)],
      intro impI)
    fix f s' q y
    assume IH': "\<And>s' q y. f s' q = Some y \<Longrightarrow> s' = s \<longrightarrow> P q y \<and> transit_base s q = Some y"
      and body': "(case ks_ports s' q of None \<Rightarrow> None
                  | Some p \<Rightarrow> if \<not> ip_in_transit p then Some q else f s' (ip_data p)) = Some y"
      and "s' = s"
    have IH: "f s q = Some y \<Longrightarrow> P q y \<and> transit_base s q = Some y" for q y using IH' by blast
    note body = body' [unfolded \<open>s' = s\<close>]
    obtain p where p: "ks_ports s q = Some p" using body by (auto split: option.splits)
    show "P q y \<and> transit_base s q = Some y"
    proof (cases "ip_in_transit p")
      case False
      then have "transit_link s q = Some None" "y = q" using p body by (auto simp: transit_link_def)
      then show ?thesis using end' by (simp add: transit_base_link [of s q])
    next
      case True
      then have l: "transit_link s q = Some (Some (ip_data p))" and "f s (ip_data p) = Some y"
        using p body by (auto simp: transit_link_def)
      then have "P (ip_data p) y" "transit_base s (ip_data p) = Some y" using IH by auto
      then show ?thesis using step [OF l] l by (simp add: transit_base_link [of s q])
    qed
  qed
  then show ?thesis by simp
qed

lemma transit_base_end: "transit_base s q = Some r \<Longrightarrow> transit_link s r = Some None"
  by (rule transit_base_induct) auto

text \<open>Linking a port in limbo to a destination whose chain ends elsewhere.\<close>

lemma transit_link_elsewhere:
  assumes "transit_base s q = Some r" "r \<noteq> port" and limbo: "transit_link s port = Some None"
    and frame: "\<And>q. q \<noteq> port \<Longrightarrow> transit_link s' q = transit_link s q"
  shows "transit_base s' q = Some r"
  using assms(1,2)
proof (induction rule: transit_base_induct)
  case (stop q)
  then show ?case using frame [of q] by (simp add: transit_base_link [of s' q])
next
  case (link q d r)
  then have "q \<noteq> port" using limbo by auto
  then show ?case using link frame [of q] by (simp add: transit_base_link [of s' q])
qed

lemma transit_link_here:
  assumes "transit_base s q = Some r" "r = port" and limbo: "transit_link s port = Some None"
    and frame: "\<And>q. q \<noteq> port \<Longrightarrow> transit_link s' q = transit_link s q"
    and new: "transit_link s' port = Some (Some dest)"
  shows "transit_base s' q = transit_base s' dest"
  using assms(1,2)
proof (induction rule: transit_base_induct)
  case (stop q)
  then show ?case using new by (simp add: transit_base_link [of s' port])
next
  case (link q d r)
  then have "q \<noteq> port" using limbo by auto
  then show ?case using link frame [of q] by (simp add: transit_base_link [of s' q])
qed

lemma transit_link_ok:
  assumes ok: "transit_ok s" and limbo: "transit_link s port = Some None"
    and base: "transit_base s dest = Some b" "b \<noteq> port"
    and frame: "\<And>q. q \<noteq> port \<Longrightarrow> transit_link s' q = transit_link s q"
    and link: "transit_link s' port = Some (Some dest)"
  shows "transit_ok s'"
proof -
  have dest: "transit_base s' dest = Some b" by (rule transit_link_elsewhere [OF base limbo frame])
  have "transit_base s' q \<noteq> None" if "ks_ports s' q \<noteq> None" for q
  proof (cases "q = port")
    case True
    then show ?thesis using dest link by (simp add: transit_base_link [of s' port])
  next
    case False
    then have "ks_ports s q \<noteq> None" using that frame [OF False] by (cases "ks_ports s q") (auto simp: transit_link_def)
    then obtain r where r: "transit_base s q = Some r" using ok by (auto simp: transit_ok_def)
    show ?thesis
      using transit_link_elsewhere [OF r _ limbo frame] transit_link_here [OF r _ limbo frame link] dest
      by (cases "r = port") auto
  qed
  then show ?thesis by (simp add: transit_ok_def)
qed

text \<open>C21: Checking whether a receive right in limbo may be sent to a port always ends, whether the quick check
  is taken or not, and finds a circle exactly when the chain of destinations leads back to the
  right itself.  If not, the right is put in transit to the destination, which gains a reference,
  and from every port the chain of destinations still ends.\<close>

theorem check_circularity_correct:
  assumes "transit_ok s" and "ks_ports s port = Some p" and "ks_ports s dest = Some d"
    and "ip_active p" and "ip_receiver_name p = MACH_PORT_NULL" and "ip_data p = 0" and "dest \<noteq> 0"
  shows "\<exists>s'. ipc_port_check_circularity try port dest s = Some (transit_base s dest = Some port, s') \<and>
     transit_ok s' \<and>
     (if transit_base s dest = Some port then s' = s
      else ks_ports s' = (ks_ports s)(port \<mapsto> p\<lparr>ip_data := dest\<rparr>, dest \<mapsto> ip_reference d))"
proof -
  have limbo: "transit_link s port = Some None"
    using assms(2,6) by (simp add: transit_link_def ip_in_transit_def)
  then have self: "transit_base s port = Some port" by (simp add: transit_base_link [of s port])
  obtain b where b: "transit_base s dest = Some b" using assms(1,3) by (auto simp: transit_ok_def)
  have quick: "b = dest" if "\<not> ip_in_transit d"
    using that b assms(3) by (simp add: transit_base_link [of s dest] transit_link_def)
  show ?thesis
  proof (cases "port = dest \<or> b = port")
    case True
    then show ?thesis using assms(1,3) b self quick
      by (auto simp: ipc_port_check_circularity_def)
  next
    case False
    define s' where "s' = put_port port (p\<lparr>ip_data := dest\<rparr>) (put_port dest (ip_reference d) s)"
    have run: "ipc_port_check_circularity try port dest s = Some (False, s')"
      using False assms(2,3) b quick by (auto simp: ipc_port_check_circularity_def mod_port_def s'_def)
    have "transit_ok s'"
    proof (rule transit_link_ok [OF assms(1) limbo b])
      show "b \<noteq> port" using False by simp
      show "transit_link s' q = transit_link s q" if "q \<noteq> port" for q
        using that assms(3) by (simp add: transit_link_def s'_def ip_in_transit_def)
      show "transit_link s' port = Some (Some dest)"
        using assms(4,5,7) by (simp add: transit_link_def s'_def ip_in_transit_def)
    qed
    then show ?thesis using run False b by (auto simp: s'_def fun_upd_twist)
  qed
qed

theorem check_circularity_correct_witness:
  "\<exists>s. transit_base s 0x500 = Some 0x400 \<and> ipc_port_check_circularity True 0x400 0x500 s = Some (True, s)"
proof -
  define p where "p = sample_port\<lparr>ip_receiver_name := 0, ip_data := 0\<rparr>"
  define d where "d = sample_port\<lparr>ip_receiver_name := 0, ip_data := 0x400\<rparr>"
  define s where "s = put_port 0x500 d (put_port 0x400 p empty_state)"
  have act: "ip_active p" "ip_active d"
    by (simp_all add: p_def d_def sample_port_def io_makebits_def IOT_PORT_def IO_BITS_ACTIVE_def io_active_def)
  have links: "transit_link s q = (if q = 0x400 then Some None else if q = 0x500 then Some (Some 0x400) else None)" for q
    using act by (simp add: transit_link_def ip_in_transit_def s_def p_def d_def empty_state_def MACH_PORT_NULL_def)
  have b: "transit_base s 0x400 = Some 0x400" by (simp add: transit_base_link [of s "0x400"] links)
  then have b': "transit_base s 0x500 = Some 0x400" by (simp add: transit_base_link [of s "0x500"] links)
  have "transit_ok s" using b b' by (auto simp: transit_ok_def s_def empty_state_def)
  then show ?thesis
    using check_circularity_correct [of s "0x400" p "0x500" d True] act b'
    by (auto simp: s_def p_def MACH_PORT_NULL_def)
qed

end
