(* ===== verification/Ipc_Notify.thy ===== *)
theory Ipc_Notify
  imports Ipc_Port
begin

text \<open>
  Notifications, \<^verbatim>\<open>src/ipc/ipc_notify.c\<close>: the templates and the routines that send them, and
  the routines of \<^verbatim>\<open>src/ipc/ipc_port.c\<close> that may send a no-senders notification.

  A notification is sent with \<open>ipc_mqueue_send_always\<close>, recorded as an effect.  When there is no
  memory for the message the right it would go to is released instead; the routines that
  carry a receive right then release that one too, which is their argument
  \<open>release_receive\<close>, tied to \<open>ipc_port_release_receive\<close> in \<open>Ipc_Destroy\<close>.
\<close>

section \<open>Templates\<close>

definition MACH_NOTIFY_FIRST :: u32 where "MACH_NOTIFY_FIRST = 64"
definition MACH_NOTIFY_PORT_DELETED :: u32 where "MACH_NOTIFY_PORT_DELETED = MACH_NOTIFY_FIRST + 1"
definition MACH_NOTIFY_MSG_ACCEPTED :: u32 where "MACH_NOTIFY_MSG_ACCEPTED = MACH_NOTIFY_FIRST + 2"
definition MACH_NOTIFY_PORT_DESTROYED :: u32 where "MACH_NOTIFY_PORT_DESTROYED = MACH_NOTIFY_FIRST + 5"
definition MACH_NOTIFY_NO_SENDERS :: u32 where "MACH_NOTIFY_NO_SENDERS = MACH_NOTIFY_FIRST + 6"
definition MACH_NOTIFY_SEND_ONCE :: u32 where "MACH_NOTIFY_SEND_ONCE = MACH_NOTIFY_FIRST + 7"
definition MACH_NOTIFY_DEAD_NAME :: u32 where "MACH_NOTIFY_DEAD_NAME = MACH_NOTIFY_FIRST + 8"

definition NOTIFY_MSGH_RESERVED :: u32 where "NOTIFY_MSGH_RESERVED = 1"

text \<open>A buffer for a message of \<open>size\<close> bytes as \<open>ikm_init\<close> leaves it, sent by the kernel.\<close>

definition IKM_OVERHEAD :: u32 where "IKM_OVERHEAD = 28"

definition ikm_init :: "u32 \<Rightarrow> ipc_kmsg" where
  "ikm_init sz =
     \<lparr>ikm_size = sz + IKM_OVERHEAD, ikm_marequest = 0, ikm_sender = (0, 1), ikm_delta = 0,
      msgh_bits = 0, msgh_size = 0, msgh_remote_port = 0, msgh_local_port = 0, msgh_reserved = 0, msgh_id = 0,
      ikm_body = NoBody\<rparr>"

definition trailer0_size :: u32 where "trailer0_size = 20"

definition sizeof_port_deleted_notification :: u32 where "sizeof_port_deleted_notification = 56"
definition sizeof_port_destroyed_notification :: u32 where "sizeof_port_destroyed_notification = 60"
definition sizeof_no_senders_notification :: u32 where "sizeof_no_senders_notification = 56"
definition sizeof_send_once_notification :: u32 where "sizeof_send_once_notification = 44"
definition sizeof_dead_name_notification :: u32 where "sizeof_dead_name_notification = 56"
definition sizeof_notification :: u32 where "sizeof_notification = 32"

definition ipc_notify_init_port_deleted :: "ipc_kmsg \<Rightarrow> ipc_kmsg" where
  "ipc_notify_init_port_deleted m =
     m\<lparr>msgh_bits := MACH_MSGH_BITS MACH_MSG_TYPE_PORT_SEND_ONCE 0, msgh_local_port := 0, msgh_remote_port := 0,
       msgh_id := MACH_NOTIFY_PORT_DELETED, msgh_size := sizeof_port_deleted_notification - trailer0_size,
       ikm_body := NotPort MACH_PORT_NULL\<rparr>"

definition ipc_notify_init_port_deleted_compat :: "ipc_kmsg \<Rightarrow> ipc_kmsg" where
  "ipc_notify_init_port_deleted_compat m =
     m\<lparr>msgh_bits := MACH_MSGH_BITS_OLD_FORMAT OR MACH_MSGH_BITS MACH_MSG_TYPE_PORT_SEND 0,
       msgh_size := sizeof_notification, msgh_reserved := NOTIFY_MSGH_RESERVED, msgh_local_port := 0,
       msgh_remote_port := 0, msgh_id := MACH_NOTIFY_PORT_DELETED,
       ikm_body := NotCompat MACH_MSG_TYPE_PORT_NAME 0\<rparr>"

definition ipc_notify_init_msg_accepted_compat :: "ipc_kmsg \<Rightarrow> ipc_kmsg" where
  "ipc_notify_init_msg_accepted_compat m =
     m\<lparr>msgh_bits := MACH_MSGH_BITS_OLD_FORMAT OR MACH_MSGH_BITS MACH_MSG_TYPE_PORT_SEND 0,
       msgh_size := sizeof_notification, msgh_reserved := NOTIFY_MSGH_RESERVED, msgh_local_port := 0,
       msgh_remote_port := 0, msgh_id := MACH_NOTIFY_MSG_ACCEPTED,
       ikm_body := NotCompat MACH_MSG_TYPE_PORT_NAME 0\<rparr>"

definition ipc_notify_init_port_destroyed :: "ipc_kmsg \<Rightarrow> ipc_kmsg" where
  "ipc_notify_init_port_destroyed m =
     m\<lparr>msgh_bits := MACH_MSGH_BITS_COMPLEX OR MACH_MSGH_BITS MACH_MSG_TYPE_PORT_SEND_ONCE 0,
       msgh_local_port := 0, msgh_remote_port := 0, msgh_id := MACH_NOTIFY_PORT_DESTROYED,
       msgh_size := sizeof_port_destroyed_notification - trailer0_size,
       ikm_body := Descriptors [MACH_MSG_PORT_DESCRIPTOR 0 MACH_MSG_TYPE_PORT_RECEIVE]\<rparr>"

definition ipc_notify_init_port_destroyed_compat :: "ipc_kmsg \<Rightarrow> ipc_kmsg" where
  "ipc_notify_init_port_destroyed_compat m =
     m\<lparr>msgh_bits := MACH_MSGH_BITS_OLD_FORMAT OR MACH_MSGH_BITS_COMPLEX OR MACH_MSGH_BITS MACH_MSG_TYPE_PORT_SEND 0,
       msgh_size := sizeof_notification, msgh_reserved := NOTIFY_MSGH_RESERVED, msgh_local_port := 0,
       msgh_remote_port := 0, msgh_id := MACH_NOTIFY_PORT_DESTROYED,
       ikm_body := NotCompat MACH_MSG_TYPE_PORT_RECEIVE 0\<rparr>"

definition ipc_notify_init_no_senders :: "ipc_kmsg \<Rightarrow> ipc_kmsg" where
  "ipc_notify_init_no_senders m =
     m\<lparr>msgh_bits := MACH_MSGH_BITS MACH_MSG_TYPE_PORT_SEND_ONCE 0, msgh_local_port := 0, msgh_remote_port := 0,
       msgh_id := MACH_NOTIFY_NO_SENDERS, msgh_size := sizeof_no_senders_notification - trailer0_size,
       ikm_body := NotCount 0\<rparr>"

definition ipc_notify_init_send_once :: "ipc_kmsg \<Rightarrow> ipc_kmsg" where
  "ipc_notify_init_send_once m =
     m\<lparr>msgh_bits := MACH_MSGH_BITS MACH_MSG_TYPE_PORT_SEND_ONCE 0, msgh_local_port := 0, msgh_remote_port := 0,
       msgh_id := MACH_NOTIFY_SEND_ONCE, msgh_size := sizeof_send_once_notification - trailer0_size\<rparr>"

definition ipc_notify_init_dead_name :: "ipc_kmsg \<Rightarrow> ipc_kmsg" where
  "ipc_notify_init_dead_name m =
     m\<lparr>msgh_bits := MACH_MSGH_BITS MACH_MSG_TYPE_PORT_SEND_ONCE 0, msgh_local_port := 0, msgh_remote_port := 0,
       msgh_id := MACH_NOTIFY_DEAD_NAME, msgh_size := sizeof_dead_name_notification - trailer0_size,
       ikm_body := NotPort MACH_PORT_NULL\<rparr>"

section \<open>Sending notifications\<close>

definition ipc_mqueue_send_always :: "ipc_kmsg \<Rightarrow> ipc_state \<Rightarrow> ipc_state" where
  "ipc_mqueue_send_always kmsg = effect (MqueueSendAlways kmsg)"

definition ipc_notify_port_deleted :: "ptr \<Rightarrow> mach_port_t \<Rightarrow> ipc_state \<Rightarrow> ipc_state option" where
  "ipc_notify_port_deleted port name s =
     (let (kmsg, s) = zalloc s
      in if kmsg = 0 then ipc_port_release_sonce port s
         else
           let n = ipc_notify_init_port_deleted (ikm_init sizeof_port_deleted_notification)
           in Some (ipc_mqueue_send_always (n\<lparr>msgh_remote_port := port, ikm_body := NotPort name\<rparr>) s))"

definition ipc_notify_port_destroyed ::
    "(ptr \<Rightarrow> ipc_state \<Rightarrow> ipc_state option) \<Rightarrow> ptr \<Rightarrow> ptr \<Rightarrow> ipc_state \<Rightarrow> ipc_state option" where
  "ipc_notify_port_destroyed release_receive port rright s =
     (let (kmsg, s) = zalloc s
      in if kmsg = 0 then ipc_port_release_sonce port s \<bind> release_receive rright
         else
           let n = ipc_notify_init_port_destroyed (ikm_init sizeof_port_destroyed_notification)
           in Some (ipc_mqueue_send_always (n\<lparr>msgh_remote_port := port,
                ikm_body := Descriptors [MACH_MSG_PORT_DESCRIPTOR rright MACH_MSG_TYPE_PORT_RECEIVE]\<rparr>) s))"

definition ipc_notify_no_senders :: "ptr \<Rightarrow> u32 \<Rightarrow> ipc_state \<Rightarrow> ipc_state option" where
  "ipc_notify_no_senders port mscount s =
     (let (kmsg, s) = zalloc s
      in if kmsg = 0 then ipc_port_release_sonce port s
         else
           let n = ipc_notify_init_no_senders (ikm_init sizeof_no_senders_notification)
           in Some (ipc_mqueue_send_always (n\<lparr>msgh_remote_port := port, ikm_body := NotCount mscount\<rparr>) s))"

definition ipc_notify_send_once :: "ptr \<Rightarrow> ipc_state \<Rightarrow> ipc_state option" where
  "ipc_notify_send_once port s =
     (let (kmsg, s) = zalloc s
      in if kmsg = 0 then ipc_port_release_sonce port s
         else
           let n = ipc_notify_init_send_once (ikm_init sizeof_send_once_notification)
           in Some (ipc_mqueue_send_always (n\<lparr>msgh_remote_port := port\<rparr>) s))"

definition ipc_notify_dead_name :: "ptr \<Rightarrow> mach_port_t \<Rightarrow> ipc_state \<Rightarrow> ipc_state option" where
  "ipc_notify_dead_name port name s =
     (let (kmsg, s) = zalloc s
      in if kmsg = 0 then ipc_port_release_sonce port s
         else
           let n = ipc_notify_init_dead_name (ikm_init sizeof_dead_name_notification)
           in Some (ipc_mqueue_send_always (n\<lparr>msgh_remote_port := port, ikm_body := NotPort name\<rparr>) s))"

section \<open>No-senders requests\<close>

definition ipc_port_nsrequest :: "ptr \<Rightarrow> u32 \<Rightarrow> ptr \<Rightarrow> ipc_state \<Rightarrow> (ptr \<times> ipc_state) option" where
  "ipc_port_nsrequest port sync notify s =
     do {
       p \<leftarrow> ks_ports s port;
       let previous = ip_nsrequest p;
       let mscount = ip_mscount p;
       s \<leftarrow>
         (if ip_srights p = 0 \<and> sync \<le> mscount \<and> notify \<noteq> 0
          then ipc_notify_no_senders notify mscount (put_port port (p\<lparr>ip_nsrequest := 0\<rparr>) s)
          else Some (put_port port (p\<lparr>ip_nsrequest := notify\<rparr>) s));
       Some (previous, s)
     }"

text \<open>
  \<open>if (--port->ip_srights == 0)\<close> and what follows, which several routines do: the result is
  the no-senders request to be notified, with the make-send count.
\<close>

definition drop_sright :: "ipc_port \<Rightarrow> ptr \<times> u32 \<times> ipc_port" where
  "drop_sright p =
     (let p = p\<lparr>ip_srights := ip_srights p - 1\<rparr>
      in if ip_srights p = 0 \<and> ip_nsrequest p \<noteq> 0
         then (ip_nsrequest p, ip_mscount p, p\<lparr>ip_nsrequest := 0\<rparr>)
         else (0, 0, p))"

definition notify_no_senders :: "ptr \<Rightarrow> u32 \<Rightarrow> ipc_state \<Rightarrow> ipc_state option" where
  "notify_no_senders nsrequest mscount s =
     (if nsrequest \<noteq> 0 then ipc_notify_no_senders nsrequest mscount s else Some s)"

definition ipc_port_release_send :: "ptr \<Rightarrow> ipc_state \<Rightarrow> ipc_state option" where
  "ipc_port_release_send port s =
     do {
       p \<leftarrow> ks_ports s port;
       let p = ip_release p;
       (if \<not> ip_active p then ip_check_unlock port (put_port port p s)
        else
          let (nsrequest, mscount, p) = drop_sright p
          in notify_no_senders nsrequest mscount (put_port port p s))
     }"

section \<open>Notifications to send rights\<close>

definition ipc_notify_port_deleted_compat :: "ptr \<Rightarrow> mach_port_t \<Rightarrow> ipc_state \<Rightarrow> ipc_state option" where
  "ipc_notify_port_deleted_compat port name s =
     (let (kmsg, s) = zalloc s
      in if kmsg = 0 then ipc_port_release_send port s
         else
           let n = ipc_notify_init_port_deleted_compat (ikm_init sizeof_notification)
           in Some (ipc_mqueue_send_always
                (n\<lparr>msgh_remote_port := port, ikm_body := NotCompat MACH_MSG_TYPE_PORT_NAME name\<rparr>) s))"

definition ipc_notify_msg_accepted_compat :: "ptr \<Rightarrow> mach_port_t \<Rightarrow> ipc_state \<Rightarrow> ipc_state option" where
  "ipc_notify_msg_accepted_compat port name s =
     (let (kmsg, s) = zalloc s
      in if kmsg = 0 then ipc_port_release_send port s
         else
           let n = ipc_notify_init_msg_accepted_compat (ikm_init sizeof_notification)
           in Some (ipc_mqueue_send_always
                (n\<lparr>msgh_remote_port := port, ikm_body := NotCompat MACH_MSG_TYPE_PORT_NAME name\<rparr>) s))"

definition ipc_notify_port_destroyed_compat ::
    "(ptr \<Rightarrow> ipc_state \<Rightarrow> ipc_state option) \<Rightarrow> ptr \<Rightarrow> ptr \<Rightarrow> ipc_state \<Rightarrow> ipc_state option" where
  "ipc_notify_port_destroyed_compat release_receive port rright s =
     (let (kmsg, s) = zalloc s
      in if kmsg = 0 then ipc_port_release_send port s \<bind> release_receive rright
         else
           let n = ipc_notify_init_port_destroyed_compat (ikm_init sizeof_notification)
           in Some (ipc_mqueue_send_always
                (n\<lparr>msgh_remote_port := port, ikm_body := NotCompat MACH_MSG_TYPE_PORT_RECEIVE rright\<rparr>) s))"

end
