(* ===== verification/Ipc_Marequest.thy ===== *)
theory Ipc_Marequest
  imports Ipc_Notify
begin

text \<open>
  Requests for msg-accepted notifications, \<^verbatim>\<open>src/ipc/ipc_marequest.c\<close>: the hash table of
  pending requests, by space and name, with the reverse translation of \<^verbatim>\<open>src/ipc/ipc_right.c\<close>
  that the creation of a request uses.
\<close>

section \<open>The table\<close>

definition MACH_PORT_NGEN :: "mach_port_t \<Rightarrow> mach_port_t" where
  "MACH_PORT_NGEN name = MACH_PORT_MAKE 0 (MACH_PORT_GEN name)"

definition IMAR_HASH :: "ipc_state \<Rightarrow> ptr \<Rightarrow> mach_port_t \<Rightarrow> nat" where
  "IMAR_HASH s space name =
     unat ((drop_bit 4 space + of_nat (MACH_PORT_INDEX name) + MACH_PORT_NGEN name)
           AND (of_nat (length (ks_mabuckets s)) - 1))"

text \<open>
  The size of the table from the configured size and \<open>ipc_marequest_max\<close>; rounding up is
  the loop of \<open>ipc_hash_init\<close> again.
\<close>

fun imar_round_loop :: "nat \<Rightarrow> u32 \<Rightarrow> u32 \<Rightarrow> u32 option" where
  "imar_round_loop 0 msk b = None"
| "imar_round_loop (Suc fuel) msk b =
     (let msk = msk OR b;
          sz = msk + 1
      in if sz AND msk = 0 then Some sz else imar_round_loop fuel msk (push_bit 1 b))"

definition ipc_marequest_init :: "u32 \<Rightarrow> u32 \<Rightarrow> ptr list list option" where
  "ipc_marequest_init configured ipc_marequest_max =
     (let sz = (if configured = 0
                then let sz = drop_bit 8 ipc_marequest_max in if sz < 16 then 16 else sz
                else configured);
          msk = sz - 1
      in map_option (\<lambda>sz. replicate (unat sz) [])
           (if sz AND msk \<noteq> 0 then imar_round_loop 33 msk 1 else Some sz))"

definition ipc_marequest_info :: "ptr list list \<Rightarrow> nat list \<Rightarrow> nat list \<times> nat" where
  "ipc_marequest_info table info =
     (let count = (if length table < length info then length table else length info)
      in (map length (take count table) @ drop count info, length table))"

text \<open>Taking the first request for \<open>space\<close> and \<open>name\<close> out of its bucket.\<close>

definition imar_match :: "ipc_state \<Rightarrow> ptr \<Rightarrow> mach_port_t \<Rightarrow> ptr \<Rightarrow> bool" where
  "imar_match s space name m =
     (case ks_marequests s m of
        None \<Rightarrow> False
      | Some r \<Rightarrow> imar_space r = space \<and> imar_name r = name)"

definition imar_unlink :: "ptr \<Rightarrow> mach_port_t \<Rightarrow> ipc_state \<Rightarrow> (ptr \<times> ipc_state) option" where
  "imar_unlink space name s =
     (let b = IMAR_HASH s space name
      in case List.extract (imar_match s space name) (ks_mabuckets s ! b) of
           None \<Rightarrow> None
         | Some (before, m, after) \<Rightarrow>
             Some (m, s\<lparr>ks_mabuckets := (ks_mabuckets s)[b := before @ after]\<rparr>))"

definition imar_link :: "ptr \<Rightarrow> mach_port_t \<Rightarrow> ptr \<Rightarrow> ipc_state \<Rightarrow> ipc_state" where
  "imar_link space name m s =
     (let b = IMAR_HASH s space name
      in s\<lparr>ks_mabuckets := (ks_mabuckets s)[b := m # (ks_mabuckets s ! b)]\<rparr>)"

definition imar_put :: "ptr \<Rightarrow> ipc_marequest \<Rightarrow> ipc_state \<Rightarrow> ipc_state" where
  "imar_put m r s = s\<lparr>ks_marequests := (ks_marequests s)(m := Some r)\<rparr>"

definition imar_free :: "ptr \<Rightarrow> ipc_state \<Rightarrow> ipc_state" where
  "imar_free m s = s\<lparr>ks_marequests := (ks_marequests s)(m := None)\<rparr>"

section \<open>Reverse translation\<close>

definition ipc_right_reverse ::
    "ptr \<Rightarrow> ptr \<Rightarrow> ipc_state \<Rightarrow> ((mach_port_t \<times> ipc_entry_ptr) option \<times> ipc_state) option" where
  "ipc_right_reverse space object s =
     do {
       port \<leftarrow> ks_ports s object;
       (if \<not> ip_active port then Some (None, s)
        else if ip_data port = space then
          do {
            (e, s) \<leftarrow> entry_lookup space (ip_receiver_name port) s;
            e \<leftarrow> e;
            Some (Some (ip_receiver_name port, e), s)
          }
        else hash_lookup space object s)
     }"

section \<open>Requests\<close>

definition MACH_SEND_NOTIFY_IN_PROGRESS :: u32 where "MACH_SEND_NOTIFY_IN_PROGRESS = 0x10000006"
definition MACH_SEND_INVALID_NOTIFY :: u32 where "MACH_SEND_INVALID_NOTIFY = 0x1000000b"
definition MACH_SEND_NO_NOTIFY :: u32 where "MACH_SEND_NO_NOTIFY = 0x1000000e"

text \<open>The send-once right for \<open>notify\<close>, unless that is null.\<close>

definition imar_soright_for :: "ptr \<Rightarrow> mach_port_t \<Rightarrow> ipc_state \<Rightarrow> (ptr option \<times> ipc_state) option" where
  "imar_soright_for space notify s =
     (if notify = MACH_PORT_NULL then Some (Some 0, s)
      else
        do {
          (soright, s) \<leftarrow> ipc_port_lookup_notify space notify s;
          Some (if soright = 0 then None else Some soright, s)
        })"

definition ipc_marequest_create ::
    "ptr \<Rightarrow> ptr \<Rightarrow> mach_port_t \<Rightarrow> ipc_state \<Rightarrow> ((u32 + ptr) \<times> ipc_state) option" where
  "ipc_marequest_create space port notify s =
     (let (marequest, s) = zalloc s
      in if marequest = 0 then Some (Inl MACH_SEND_NO_NOTIFY, s)
         else
           do {
             is \<leftarrow> ks_spaces s space;
             (if \<not> is_active is then Some (Inl MACH_SEND_INVALID_NOTIFY, s)
              else
                do {
                  (found, s) \<leftarrow> ipc_right_reverse space port s;
                  (case found of
                     Some (name, e) \<Rightarrow>
                       do {
                         entry \<leftarrow> get_entry space e s;
                         (if ie_bits entry AND IE_BITS_MAREQUEST \<noteq> 0
                          then Some (Inl MACH_SEND_NOTIFY_IN_PROGRESS, s)
                          else
                            do {
                              (soright, s) \<leftarrow> imar_soright_for space notify s;
                              (case soright of
                                 None \<Rightarrow> Some (Inl MACH_SEND_INVALID_NOTIFY, s)
                               | Some soright \<Rightarrow>
                                   do {
                                     s \<leftarrow> set_entry space e (\<lambda>en. en\<lparr>ie_bits := ie_bits entry OR IE_BITS_MAREQUEST\<rparr>) s;
                                     s \<leftarrow> space_reference space s;
                                     let s = imar_put marequest
                                       \<lparr>imar_space = space, imar_name = name, imar_soright = soright\<rparr> s;
                                     Some (Inr marequest, imar_link space name marequest s)
                                   })
                            })
                       }
                   | None \<Rightarrow>
                       do {
                         (soright, s) \<leftarrow> imar_soright_for space notify s;
                         (case soright of
                            None \<Rightarrow> Some (Inl MACH_SEND_INVALID_NOTIFY, s)
                          | Some soright \<Rightarrow>
                              do {
                                s \<leftarrow> space_reference space s;
                                Some (Inr marequest, imar_put marequest
                                  \<lparr>imar_space = space, imar_name = MACH_PORT_NULL, imar_soright = soright\<rparr> s)
                              })
                       })
                })
           })"

definition ipc_marequest_cancel :: "ptr \<Rightarrow> mach_port_t \<Rightarrow> ipc_state \<Rightarrow> ipc_state option" where
  "ipc_marequest_cancel space name s =
     do {
       (m, s) \<leftarrow> imar_unlink space name s;
       r \<leftarrow> ks_marequests s m;
       Some (imar_put m (r\<lparr>imar_name := MACH_PORT_NULL\<rparr>) s)
     }"

definition ipc_marequest_rename :: "ptr \<Rightarrow> mach_port_t \<Rightarrow> mach_port_t \<Rightarrow> ipc_state \<Rightarrow> ipc_state option" where
  "ipc_marequest_rename space old new s =
     do {
       (m, s) \<leftarrow> imar_unlink space old s;
       r \<leftarrow> ks_marequests s m;
       Some (imar_link space new m (imar_put m (r\<lparr>imar_name := new\<rparr>) s))
     }"

definition ipc_marequest_destroy :: "ptr \<Rightarrow> ipc_state \<Rightarrow> ipc_state option" where
  "ipc_marequest_destroy marequest s =
     do {
       r \<leftarrow> ks_marequests s marequest;
       let space = imar_space r;
       let name = imar_name r;
       let soright = imar_soright r;
       (sright, s) \<leftarrow>
         (if name = MACH_PORT_NULL then Some (0, s)
          else
            do {
              (this, s) \<leftarrow> imar_unlink space name s;
              is \<leftarrow> ks_spaces s space;
              (if is_active is then
                 do {
                   (e, s) \<leftarrow> entry_lookup space name s;
                   e \<leftarrow> e;
                   s \<leftarrow> set_entry space e (\<lambda>en. en\<lparr>ie_bits := ie_bits en AND NOT IE_BITS_MAREQUEST\<rparr>) s;
                   (if soright = 0 then ipc_space_make_notify space s else Some (0, s))
                 }
               else Some (0, s))
            });
       s \<leftarrow> space_release space s;
       let s = imar_free marequest s;
       (if soright = 0 then
          if IO_VALID sright then ipc_notify_msg_accepted_compat sright name s else Some s
        else None)
     }"

end
