(* ===== verification/Ipc_Delivery.thy ===== *)
theory Ipc_Delivery
  imports Ipc_Port
begin

text \<open>
  Delivery of messages through the queues of \<^verbatim>\<open>src/ipc/ipc_mqueue.c\<close>.  The code searches for a
  receiver at four places; the locale \<open>receiver_search\<close> states what all of them promise, and
  the lemmas on queues are proved from that.
\<close>

section \<open>Queues\<close>

text \<open>
  The threads in a queue are distinct and wait, and no thread waits while there is a message.
\<close>

definition imq_ok :: "ipc_state \<Rightarrow> ipc_mqueue \<Rightarrow> bool" where
  "imq_ok s mq \<longleftrightarrow>
     distinct (imq_threads mq) \<and> (\<forall>th\<in>set (imq_threads mq). rcv_waiting s th) \<and>
     (imq_messages mq \<noteq> [] \<longrightarrow> imq_threads mq = [])"

text \<open>The threads \<open>ths\<close> have been given the messages \<open>ks\<close>, with sequence numbers from \<open>n\<close> on.\<close>

fun got :: "ipc_state \<Rightarrow> u32 \<Rightarrow> ptr list \<Rightarrow> ipc_kmsg list \<Rightarrow> bool" where
  "got s n [] ks \<longleftrightarrow> ks = []"
| "got s n (th # ths) ks \<longleftrightarrow>
     (\<exists>k ks' t. ks = k # ks' \<and> ks_threads s th = Some t \<and> ith_data t = ITH_KMSG k \<and> ith_seqno t = n \<and>
        got s (n + 1) ths ks')"

lemma got_frame:
  "got s n ths ks \<Longrightarrow> (\<And>th. th \<in> set ths \<Longrightarrow> ks_threads s' th = ks_threads s th) \<Longrightarrow> got s' n ths ks"
  by (induction s n ths ks rule: got.induct) auto

section \<open>The interface of a search\<close>

locale receiver_search =
  fixes search :: "ipc_kmsg \<Rightarrow> ptr \<Rightarrow> ptr list \<Rightarrow> ipc_state \<Rightarrow> (bool \<times> ptr list \<times> ipc_state) option"
    and acceptable :: "ipc_kmsg \<Rightarrow> bool"
  assumes search: "ks_ports s port = Some p \<Longrightarrow> distinct ths \<Longrightarrow> \<forall>th\<in>set ths. rcv_waiting s th \<Longrightarrow> acceptable kmsg \<Longrightarrow>
    \<exists>handed ths' s'. search kmsg port ths s = Some (handed, ths', s') \<and> search_ok kmsg port ths s handed ths' s'"
begin

text \<open>
  One message for a queue: it is either given to a thread or put at the end of the queue, and
  it is queued only when no thread is left.
\<close>

lemma deliver:
  assumes "ks_ports s port = Some p" "imq_ok s mq" "acceptable kmsg"
  obtains handed ths' s' where "search kmsg port (imq_threads mq) s = Some (handed, ths', s')"
    "imq_ok s' \<lparr>imq_messages = imq_messages mq @ (if handed then [] else [kmsg]), imq_threads = ths'\<rparr>"
    "ks_ports s' = (ks_ports s)(port \<mapsto> p\<lparr>ip_seqno := ip_seqno p + (if handed then 1 else 0)\<rparr>)"
    "ks_psets s' = ks_psets s" "ks_spaces s' = ks_spaces s" "set ths' \<subseteq> set (imq_threads mq)"
    "\<And>x. x \<notin> set (imq_threads mq) - set ths' \<Longrightarrow> ks_threads s' x = ks_threads s x"
    "handed \<Longrightarrow> imq_messages mq = [] \<and> (\<exists>th. th \<in> set (imq_threads mq) - set ths' \<and> got s' (ip_seqno p) [th] [kmsg])"
    "\<not> handed \<Longrightarrow> ths' = []"
proof -
  have mq: "distinct (imq_threads mq)" "\<forall>th\<in>set (imq_threads mq). rcv_waiting s th"
      "imq_messages mq \<noteq> [] \<Longrightarrow> imq_threads mq = []"
    using assms(2) by (auto simp: imq_ok_def)
  obtain handed ths' s' where r: "search kmsg port (imq_threads mq) s = Some (handed, ths', s')"
      "search_ok kmsg port (imq_threads mq) s handed ths' s'"
    using search [OF assms(1) mq(1,2) assms(3)] by blast
  from r(2) obtain away p' where o: "ks_ports s port = Some p'"
    "ks_ports s' = (ks_ports s)(port \<mapsto> p'\<lparr>ip_seqno := ip_seqno p' + (if handed then 1 else 0)\<rparr>)"
    "ks_psets s' = ks_psets s" "ks_spaces s' = ks_spaces s"
    "\<And>x. x \<notin> set (imq_threads mq) - set ths' \<Longrightarrow> ks_threads s' x = ks_threads s x"
    "\<And>x. x \<in> set away \<Longrightarrow> \<exists>t sz. ks_threads s' x = Some t \<and> ith_state t \<noteq> MACH_MSG_SUCCESS \<and> ith_data t = ITH_MSIZE sz"
    "if handed then \<exists>th t. imq_threads mq = away @ th # ths' \<and> ks_threads s' th = Some t \<and>
        ith_data t = ITH_KMSG kmsg \<and> ith_seqno t = ip_seqno p'
     else imq_threads mq = away \<and> ths' = []"
    by (rule search_okE) (rule that)
  have p': "p' = p" using o(1) assms(1) by simp
  have sub: "set ths' \<subseteq> set (imq_threads mq)" by (rule search_ok_rest [OF r(2)])
  have "rcv_waiting s' th" if "th \<in> set ths'" for th
    using rcv_waiting_other [OF o(5) [of th]] that sub mq(2) by blast
  moreover have "distinct ths'" using o(7) mq(1) by (auto split: if_splits)
  moreover have "imq_messages mq = [] \<or> ths' = []" using mq(3) sub by fastforce
  ultimately have ok: "imq_ok s' \<lparr>imq_messages = imq_messages mq @ (if handed then [] else [kmsg]), imq_threads = ths'\<rparr>"
    using o(7) by (auto simp: imq_ok_def split: if_splits)
  have "imq_messages mq = [] \<and> (\<exists>th. th \<in> set (imq_threads mq) - set ths' \<and> got s' (ip_seqno p) [th] [kmsg])" if handed
  proof -
    from o(7) that obtain th t where th: "imq_threads mq = away @ th # ths'" "ks_threads s' th = Some t"
        "ith_data t = ITH_KMSG kmsg" "ith_seqno t = ip_seqno p" by (auto simp: p')
    then show ?thesis using mq(1,3) by (intro conjI exI [of _ th]) auto
  qed
  then show ?thesis using that [OF r(1) ok _ o(3,4) sub o(5)] o(2,7) by (auto simp: p' split: if_splits)
qed

end

section \<open>The searches of the code\<close>

lemma move_receiver_search:
  assumes "ks_ports s port = Some p" "distinct ths" "\<forall>th\<in>set ths. rcv_waiting s th" "kmsg_ok kmsg"
  shows "\<exists>handed ths' s'. move_receiver kmsg port ths s = Some (handed, ths', s') \<and> search_ok kmsg port ths s handed ths' s'"
  using move_old_search [OF assms(1-3), of kmsg] move_new_search [OF assms(1-3), of kmsg] assms(4)
  by (simp add: move_receiver_def kmsg_ok_def)

definition send_receiver ::
    "u32 \<Rightarrow> ipc_kmsg \<Rightarrow> ptr \<Rightarrow> ptr list \<Rightarrow> ipc_state \<Rightarrow> (bool \<times> ptr list \<times> ipc_state) option" where
  "send_receiver opt kmsg =
     (if msgh_bits kmsg AND MACH_MSGH_BITS_OLD_FORMAT \<noteq> 0 then send_old opt kmsg else send_new kmsg)"

lemma send_receiver_search:
  assumes "ks_ports s port = Some p" "distinct ths" "\<forall>th\<in>set ths. rcv_waiting s th" "kmsg_ok kmsg"
  shows "\<exists>handed ths' s'. send_receiver opt kmsg port ths s = Some (handed, ths', s') \<and>
    search_ok kmsg port ths s handed ths' s'"
  using send_old_search [OF assms(1-3), of opt kmsg] move_new_search [OF assms(1-3), of kmsg] assms(4)
  by (simp add: send_receiver_def kmsg_ok_def send_new_eq)

text \<open>A message from an interrupt is simple and of the new format.\<close>

definition simple_kmsg :: "ipc_kmsg \<Rightarrow> bool" where
  "simple_kmsg kmsg \<longleftrightarrow> msgh_bits kmsg AND MACH_MSGH_BITS_COMPLEX = 0"

lemma send_interrupt_search:
  assumes "ks_ports s port = Some p" "distinct ths" "\<forall>th\<in>set ths. rcv_waiting s th" "simple_kmsg kmsg"
  shows "\<exists>handed ths' s'. send_interrupt kmsg port ths s = Some (handed, ths', s') \<and>
    search_ok kmsg port ths s handed ths' s'"
  using move_new_search [OF assms(1-3), of kmsg] assms(4) by (simp add: simple_kmsg_def send_interrupt_eq)

interpretation move: receiver_search move_receiver kmsg_ok
  by unfold_locales (rule move_receiver_search)

interpretation send: receiver_search "send_receiver opt" kmsg_ok for opt
  by unfold_locales (rule send_receiver_search)

interpretation interrupt: receiver_search send_interrupt simple_kmsg
  by unfold_locales (rule send_interrupt_search)

section \<open>Moving the messages of a port\<close>

abbreviation msgs_for :: "ptr \<Rightarrow> ipc_kmsg list \<Rightarrow> ipc_kmsg list" where
  "msgs_for port \<equiv> filter (\<lambda>k. msgh_remote_port k = port)"

abbreviation msgs_other :: "ptr \<Rightarrow> ipc_kmsg list \<Rightarrow> ipc_kmsg list" where
  "msgs_other port \<equiv> filter (\<lambda>k. msgh_remote_port k \<noteq> port)"

text \<open>
  The result of delivering the messages \<open>ks\<close> of a port to a queue, in order: the first \<open>length ths\<close>
  of them have been given to the waiting threads \<open>ths\<close>, and the others are at the end of the queue.
\<close>

definition delivered :: "ptr \<Rightarrow> ipc_port \<Rightarrow> ipc_kmsg list \<Rightarrow> ipc_mqueue \<Rightarrow> ipc_state \<Rightarrow> ptr list \<Rightarrow> ipc_mqueue \<Rightarrow> ipc_state \<Rightarrow> bool" where
  "delivered port p ks mq s ths mq' s' \<longleftrightarrow>
     length ths \<le> length ks \<and> distinct ths \<and> set ths \<subseteq> set (imq_threads mq) - set (imq_threads mq') \<and>
     set (imq_threads mq') \<subseteq> set (imq_threads mq) \<and>
     got s' (ip_seqno p) ths (take (length ths) ks) \<and>
     imq_messages mq' = imq_messages mq @ drop (length ths) ks \<and> imq_ok s' mq' \<and>
     ks_ports s' = (ks_ports s)(port \<mapsto> p\<lparr>ip_seqno := ip_seqno p + of_nat (length ths)\<rparr>) \<and>
     ks_psets s' = ks_psets s \<and> ks_spaces s' = ks_spaces s \<and>
     (\<forall>x. x \<notin> set (imq_threads mq) - set (imq_threads mq') \<longrightarrow> ks_threads s' x = ks_threads s x)"

lemma delivered_Nil:
  "ks_ports s port = Some p \<Longrightarrow> imq_ok s mq \<Longrightarrow> delivered port p [] mq s [] mq s"
  by (auto simp: delivered_def)

lemma delivered_queued:
  assumes "delivered port p1 ks (mq\<lparr>imq_threads := [], imq_messages := imq_messages mq @ [k]\<rparr>) s1 ths mq' s'"
    "ks_ports s1 = (ks_ports s)(port \<mapsto> p)" "p1 = p" "ks_psets s1 = ks_psets s" "ks_spaces s1 = ks_spaces s"
    "\<And>x. x \<notin> set (imq_threads mq) \<Longrightarrow> ks_threads s1 x = ks_threads s x"
  shows "delivered port p (k # ks) mq s ths mq' s'"
  using assms by (auto simp: delivered_def)

lemma delivered_handed:
  assumes d: "delivered port p1 ks (mq\<lparr>imq_threads := ths1\<rparr>) s1 ths mq' s'"
    and p1: "p1 = p\<lparr>ip_seqno := ip_seqno p + 1\<rparr>" and s1: "ks_ports s1 = (ks_ports s)(port \<mapsto> p1)"
      "ks_psets s1 = ks_psets s" "ks_spaces s1 = ks_spaces s" "set ths1 \<subseteq> set (imq_threads mq)"
      "\<And>x. x \<notin> set (imq_threads mq) - set ths1 \<Longrightarrow> ks_threads s1 x = ks_threads s x"
    and th: "th \<in> set (imq_threads mq) - set ths1" "got s1 (ip_seqno p) [th] [k]" and mq: "imq_messages mq = []"
    and ok: "imq_ok s1 (mq\<lparr>imq_threads := ths1\<rparr>)"
  shows "delivered port p (k # ks) mq s (th # ths) mq' s'"
proof -
  have "ks_threads s' th = ks_threads s1 th" using d th(1) by (auto simp: delivered_def)
  then have "got s' (ip_seqno p) (th # ths) (k # take (length ths) ks)"
    using d th(2) by (simp add: delivered_def p1)
  moreover have "set ths1 \<subseteq> set (imq_threads mq)" using s1(4) .
  ultimately show ?thesis using d th(1) s1 by (auto simp: delivered_def p1 algebra_simps)
qed

lemma move_loop_delivers:
  assumes "ks_ports s port = Some p" "imq_ok s dest" "\<forall>k\<in>set oldq. kmsg_ok k"
  shows "\<exists>ths dest' s'. move_loop port oldq dest s = Some (msgs_other port oldq, dest', s') \<and>
    delivered port p (msgs_for port oldq) dest s ths dest' s'"
  using assms
proof (induction oldq arbitrary: p dest s)
  case Nil
  then show ?case using delivered_Nil by fastforce
next
  case (Cons k oldq)
  show ?case
  proof (cases "msgh_remote_port k = port")
    case False
    then show ?thesis using Cons.IH [OF Cons.prems(1,2)] Cons.prems(3) by fastforce
  next
    case True
    obtain handed ths1 s1 where r: "move_receiver k port (imq_threads dest) s = Some (handed, ths1, s1)"
        "imq_ok s1 \<lparr>imq_messages = imq_messages dest @ (if handed then [] else [k]), imq_threads = ths1\<rparr>"
        "ks_ports s1 = (ks_ports s)(port \<mapsto> p\<lparr>ip_seqno := ip_seqno p + (if handed then 1 else 0)\<rparr>)"
        "ks_psets s1 = ks_psets s" "ks_spaces s1 = ks_spaces s" "set ths1 \<subseteq> set (imq_threads dest)"
        "\<And>x. x \<notin> set (imq_threads dest) - set ths1 \<Longrightarrow> ks_threads s1 x = ks_threads s x"
        "handed \<Longrightarrow> imq_messages dest = [] \<and> (\<exists>th. th \<in> set (imq_threads dest) - set ths1 \<and> got s1 (ip_seqno p) [th] [k])"
        "\<not> handed \<Longrightarrow> ths1 = []"
      using move.deliver [OF Cons.prems(1,2), of k] Cons.prems(3) by auto
    define dest1 where "dest1 = (if handed then dest\<lparr>imq_threads := ths1\<rparr>
      else dest\<lparr>imq_threads := ths1, imq_messages := imq_messages dest @ [k]\<rparr>)"
    define p1 where "p1 = p\<lparr>ip_seqno := ip_seqno p + (if handed then 1 else 0)\<rparr>"
    have ok1: "imq_ok s1 dest1" using r(2) by (simp add: dest1_def imq_ok_def)
    have "ks_ports s1 port = Some p1" by (simp add: r(3) p1_def)
    from Cons.IH [OF this ok1] Cons.prems(3) obtain ths dest' s' where ih:
        "move_loop port oldq dest1 s1 = Some (msgs_other port oldq, dest', s')"
        "delivered port p1 (msgs_for port oldq) dest1 s1 ths dest' s'" by auto
    have run: "move_loop port (k # oldq) dest s = Some (msgs_other port (k # oldq), dest', s')"
      using True r(1) ih(1) by (cases handed) (simp_all add: dest1_def Let_def)
    show ?thesis
    proof (cases handed)
      case True
      then obtain th where th: "th \<in> set (imq_threads dest) - set ths1" "got s1 (ip_seqno p) [th] [k]" "imq_messages dest = []"
        using r(8) by blast
      have "delivered port p (k # msgs_for port oldq) dest s (th # ths) dest' s'"
        by (rule delivered_handed [where ?p1.0 = p1 and ?ths1.0 = ths1 and ?s1.0 = s1]) (use True r th ih(2) ok1 in \<open>simp_all add: p1_def dest1_def\<close>)
      then show ?thesis using run \<open>msgh_remote_port k = port\<close> by auto
    next
      case False
      have "delivered port p (k # msgs_for port oldq) dest s ths dest' s'"
        by (rule delivered_queued [where ?p1.0 = p1 and ?s1.0 = s1]) (use False r ih(2) in \<open>simp_all add: p1_def dest1_def\<close>)
      then show ?thesis using run \<open>msgh_remote_port k = port\<close> by auto
    qed
  qed
qed

text \<open>Two states that differ in the contents of queues only.\<close>

definition requeued :: "ipc_state \<Rightarrow> ipc_state \<Rightarrow> bool" where
  "requeued s' s \<longleftrightarrow>
     ks_threads s' = ks_threads s \<and> ks_spaces s' = ks_spaces s \<and> ks_effects s' = ks_effects s \<and>
     (\<forall>x. map_option (\<lambda>p. p\<lparr>ip_messages := imq_empty\<rparr>) (ks_ports s' x) =
          map_option (\<lambda>p. p\<lparr>ip_messages := imq_empty\<rparr>) (ks_ports s x)) \<and>
     (\<forall>x. map_option (\<lambda>p. p\<lparr>ips_messages := imq_empty\<rparr>) (ks_psets s' x) =
          map_option (\<lambda>p. p\<lparr>ips_messages := imq_empty\<rparr>) (ks_psets s x))"

lemma requeued_trans: "requeued s3 s2 \<Longrightarrow> requeued s2 s1 \<Longrightarrow> requeued s3 s1"
  by (simp add: requeued_def)

lemma put_mqueueE:
  assumes "get_mqueue q s = Some mq0"
  obtains s' where "put_mqueue q mq s = Some s'" "get_mqueue q s' = Some mq"
    "\<And>q'. q' \<noteq> q \<Longrightarrow> get_mqueue q' s' = get_mqueue q' s" "requeued s' s"
proof (cases q)
  case (PortQueue x)
  then obtain p where p: "ks_ports s x = Some p" using assms by auto
  define s' where "s' = put_port x (p\<lparr>ip_messages := mq\<rparr>) s"
  have "get_mqueue q' s' = get_mqueue q' s" if "q' \<noteq> q" for q' using that PortQueue by (cases q') (auto simp: s'_def)
  then show ?thesis using PortQueue p by (intro that [of s']) (simp_all add: s'_def mod_port_def requeued_def)
next
  case (PsetQueue x)
  then obtain p where p: "ks_psets s x = Some p" using assms by auto
  define s' where "s' = put_pset x (p\<lparr>ips_messages := mq\<rparr>) s"
  have "get_mqueue q' s' = get_mqueue q' s" if "q' \<noteq> q" for q' using that PsetQueue by (cases q') (auto simp: s'_def)
  then show ?thesis using PsetQueue p by (intro that [of s']) (simp_all add: s'_def mod_pset_def requeued_def)
qed

lemma imq_ok_requeued: "requeued s' s \<Longrightarrow> imq_ok s' mq = imq_ok s mq"
  by (simp add: imq_ok_def rcv_waiting_def requeued_def)

lemma got_requeued: "requeued s' s \<Longrightarrow> got s' n ths ks = got s n ths ks"
  unfolding requeued_def by (metis got_frame)

lemma delivered_mqueue:
  assumes "delivered port p ks mq s ths mq' s'" "ks_ports s port = Some p"
  shows "get_mqueue q s' = get_mqueue q s"
  using assms by (cases q) (auto simp: delivered_def)

abbreviation port_seqno :: "ipc_state \<Rightarrow> ptr \<Rightarrow> u32 option" where
  "port_seqno s port \<equiv> map_option ip_seqno (ks_ports s port)"

lemma port_requeued:
  assumes "requeued s' s" "ks_ports s x = Some p"
  obtains mq where "ks_ports s' x = Some (p\<lparr>ip_messages := mq\<rparr>)"
proof -
  from assms obtain p' where p': "ks_ports s' x = Some p'" "p'\<lparr>ip_messages := imq_empty\<rparr> = p\<lparr>ip_messages := imq_empty\<rparr>"
    by (auto simp: requeued_def map_option_eq_Some dest!: spec [of _ x])
  have "p' = p'\<lparr>ip_messages := imq_empty\<rparr>\<lparr>ip_messages := ip_messages p'\<rparr>" by simp
  also have "\<dots> = p\<lparr>ip_messages := ip_messages p'\<rparr>" unfolding p'(2) by simp
  finally show ?thesis using that p'(1) by metis
qed

lemma pset_requeued:
  assumes "requeued s' s" "ks_psets s x = Some p"
  obtains mq where "ks_psets s' x = Some (p\<lparr>ips_messages := mq\<rparr>)"
proof -
  from assms obtain p' where p': "ks_psets s' x = Some p'" "p'\<lparr>ips_messages := imq_empty\<rparr> = p\<lparr>ips_messages := imq_empty\<rparr>"
    by (auto simp: requeued_def map_option_eq_Some dest!: spec [of _ x])
  have "p' = p'\<lparr>ips_messages := imq_empty\<rparr>\<lparr>ips_messages := ips_messages p'\<rparr>" by simp
  also have "\<dots> = p\<lparr>ips_messages := ips_messages p'\<rparr>" unfolding p'(2) by simp
  finally show ?thesis using that p'(1) by metis
qed

lemma mqueue_move_run:
  assumes q: "get_mqueue source s = Some sq" "get_mqueue dest s = Some dq" "source \<noteq> dest"
    and ok: "imq_ok s dq" "\<forall>k\<in>set (imq_messages sq). kmsg_ok k" and p: "ks_ports s port = Some p"
  obtains ths dq' s1 s' where "delivered port p (msgs_for port (imq_messages sq)) dq s ths dq' s1"
    "ipc_mqueue_move dest source port s = Some s'" "requeued s' s1"
    "get_mqueue source s' = Some (sq\<lparr>imq_messages := msgs_other port (imq_messages sq)\<rparr>)"
    "get_mqueue dest s' = Some dq'"
    "\<And>q. q \<noteq> source \<Longrightarrow> q \<noteq> dest \<Longrightarrow> get_mqueue q s' = get_mqueue q s"
proof -
  obtain ths dq' s1 where d: "move_loop port (imq_messages sq) dq s = Some (msgs_other port (imq_messages sq), dq', s1)"
      "delivered port p (msgs_for port (imq_messages sq)) dq s ths dq' s1"
    using move_loop_delivers [OF p ok] by blast
  note same = delivered_mqueue [OF d(2) p]
  define sq' where "sq' = sq\<lparr>imq_messages := msgs_other port (imq_messages sq)\<rparr>"
  have "get_mqueue source s1 = Some sq" using same q(1) by simp
  then obtain s2 where s2: "put_mqueue source sq' s1 = Some s2" "get_mqueue source s2 = Some sq'"
      "\<And>q'. q' \<noteq> source \<Longrightarrow> get_mqueue q' s2 = get_mqueue q' s1" "requeued s2 s1"
    by (rule put_mqueueE [where mq = sq']) (rule that)
  have "get_mqueue dest s2 = Some dq" using s2(3) [of dest] q(2,3) same by simp
  then obtain s' where s': "put_mqueue dest dq' s2 = Some s'" "get_mqueue dest s' = Some dq'"
      "\<And>q'. q' \<noteq> dest \<Longrightarrow> get_mqueue q' s' = get_mqueue q' s2" "requeued s' s2"
    by (rule put_mqueueE [where mq = dq']) (rule that)
  have "ipc_mqueue_move dest source port s = Some s'"
    using q d(1) s2(1) s'(1) by (simp add: ipc_mqueue_move_def sq'_def)
  moreover have "get_mqueue source s' = Some sq'" using s'(3) [of source] s2(2) q(3) by simp
  moreover have "get_mqueue q s' = get_mqueue q s" if "q \<noteq> source" "q \<noteq> dest" for q
    using s'(3) [OF that(2)] s2(3) [OF that(1)] same by simp
  ultimately show ?thesis
    using that [OF d(2) _ requeued_trans [OF s'(4) s2(4)] _ s'(2)] unfolding sq'_def by blast
qed

text \<open>C16: Moving the messages of a port to another queue always ends.  Exactly the messages for the
  port leave the old queue; a first part of them is given, in order and with consecutive sequence
  numbers, to distinct threads that waited in the new queue, and the rest is appended to it in order.
  Afterwards again no thread waits in the new queue while there is a message.\<close>

theorem mqueue_move_fifo:
  assumes "get_mqueue source s = Some sq" and "get_mqueue dest s = Some dq" and "source \<noteq> dest"
    and "imq_ok s dq" and "\<forall>k\<in>set (imq_messages sq). kmsg_ok k" and "ks_ports s port = Some p"
  shows "\<exists>ths dq' s'.
     ipc_mqueue_move dest source port s = Some s' \<and>
     get_mqueue source s' = Some (sq\<lparr>imq_messages := msgs_other port (imq_messages sq)\<rparr>) \<and>
     get_mqueue dest s' = Some dq' \<and> imq_ok s' dq' \<and>
     distinct ths \<and> set ths \<subseteq> set (imq_threads dq) - set (imq_threads dq') \<and>
     length ths \<le> length (msgs_for port (imq_messages sq)) \<and>
     got s' (ip_seqno p) ths (take (length ths) (msgs_for port (imq_messages sq))) \<and>
     imq_messages dq' = imq_messages dq @ drop (length ths) (msgs_for port (imq_messages sq)) \<and>
     port_seqno s' port = Some (ip_seqno p + of_nat (length ths))"
proof -
  obtain ths dq' s1 s' where r: "delivered port p (msgs_for port (imq_messages sq)) dq s ths dq' s1"
    "ipc_mqueue_move dest source port s = Some s'" "requeued s' s1"
    "get_mqueue source s' = Some (sq\<lparr>imq_messages := msgs_other port (imq_messages sq)\<rparr>)"
    "get_mqueue dest s' = Some dq'"
    by (rule mqueue_move_run [OF assms]) (rule that)
  have "ks_ports s1 port = Some (p\<lparr>ip_seqno := ip_seqno p + of_nat (length ths)\<rparr>)" using r(1) by (simp add: delivered_def)
  then have "port_seqno s' port = Some (ip_seqno p + of_nat (length ths))"
    by (rule port_requeued [OF r(3)]) simp
  then show ?thesis
    using r(1,2,4,5)
    by (intro exI [of _ ths] exI [of _ dq'] exI [of _ s'])
      (simp add: delivered_def imq_ok_requeued [OF r(3)] got_requeued [OF r(3)])
qed

text \<open>A port with two messages, and a set in which a thread waits.\<close>

definition sample_kmsg :: "u32 \<Rightarrow> ipc_kmsg" where
  "sample_kmsg ident =
     \<lparr>ikm_size = 256, ikm_marequest = 0, ikm_sender = (0, 0), ikm_delta = 0,
      msgh_bits = MACH_MSGH_BITS MACH_MSG_TYPE_PORT_SEND 0, msgh_size = 24, msgh_remote_port = 0x10,
      msgh_local_port = 0, msgh_reserved = 0, msgh_id = ident, ikm_body = NoBody\<rparr>"

definition sample_thread :: ipc_thread where
  "sample_thread =
     \<lparr>ith_state = MACH_RCV_IN_PROGRESS, ith_rcv_option = 0, ith_list = None, ith_seqno = 0,
      ith_data = ITH_MSIZE 100, ith_wait_result = 0\<rparr>"

definition sample_queues :: ipc_state where
  "sample_queues = empty_state\<lparr>
     ks_ports := [0x10 \<mapsto> sample_port\<lparr>ip_msgcount := 2,
       ip_messages := \<lparr>imq_messages = [sample_kmsg 1, sample_kmsg 2], imq_threads = []\<rparr>\<rparr>],
     ks_psets := [0x20 \<mapsto> \<lparr>ips_references = 1, ips_bits = io_makebits True IOT_PORT_SET 0, ips_local_name = 0x203,
       ips_messages = \<lparr>imq_messages = [], imq_threads = [0x30]\<rparr>\<rparr>],
     ks_threads := [0x30 \<mapsto> sample_thread]\<rparr>"

lemma sample_queues_ok:
  "get_mqueue (PortQueue 0x10) sample_queues = Some \<lparr>imq_messages = [sample_kmsg 1, sample_kmsg 2], imq_threads = []\<rparr>"
  "get_mqueue (PsetQueue 0x20) sample_queues = Some \<lparr>imq_messages = [], imq_threads = [0x30]\<rparr>"
  "imq_ok sample_queues \<lparr>imq_messages = [], imq_threads = [0x30]\<rparr>" "kmsg_ok (sample_kmsg n)"
  "msgh_remote_port (sample_kmsg n) = 0x10" "\<exists>p. ks_ports sample_queues 0x10 = Some p"
  by (simp_all add: sample_queues_def imq_ok_def rcv_waiting_def sample_thread_def GET_RCV_ELEMENTS_def
      trailer_size_def kmsg_ok_def sample_kmsg_def MACH_MSGH_BITS_def MACH_MSG_TYPE_MOVE_SEND_def
      MACH_MSGH_BITS_COMPLEX_def)

theorem mqueue_move_fifo_witness:
  "\<exists>ths dq' s'. ipc_mqueue_move (PsetQueue 0x20) (PortQueue 0x10) 0x10 sample_queues = Some s' \<and>
     get_mqueue (PortQueue 0x10) s' = Some \<lparr>imq_messages = [], imq_threads = []\<rparr> \<and>
     get_mqueue (PsetQueue 0x20) s' = Some dq' \<and> imq_messages dq' = drop (length ths) [sample_kmsg 1, sample_kmsg 2] \<and>
     set ths \<subseteq> {0x30} - set (imq_threads dq')"
proof -
  obtain p where p: "ks_ports sample_queues 0x10 = Some p" using sample_queues_ok(6) by blast
  show ?thesis
    using mqueue_move_fifo [OF sample_queues_ok(1,2) _ sample_queues_ok(3) _ p]
    by (simp add: sample_queues_ok del: get_mqueue.simps) blast
qed

section \<open>Sending\<close>




definition sample_full :: ipc_state where
  "sample_full = sample_queues\<lparr>ks_ports := [0x10 \<mapsto> sample_port\<lparr>ip_msgcount := 5\<rparr>], ks_threads := [0x40 \<mapsto> sample_thread]\<rparr>"


text \<open>C19: The searches for a receiver, which the code has in four copies, agree: sending a message of the new format
  finds the same receiver with the same effects as moving it, and so do sending an old message without
  a switch and sending a simple message from an interrupt.\<close>

theorem search_equivalence:
  "send_new kmsg port ths s = move_new kmsg port ths s \<and>
   (opt AND MACH_SEND_SWITCH = 0 \<longrightarrow> send_old opt kmsg port ths s = move_old kmsg port ths s) \<and>
   (msgh_bits kmsg AND MACH_MSGH_BITS_COMPLEX = 0 \<longrightarrow> send_interrupt kmsg port ths s = move_new kmsg port ths s)"
  by (simp add: send_new_eq send_old_switch send_interrupt_eq)

theorem search_equivalence_witness:
  "send_old 0 (sample_kmsg 3) 0x10 [0x30] sample_queues = move_old (sample_kmsg 3) 0x10 [0x30] sample_queues \<and>
   send_interrupt (sample_kmsg 3) 0x10 [0x30] sample_queues = move_new (sample_kmsg 3) 0x10 [0x30] sample_queues"
proof -
  have "msgh_bits (sample_kmsg 3) AND MACH_MSGH_BITS_COMPLEX = 0"
    by (simp add: sample_kmsg_def MACH_MSGH_BITS_def MACH_MSGH_BITS_COMPLEX_def MACH_MSG_TYPE_MOVE_SEND_def)
  then show ?thesis using search_equivalence [of "sample_kmsg 3" "0x10" "[0x30]" sample_queues 0] by simp
qed

section \<open>Port sets\<close>

lemma changed_loop_wakes:
  assumes "\<forall>th\<in>set ths. ks_threads s th \<noteq> None"
  shows "\<exists>s'. changed_loop mr ths s = Some s' \<and> ks_ports s' = ks_ports s \<and> ks_psets s' = ks_psets s \<and>
    ks_spaces s' = ks_spaces s \<and>
    (\<forall>x. ks_threads s' x = (if x \<in> set ths then map_option (\<lambda>t. t\<lparr>ith_state := mr\<rparr>) (ks_threads s x) else ks_threads s x))"
  using assms
proof (induction ths arbitrary: s)
  case (Cons th ths)
  then obtain t where t: "ks_threads s th = Some t" by auto
  define s1 where "s1 = effect (ThreadGo th) (put_thread th (t\<lparr>ith_state := mr\<rparr>) s)"
  have "\<forall>x\<in>set ths. ks_threads s1 x \<noteq> None" using Cons.prems by (simp add: s1_def)
  from Cons.IH [OF this] obtain s' where "changed_loop mr ths s1 = Some s'" "ks_ports s' = ks_ports s1"
      "ks_psets s' = ks_psets s1" "ks_spaces s' = ks_spaces s1"
      "\<forall>x. ks_threads s' x = (if x \<in> set ths then map_option (\<lambda>t. t\<lparr>ith_state := mr\<rparr>) (ks_threads s1 x) else ks_threads s1 x)"
    by blast
  then show ?case using t by (auto simp: mod_thread_def s1_def)
qed simp

lemma put_pset_port: "put_port p x (put_pset q y s) = put_pset q y (put_port p x s)"
  by (simp add: state_defs)

lemma put_pset_twice: "put_pset q z (put_pset q y s) = put_pset q z s"
  by (simp add: state_defs)

lemma imq_assign [simp]:
  "mq\<lparr>imq_messages := ms, imq_threads := ths\<rparr> = \<lparr>imq_messages = ms, imq_threads = ths\<rparr>"
  "mq\<lparr>imq_threads := ths, imq_messages := ms\<rparr> = \<lparr>imq_messages = ms, imq_threads = ths\<rparr>" for mq :: ipc_mqueue
  by (cases mq; simp)+

lemma move_loop_quiet:
  "imq_threads dest = [] \<Longrightarrow>
   move_loop port oldq dest s = Some (msgs_other port oldq, dest\<lparr>imq_messages := imq_messages dest @ msgs_for port oldq\<rparr>, s)"
proof (induction oldq arbitrary: dest)
  case (Cons k oldq)
  have "move_receiver k port [] s = Some (False, [], s)" by (simp add: move_receiver_def)
  moreover obtain ms where "dest = \<lparr>imq_messages = ms, imq_threads = []\<rparr>"
    using Cons.prems by (cases dest) simp
  ultimately show ?case using Cons.IH [of dest] Cons.IH [of "\<lparr>imq_messages = ms @ [k], imq_threads = []\<rparr>"]
    by (simp add: Let_def)
qed simp



end
