(* ===== verification/Ipc_Receive.thy ===== *)
theory Ipc_Receive
  imports Ipc_Marequest Ipc_Delivery
begin

text \<open>
  Receiving, \<^verbatim>\<open>src/ipc/ipc_mqueue.c\<close>: finding the queue for a name, and taking a message off a
  queue or waiting for one.
\<close>

section \<open>Finding the queue\<close>

definition ipc_mqueue_copyin ::
    "ptr \<Rightarrow> mach_port_t \<Rightarrow> ipc_state \<Rightarrow> ((u32 + mqueue_ref \<times> ptr) \<times> ipc_state) option" where
  "ipc_mqueue_copyin space name s =
     do {
       is \<leftarrow> ks_spaces s space;
       (if \<not> is_active is then Some (Inl MACH_RCV_INVALID_NAME, s)
        else
          do {
            (e, s) \<leftarrow> entry_lookup space name s;
            (case e of
               None \<Rightarrow> Some (Inl MACH_RCV_INVALID_NAME, s)
             | Some e \<Rightarrow>
                 do {
                   entry \<leftarrow> get_entry space e s;
                   let bits = ie_bits entry;
                   let object = ie_object entry;
                   (if bits AND MACH_PORT_TYPE_RECEIVE \<noteq> 0 then
                      do {
                        p \<leftarrow> ks_ports s object;
                        let pset = ip_pset p;
                        in_set \<leftarrow> (if pset = 0 then Some False else map_option ips_active (ks_psets s pset));
                        (if in_set then Some (Inl MACH_RCV_IN_SET, s)
                         else
                           do {
                             s \<leftarrow> (if pset = 0 then Some s
                                   else ipc_pset_remove pset object s \<bind> ips_check_unlock pset);
                             map_option (Pair (Inr (PortQueue object, object))) (mod_port object ip_reference s)
                           })
                      }
                    else if bits AND MACH_PORT_TYPE_PORT_SET \<noteq> 0 then
                      map_option (Pair (Inr (PsetQueue object, object))) (mod_pset object ips_reference s)
                    else Some (Inl MACH_RCV_INVALID_NAME, s))
                 })
          })
     }"

section \<open>Receiving\<close>

text \<open>
  What a receive returns: the code; what is stored through \<open>kmsgp\<close>, a message or the size of
  one; the sequence number; and the scatter list.
\<close>

record rcv_result =
  rcv_mr :: u32
  rcv_kmsgp :: "ith_data option"
  rcv_seqno :: u32
  rcv_list :: "ipc_kmsg option"

text \<open>
  The first part either returns, or gets a message with the state of the thread and a
  sequence number.
\<close>

datatype rcv_step =
    RcvReturn rcv_result
  | RcvGot u32 ipc_kmsg u32 "ipc_kmsg option"

abbreviation rcv_return :: "u32 \<Rightarrow> ith_data option \<Rightarrow> ipc_kmsg option \<Rightarrow> rcv_step" where
  "rcv_return mr kmsgp lst \<equiv> RcvReturn \<lparr>rcv_mr = mr, rcv_kmsgp = kmsgp, rcv_seqno = 0, rcv_list = lst\<rparr>"

text \<open>Taking the first message off the queue.\<close>

definition rcv_take ::
    "mqueue_ref \<Rightarrow> ipc_kmsg \<Rightarrow> u32 \<Rightarrow> ipc_kmsg option \<Rightarrow> ipc_state \<Rightarrow> (rcv_step \<times> ipc_state) option" where
  "rcv_take mqueue kmsg mr lst s =
     do {
       mq \<leftarrow> get_mqueue mqueue s;
       s \<leftarrow> put_mqueue mqueue (mq\<lparr>imq_messages := tl (imq_messages mq)\<rparr>) s;
       let port = msgh_remote_port kmsg;
       p \<leftarrow> ks_ports s port;
       Some (RcvGot mr kmsg (ip_seqno p) lst, put_port port (p\<lparr>ip_seqno := ip_seqno p + 1\<rparr>) s)
     }"

text \<open>What happens with the first message of the queue.\<close>

definition rcv_first ::
    "mqueue_ref \<Rightarrow> u32 \<Rightarrow> u32 \<Rightarrow> ipc_kmsg option \<Rightarrow> ipc_kmsg \<Rightarrow> ipc_state \<Rightarrow> (rcv_step \<times> ipc_state) option" where
  "rcv_first mqueue opt max_size lst kmsg s =
     (let msg_is_complex = (msgh_bits kmsg AND MACH_MSGH_BITS_COMPLEX \<noteq> 0);
          too_large = rcv_return MACH_RCV_TOO_LARGE (Some (ITH_MSIZE (msgh_size kmsg)))
      in if msgh_bits kmsg AND MACH_MSGH_BITS_OLD_FORMAT \<noteq> 0 then
           if opt AND MACH_RCV_OLD_FORMAT = 0 then rcv_take mqueue kmsg MACH_RCV_HEADER_ERROR lst s
           else if msgh_size kmsg > max_size then Some (too_large lst, s)
           else rcv_take mqueue kmsg MACH_MSG_SUCCESS lst s
         else if opt AND MACH_RCV_OLD_FORMAT \<noteq> 0 then
           if msg_is_complex \<or> msgh_size kmsg > sizeof_mach_msg_header \<or> max_size < sizeof_mach_msg_header
           then rcv_take mqueue kmsg MACH_RCV_HEADER_ERROR lst s
           else rcv_take mqueue kmsg MACH_MSG_SUCCESS lst s
         else
           do {
             trailer \<leftarrow> REQUESTED_TRAILER_SIZE opt;
             (if msgh_size kmsg > max_size - trailer then
                if opt AND MACH_RCV_LARGE \<noteq> 0 then Some (too_large lst, s)
                else rcv_take mqueue kmsg MACH_RCV_TOO_LARGE lst s
              else
                case lst of
                  None \<Rightarrow> rcv_take mqueue kmsg MACH_MSG_SUCCESS lst s
                | Some l \<Rightarrow>
                    if \<not> msg_is_complex then rcv_take mqueue kmsg MACH_MSG_SUCCESS lst s
                    else
                      do {
                        (mr, l, s) \<leftarrow> ipc_kmsg_check_scatter kmsg opt l s;
                        (if mr = MACH_MSG_SUCCESS then rcv_take mqueue kmsg mr (Some l) s
                         else if mr = MACH_RCV_INVALID_TYPE \<or> mr AND MACH_MSG_VM_KERNEL \<noteq> 0
                         then Some (rcv_return mr None (Some l), s)
                         else if opt AND MACH_RCV_LARGE \<noteq> 0
                         then Some (rcv_return mr (Some (ITH_MSIZE (msgh_size kmsg))) (Some l), s)
                         else rcv_take mqueue kmsg mr (Some l) s)
                      })
           })"

text \<open>What a thread does that wakes up; \<open>None\<close> inside \<open>Some\<close> is to wait again, without a timeout left.\<close>

definition rcv_woken ::
    "mqueue_ref \<Rightarrow> ptr \<Rightarrow> ipc_state \<Rightarrow> (rcv_step option \<times> ipc_state) option" where
  "rcv_woken mqueue self s =
     do {
       t \<leftarrow> ks_threads s self;
       let mr = ith_state t;
       let return_kmsg =
         (case ith_data t of
            ITH_KMSG kmsg \<Rightarrow> Some (Some (RcvGot mr kmsg (ith_seqno t) (ith_list t)), s)
          | ITH_MSIZE _ \<Rightarrow> None);
       (if mr = MACH_MSG_SUCCESS then return_kmsg
        else if mr = MACH_RCV_INVALID_TYPE then Some (Some (rcv_return mr None (ith_list t)), s)
        else if mr = MACH_RCV_TOO_LARGE \<or> mr = MACH_RCV_SCATTER_SMALL then
          if ith_rcv_option t AND (MACH_RCV_LARGE OR MACH_RCV_OLD_FORMAT) = 0 then return_kmsg
          else Some (Some (rcv_return mr (Some (ith_data t)) (ith_list t)), s)
        else if mr = MACH_RCV_PORT_DIED \<or> mr = MACH_RCV_PORT_CHANGED
        then Some (Some (rcv_return mr None (ith_list t)), s)
        else if mr = MACH_RCV_IN_PROGRESS then
          do {
            mq \<leftarrow> get_mqueue mqueue s;
            s \<leftarrow> put_mqueue mqueue (mq\<lparr>imq_threads := remove1 self (imq_threads mq)\<rparr>) s;
            (if ith_wait_result t = THREAD_INTERRUPTED \<or> ith_wait_result t = THREAD_SHOULD_TERMINATE
             then Some (Some (rcv_return MACH_RCV_INTERRUPTED None (ith_list t)), s)
             else if ith_wait_result t = THREAD_TIMED_OUT then Some (None, s)
             else None)
          }
        else if mr = MACH_RCV_HEADER_ERROR then return_kmsg
        else None)
     }"

text \<open>The loop; each element of \<open>wakes\<close> is what happens to the state while the thread sleeps once.\<close>

fun rcv_loop ::
    "mqueue_ref \<Rightarrow> ptr \<Rightarrow> u32 \<Rightarrow> u32 \<Rightarrow> (ipc_state \<Rightarrow> ipc_state) list \<Rightarrow> u32 \<Rightarrow> ipc_kmsg option \<Rightarrow> ipc_state \<Rightarrow>
     (rcv_step \<times> ipc_state) option" where
  "rcv_loop mqueue self opt max_size wakes timeout lst s =
     do {
       mq \<leftarrow> get_mqueue mqueue s;
       (case imq_messages mq of
          kmsg # _ \<Rightarrow> rcv_first mqueue opt max_size lst kmsg s
        | [] \<Rightarrow>
            if opt AND MACH_RCV_TIMEOUT \<noteq> 0 \<and> timeout = 0 then Some (rcv_return MACH_RCV_TIMED_OUT None lst, s)
            else
              case wakes of
                [] \<Rightarrow> None
              | wake # wakes \<Rightarrow>
                  do {
                    s \<leftarrow> put_mqueue mqueue (mq\<lparr>imq_threads := imq_threads mq @ [self]\<rparr>) s;
                    s \<leftarrow> mod_thread self (\<lambda>t. t\<lparr>ith_state := MACH_RCV_IN_PROGRESS, ith_data := ITH_MSIZE max_size,
                                                ith_rcv_option := opt, ith_list := lst\<rparr>) s;
                    (r, s) \<leftarrow> rcv_woken mqueue self (wake s);
                    (case r of
                       Some step \<Rightarrow> Some (step, s)
                     | None \<Rightarrow>
                         ks_threads s self \<bind> (\<lambda>t. rcv_loop mqueue self opt max_size wakes 0 (ith_list t) s))
                  })
     }"

declare rcv_loop.simps [simp del]

text \<open>After a message has been got: its msg-accepted request is answered and a blocked sender is woken.\<close>

definition rcv_finish :: "ipc_kmsg \<Rightarrow> ipc_state \<Rightarrow> (ipc_kmsg \<times> ipc_state) option" where
  "rcv_finish kmsg s =
     do {
       s \<leftarrow> (if ikm_marequest kmsg \<noteq> 0 then ipc_marequest_destroy (ikm_marequest kmsg) s else Some s);
       let kmsg = kmsg\<lparr>ikm_marequest := 0\<rparr>;
       let port = msgh_remote_port kmsg;
       p \<leftarrow> ks_ports s port;
       (if \<not> ip_active p then Some (kmsg, s)
        else
          let p = p\<lparr>ip_msgcount := ip_msgcount p - 1\<rparr>
          in case ip_blocked p of
               sender # blocked \<Rightarrow>
                 if ip_msgcount p < ip_qlimit p then
                   do {
                     s \<leftarrow> wake_senders [sender] (put_port port (p\<lparr>ip_blocked := blocked\<rparr>) s);
                     Some (kmsg, s)
                   }
                 else Some (kmsg, put_port port p s)
             | [] \<Rightarrow> Some (kmsg, put_port port p s))
     }"

text \<open>\<open>resume\<close>: the thread has been asleep already.\<close>

definition ipc_mqueue_receive ::
    "mqueue_ref \<Rightarrow> ptr \<Rightarrow> u32 \<Rightarrow> u32 \<Rightarrow> u32 \<Rightarrow> bool \<Rightarrow> (ipc_state \<Rightarrow> ipc_state) list \<Rightarrow> ipc_kmsg option \<Rightarrow>
     ipc_state \<Rightarrow> (rcv_result \<times> ipc_state) option" where
  "ipc_mqueue_receive mqueue self opt max_size timeout resume wakes lst s =
     do {
       (step, s) \<leftarrow>
         (if resume then
            do {
              (r, s) \<leftarrow> rcv_woken mqueue self s;
              (case r of
                 Some step \<Rightarrow> Some (step, s)
               | None \<Rightarrow>
                   ks_threads s self \<bind> (\<lambda>t. rcv_loop mqueue self opt max_size wakes 0 (ith_list t) s))
            }
          else rcv_loop mqueue self opt max_size wakes timeout lst s);
       (case step of
          RcvReturn r \<Rightarrow> Some (r, s)
        | RcvGot mr kmsg seqno lst \<Rightarrow>
            do {
              (kmsg, s) \<leftarrow> rcv_finish kmsg s;
              Some (\<lparr>rcv_mr = mr, rcv_kmsgp = Some (ITH_KMSG kmsg), rcv_seqno = seqno, rcv_list = lst\<rparr>, s)
            })
     }"

section \<open>Senders and receivers agree\<close>

text \<open>
  What a search for a receiver may leave in a thread that it wakes: the code tells the
  thread whether \<open>ith_data\<close> is a message.
\<close>

definition woken_ok :: "ipc_thread \<Rightarrow> bool" where
  "woken_ok t \<longleftrightarrow>
     (ith_state t = MACH_MSG_SUCCESS \<or> ith_state t = MACH_RCV_HEADER_ERROR) \<and> (\<exists>k. ith_data t = ITH_KMSG k) \<or>
     ith_state t = MACH_RCV_INVALID_TYPE \<and> (\<exists>sz. ith_data t = ITH_MSIZE sz) \<or>
     (ith_state t = MACH_RCV_TOO_LARGE \<or> ith_state t = MACH_RCV_SCATTER_SMALL) \<and>
       ((\<exists>k. ith_data t = ITH_KMSG k) \<longleftrightarrow> ith_rcv_option t AND (MACH_RCV_LARGE OR MACH_RCV_OLD_FORMAT) = 0)"

lemmas rcv_code_defs = MACH_RCV_TOO_LARGE_def MACH_RCV_INVALID_TYPE_def MACH_RCV_SCATTER_SMALL_def
  MACH_RCV_HEADER_ERROR_def MACH_MSG_SUCCESS_def MACH_RCV_PORT_DIED_def MACH_RCV_PORT_CHANGED_def
  MACH_RCV_IN_PROGRESS_def

lemma woken_returns:
  assumes "ks_threads s th = Some t" "woken_ok t"
  shows "\<exists>step. rcv_woken q th s = Some (Some step, s) \<and>
    (case ith_data t of
       ITH_KMSG k \<Rightarrow> step = RcvGot (ith_state t) k (ith_seqno t) (ith_list t)
     | ITH_MSIZE sz \<Rightarrow> \<exists>r. step = RcvReturn r \<and> rcv_mr r = ith_state t \<and> (\<forall>k. rcv_kmsgp r \<noteq> Some (ITH_KMSG k)))"
  using assms
  by (cases "ith_data t") (auto simp: rcv_woken_def woken_ok_def Let_def rcv_code_defs)

lemma or_zero_iff: "a AND (b OR c) = 0 \<longleftrightarrow> a AND b = 0 \<and> a AND c = (0 :: u32)"
proof -
  have "a AND (b OR c) = (a AND b) OR (a AND c)" by (simp add: bit.conj_disj_distrib)
  then show ?thesis by (simp add: or_eq_0_iff)
qed

text \<open>A search that leaves every thread it wakes in such a state.\<close>

definition woken_search :: "ptr list \<Rightarrow> ipc_state \<Rightarrow> (bool \<times> ptr list \<times> ipc_state) option \<Rightarrow> bool" where
  "woken_search ths s r \<longleftrightarrow>
     (\<exists>handed ths' s'. r = Some (handed, ths', s') \<and> set ths' \<subseteq> set ths \<and>
        (\<forall>x. x \<notin> set ths \<longrightarrow> ks_threads s' x = ks_threads s x) \<and>
        (\<forall>x\<in>set ths - set ths'. \<exists>t. ks_threads s' x = Some t \<and> woken_ok t))"

lemma woken_hand:
  assumes "ks_ports s port = Some p" "ks_threads s th = Some t" "th \<notin> set ths"
    "woken_ok (t\<lparr>ith_state := mr, ith_data := ITH_KMSG k, ith_seqno := ip_seqno p\<rparr>)"
  shows "woken_search (th # ths) s (map_option (\<lambda>s. (True, ths, s)) (hand_over go th mr k port s))"
  using assms by (auto simp: woken_search_def hand_over_def mod_thread_def mod_port_def)

lemma woken_away:
  assumes "ks_threads s th = Some t" "th \<notin> set ths" "woken_ok (t\<lparr>ith_state := mr, ith_data := ITH_MSIZE sz\<rparr>)"
    "\<And>s1. ks_ports s1 = ks_ports s \<Longrightarrow> ks_zalloc s1 = ks_zalloc s \<Longrightarrow> (\<And>x. x \<noteq> th \<Longrightarrow> ks_threads s1 x = ks_threads s x) \<Longrightarrow>
       woken_search ths s1 (f s1)"
  shows "woken_search (th # ths) s (turn_away th mr sz s \<bind> f)"
proof -
  define s1 where "s1 = effect (ThreadGo th) (put_thread th (t\<lparr>ith_state := mr, ith_data := ITH_MSIZE sz\<rparr>) s)"
  have run: "turn_away th mr sz s = Some s1" using assms(1) by (simp add: turn_away_def mod_thread_def s1_def)
  have "woken_search ths s1 (f s1)"
    by (rule assms(4)) (simp_all add: s1_def effect_def put_thread_def)
  moreover have "ks_threads s1 th = Some (t\<lparr>ith_state := mr, ith_data := ITH_MSIZE sz\<rparr>)"
      "\<And>x. x \<noteq> th \<Longrightarrow> ks_threads s1 x = ks_threads s x"
    by (simp_all add: s1_def)
  ultimately show ?thesis using assms(2,3) by (fastforce simp: woken_search_def run)
qed

text \<open>Enough allocations succeed.\<close>

definition allocs_ok :: "nat \<Rightarrow> ipc_state \<Rightarrow> bool" where
  "allocs_ok n s \<longleftrightarrow> n \<le> length (ks_zalloc s) \<and> 0 \<notin> set (ks_zalloc s)"

lemma check_scatter_loop_codes:
  "check_scatter_loop large count gs ss err = CheckReturn mr \<Longrightarrow> mr = MACH_RCV_SCATTER_SMALL \<or> mr = MACH_RCV_INVALID_TYPE"
  by (induction large count gs ss err rule: check_scatter_loop.induct)
    (auto split: if_splits list.splits mach_msg_descriptor.splits)

lemma check_scatter_codes:
  assumes "ipc_kmsg_check_scatter kmsg opt l s = Some (mr, l', s')" "allocs_ok (Suc n) s"
  shows "mr \<in> {MACH_MSG_SUCCESS, MACH_RCV_SCATTER_SMALL, MACH_RCV_INVALID_TYPE} \<and> allocs_ok n s'"
  using assms check_scatter_loop_codes
  by (cases "ks_zalloc s")
    (fastforce simp: ipc_kmsg_check_scatter_def allocs_ok_def zalloc_def Let_def
      split: bind_splits check_result.splits bool.splits)+

lemma send_old_woken:
  assumes "ks_ports s port = Some p" "distinct ths" "\<forall>th\<in>set ths. rcv_waiting s th"
  shows "woken_search ths s (send_old opt kmsg port ths s)"
  using assms
proof (induction ths arbitrary: s)
  case Nil
  then show ?case by (auto simp: woken_search_def intro: exI [of _ False])
next
  case (Cons th ths)
  obtain t msize where t: "ks_threads s th = Some t" "ith_data t = ITH_MSIZE msize"
    using Cons.prems(3) by (auto elim: rcv_waitingE)
  have hand: "woken_search (th # ths) s (hand_over go th mr kmsg port s \<bind> (\<lambda>s. Some (True, ths, s)))"
    if "mr = MACH_MSG_SUCCESS \<or> mr = MACH_RCV_HEADER_ERROR" for mr go
    using woken_hand [OF Cons.prems(1) t(1), where ths = ths and mr = mr and k = kmsg and go = go] that Cons.prems(2)
    by (cases "hand_over go th mr kmsg port s") (auto simp: woken_ok_def)
  have away: "woken_search (th # ths) s (turn_away th MACH_RCV_TOO_LARGE sz s \<bind> send_old opt kmsg port ths)"
    if "ith_rcv_option t AND MACH_RCV_OLD_FORMAT \<noteq> 0" for sz
  proof (rule woken_away [OF t(1)])
    show "woken_ok (t\<lparr>ith_state := MACH_RCV_TOO_LARGE, ith_data := ITH_MSIZE sz\<rparr>)"
      using that by (simp add: woken_ok_def or_zero_iff)
    fix s1 :: ipc_state
    assume s1: "ks_ports s1 = ks_ports s" "\<And>x. x \<noteq> th \<Longrightarrow> ks_threads s1 x = ks_threads s x"
    show "woken_search ths s1 (send_old opt kmsg port ths s1)"
      using Cons.prems(1,2) s1(1) by (intro Cons.IH rcv_waiting_others [OF Cons.prems(2,3) s1(2)]) simp_all
  qed (use Cons.prems(2) in simp)
  show ?case using hand away by (simp add: t Let_def)
qed

lemma move_new_woken:
  assumes "ks_ports s port = Some p" "distinct ths" "\<forall>th\<in>set ths. rcv_waiting s th" "allocs_ok (length ths) s"
    "msgh_bits kmsg AND MACH_MSGH_BITS_COMPLEX \<noteq> 0 \<longrightarrow> kmsg_descriptors kmsg \<noteq> None"
  shows "woken_search ths s (move_new kmsg port ths s)"
  using assms(1-4)
proof (induction ths arbitrary: s)
  case Nil
  then show ?case by (auto simp: woken_search_def intro: exI [of _ False])
next
  case (Cons th ths)
  obtain t msize where t: "ks_threads s th = Some t" "ith_data t = ITH_MSIZE msize"
      "GET_RCV_ELEMENTS (ith_rcv_option t) < length trailer_size"
      "\<And>l. ith_list t = Some l \<Longrightarrow> kmsg_descriptors l \<noteq> None"
    using Cons.prems(3) rcv_waitingE [of s th] by auto
  let ?old = "ith_rcv_option t AND MACH_RCV_OLD_FORMAT \<noteq> 0" and ?large = "ith_rcv_option t AND MACH_RCV_LARGE \<noteq> 0"
  have hand: "woken_search (th # ths) s1 (map_option (\<lambda>s. (True, ths, s)) (hand_over (ThreadGo th) th mr kmsg port s1))"
    if s1: "ks_ports s1 = ks_ports s" "map_option ith_rcv_option (ks_threads s1 th) = Some (ith_rcv_option t)"
      "mr = MACH_MSG_SUCCESS \<or> mr = MACH_RCV_HEADER_ERROR \<or>
       (mr = MACH_RCV_TOO_LARGE \<or> mr = MACH_RCV_SCATTER_SMALL) \<and> \<not> ?large \<and> \<not> ?old" for mr s1
  proof -
    obtain t1 where "ks_threads s1 th = Some t1" "ith_rcv_option t1 = ith_rcv_option t" using s1(2) by auto
    then show ?thesis
      using s1(1,3) Cons.prems(1,2) by (intro woken_hand [of s1 port p th t1]) (auto simp: woken_ok_def or_zero_iff)
  qed
  have away: "woken_search (th # ths) s1 (turn_away th mr sz s1 \<bind> move_new kmsg port ths)"
    if s1: "ks_ports s1 = ks_ports s" "map_option ith_rcv_option (ks_threads s1 th) = Some (ith_rcv_option t)"
        "allocs_ok (length ths) s1" "\<And>x. x \<noteq> th \<Longrightarrow> ks_threads s1 x = ks_threads s x"
      and mr: "mr = MACH_RCV_INVALID_TYPE \<or> (mr = MACH_RCV_TOO_LARGE \<or> mr = MACH_RCV_SCATTER_SMALL) \<and> ?large"
    for mr sz s1
  proof -
    obtain t1 where t1: "ks_threads s1 th = Some t1" "ith_rcv_option t1 = ith_rcv_option t" using s1(2) by auto
    have waiting: "\<forall>x\<in>set ths. rcv_waiting s2 x" if "\<And>x. x \<noteq> th \<Longrightarrow> ks_threads s2 x = ks_threads s1 x" for s2
      using s1(4) that by (intro rcv_waiting_others [OF Cons.prems(2,3)]) simp
    show ?thesis
      using mr Cons.prems(1,2) s1(1,3)
      by (intro woken_away [OF t1(1)] Cons.IH waiting) (auto simp: woken_ok_def or_zero_iff t1(2) allocs_ok_def)
  qed
  have scatter: "woken_search (th # ths) s (ipc_kmsg_check_scatter kmsg opt l s \<bind> (\<lambda>(mr, l, s).
      mod_thread th (\<lambda>t. t\<lparr>ith_list := Some l\<rparr>) s \<bind> (\<lambda>s. f mr s)))"
    if d: "kmsg_descriptors kmsg \<noteq> None" "kmsg_descriptors l \<noteq> None"
      "\<And>mr s1. ks_ports s1 = ks_ports s \<Longrightarrow> map_option ith_rcv_option (ks_threads s1 th) = Some (ith_rcv_option t) \<Longrightarrow>
         allocs_ok (length ths) s1 \<Longrightarrow> (\<And>x. x \<noteq> th \<Longrightarrow> ks_threads s1 x = ks_threads s x) \<Longrightarrow>
         mr \<in> {MACH_MSG_SUCCESS, MACH_RCV_SCATTER_SMALL, MACH_RCV_INVALID_TYPE} \<Longrightarrow> woken_search (th # ths) s1 (f mr s1)" for opt l f
  proof -
    obtain mr l' s1 where s1: "ipc_kmsg_check_scatter kmsg opt l s = Some (mr, l', s1)"
        "ks_ports s1 = ks_ports s" "ks_threads s1 = ks_threads s"
      using check_scatter_total [OF d(1,2)] by blast
    note codes = check_scatter_codes [OF s1(1), of "length ths"]
    define s2 where "s2 = put_thread th (t\<lparr>ith_list := Some l'\<rparr>) s1"
    have "woken_search (th # ths) s2 (f mr s2)"
      using codes Cons.prems(4) s1(2,3) by (intro d(3)) (simp_all add: s2_def allocs_ok_def put_thread_def)
    moreover have "\<And>x. x \<noteq> th \<Longrightarrow> ks_threads s2 x = ks_threads s x" by (simp add: s2_def s1(3))
    ultimately have "woken_search (th # ths) s (f mr s2)" by (auto simp: woken_search_def)
    then show ?thesis by (simp add: s1 mod_thread_def t s2_def)
  qed
  have allocs: "allocs_ok (length ths) s" using Cons.prems(4) by (simp add: allocs_ok_def)
  obtain too_large where large: "receive_too_large t kmsg = Some too_large"
    by (simp add: receive_too_large_def REQUESTED_TRAILER_SIZE_def t(2,3))
  have opt: "map_option ith_rcv_option (ks_threads s th) = Some (ith_rcv_option t)" by (simp add: t(1))
  have small: "MACH_RCV_SCATTER_SMALL AND MACH_MSG_VM_KERNEL = 0"
    by (simp add: MACH_RCV_SCATTER_SMALL_def MACH_MSG_VM_KERNEL_def)
  have msize: "ith_msize t = Some msize" by (simp add: t(2))
  have d: "kmsg_descriptors kmsg \<noteq> None" if "\<not> \<not> msgh_bits kmsg AND MACH_MSGH_BITS_COMPLEX \<noteq> 0"
    using assms(5) that by blast
  have splitI: "(b \<Longrightarrow> woken_search xs s1 x) \<Longrightarrow> (\<not> b \<Longrightarrow> woken_search xs s1 y) \<Longrightarrow> woken_search xs s1 (if b then x else y)"
      "(opt = None \<Longrightarrow> woken_search xs s1 x) \<Longrightarrow> (\<And>v. opt = Some v \<Longrightarrow> woken_search xs s1 (f v)) \<Longrightarrow>
       woken_search xs s1 (case opt of None \<Rightarrow> x | Some v \<Rightarrow> f v)" for b xs s1 x y f and opt :: "ipc_kmsg option"
    by (simp_all split: option.split)
  show ?case
    unfolding move_new.simps t(1) msize large Let_def bind.bind_lunit
    using small by (intro splitI hand away scatter d t(4) refl opt allocs) auto
qed




definition scatter_kmsg :: ipc_kmsg where
  "scatter_kmsg = (sample_kmsg 1)\<lparr>msgh_bits := MACH_MSGH_BITS_COMPLEX, ikm_body := Descriptors [MACH_MSG_OOL_DESCRIPTOR 0x50 8 0]\<rparr>"

definition scatter_thread :: ipc_thread where
  "scatter_thread =
     sample_thread\<lparr>ith_rcv_option := MACH_RCV_LARGE,
       ith_list := Some (scatter_kmsg\<lparr>ikm_body := Descriptors [MACH_MSG_OOL_DESCRIPTOR 0x60 4 MACH_MSG_OVERWRITE]\<rparr>)\<rparr>"


section \<open>Sending and receiving in sequence\<close>

text \<open>Sending a list of messages, and receiving a number of messages with their sequence numbers.\<close>

primrec send_all :: "ptr \<Rightarrow> u32 \<Rightarrow> ipc_kmsg list \<Rightarrow> ipc_state \<Rightarrow> ipc_state option" where
  "send_all self opt [] s = Some s"
| "send_all self opt (k # ks) s =
     do {
       (mr, s) \<leftarrow> ipc_mqueue_send 1 (\<lambda>k s. (None, s)) self k opt 0 [] s;
       (if mr = MACH_MSG_SUCCESS then send_all self opt ks s else None)
     }"

primrec receive_n ::
    "nat \<Rightarrow> mqueue_ref \<Rightarrow> ptr \<Rightarrow> u32 \<Rightarrow> u32 \<Rightarrow> ipc_state \<Rightarrow> ((ipc_kmsg \<times> u32) list \<times> ipc_state) option" where
  "receive_n 0 q self opt max_size s = Some ([], s)"
| "receive_n (Suc n) q self opt max_size s =
     do {
       (r, s) \<leftarrow> ipc_mqueue_receive q self opt max_size 0 False [] None s;
       (case rcv_kmsgp r of
          Some (ITH_KMSG k) \<Rightarrow>
            if rcv_mr r = MACH_MSG_SUCCESS then
              do {
                (ks, s) \<leftarrow> receive_n n q self opt max_size s;
                Some ((k, rcv_seqno r) # ks, s)
              }
            else None
        | _ \<Rightarrow> None)
     }"

text \<open>A message of the new format for the port that fits into the buffer of the receiver.\<close>

definition plain_kmsg :: "ptr \<Rightarrow> u32 \<Rightarrow> u32 \<Rightarrow> ipc_kmsg \<Rightarrow> bool" where
  "plain_kmsg port opt max_size k \<longleftrightarrow>
     msgh_remote_port k = port \<and> ikm_marequest k = 0 \<and> msgh_bits k AND MACH_MSGH_BITS_OLD_FORMAT = 0 \<and>
     msgh_bits k AND MACH_MSGH_BITS_CIRCULAR = 0 \<and>
     (\<exists>trailer. REQUESTED_TRAILER_SIZE opt = Some trailer \<and> msgh_size k \<le> max_size - trailer)"

text \<open>A live port that is in no set, with a queue in which no thread waits and no sender.\<close>

definition quiet_port :: "ipc_state \<Rightarrow> ipc_port \<Rightarrow> bool" where
  "quiet_port s p \<longleftrightarrow>
     ip_active p \<and> ip_data p \<noteq> ks_kernel_space s \<and> ip_pset p = 0 \<and> imq_threads (ip_messages p) = [] \<and> ip_blocked p = []"

definition queue_port :: "ipc_port \<Rightarrow> nat \<Rightarrow> u32 \<Rightarrow> ipc_kmsg list \<Rightarrow> ipc_port" where
  "queue_port p count seqno ks =
     p\<lparr>ip_seqno := seqno, ip_msgcount := count, ip_messages := \<lparr>imq_messages = ks, imq_threads = []\<rparr>\<rparr>"

lemma queue_port_sel [simp]:
  "quiet_port s (queue_port p n q ks) \<longleftrightarrow> ip_active p \<and> ip_data p \<noteq> ks_kernel_space s \<and> ip_pset p = 0 \<and> ip_blocked p = []"
  "ip_msgcount (queue_port p n q ks) = n" "ip_seqno (queue_port p n q ks) = q" "ip_qlimit (queue_port p n q ks) = ip_qlimit p"
  "queue_port (queue_port p n q ks) n' q' ks' = queue_port p n' q' ks'"
  "imq_messages (ip_messages (queue_port p n q ks)) = ks"
  by (simp_all add: quiet_port_def queue_port_def)

lemma send_quiet:
  assumes "ks_ports s port = Some p" "quiet_port s p" "plain_kmsg port opt' max_size k" "ip_msgcount p < ip_qlimit p"
  shows "ipc_mqueue_send 1 server self k opt timeout wakes s =
    Some (MACH_MSG_SUCCESS, put_port port (queue_port p (ip_msgcount p + 1) (ip_seqno p) (imq_messages (ip_messages p) @ [k])) s)"
proof -
  have "queue_port p (ip_msgcount p + 1) (ip_seqno p) ks = p\<lparr>ip_msgcount := ip_msgcount p + 1, ip_messages := \<lparr>imq_messages = ks, imq_threads = []\<rparr>\<rparr>" for ks
    by (simp add: queue_port_def)
  then show ?thesis
    using assms
    by (simp add: plain_kmsg_def quiet_port_def send_wait_loop.simps [of self port] send_may_block_def
        send_deliver_def mod_port_def port_mqueue_def Let_def)
qed

lemma receive_quiet:
  assumes "ks_ports s port = Some p" "quiet_port s p" "plain_kmsg port opt max_size k" "imq_messages (ip_messages p) = k # ks"
    "opt AND MACH_RCV_OLD_FORMAT = 0"
  shows "ipc_mqueue_receive (PortQueue port) self opt max_size timeout False wakes None s =
    Some (\<lparr>rcv_mr = MACH_MSG_SUCCESS, rcv_kmsgp = Some (ITH_KMSG k), rcv_seqno = ip_seqno p, rcv_list = None\<rparr>,
      put_port port (queue_port p (ip_msgcount p - 1) (ip_seqno p + 1) ks) s)"
proof -
  obtain trailer where trailer: "REQUESTED_TRAILER_SIZE opt = Some trailer" "\<not> max_size - trailer < msgh_size k"
    using assms(3) by (auto simp: plain_kmsg_def not_less)
  have "queue_port p n q ks = p\<lparr>ip_messages := (ip_messages p)\<lparr>imq_messages := ks\<rparr>, ip_seqno := q, ip_msgcount := n\<rparr>" for n q
    using assms(2) by (cases p; cases "ip_messages p") (simp add: queue_port_def quiet_port_def)
  then show ?thesis
    using assms trailer
    by (simp add: plain_kmsg_def quiet_port_def ipc_mqueue_receive_def rcv_loop.simps [of "PortQueue port"]
        rcv_first_def rcv_take_def mod_port_def rcv_finish_def Let_def)
qed

lemma queue_port_same:
  assumes "ks_ports s port = Some p" "quiet_port s p"
  shows "put_port port (queue_port p (ip_msgcount p) (ip_seqno p) (imq_messages (ip_messages p))) s = s"
proof -
  have "queue_port p (ip_msgcount p) (ip_seqno p) (imq_messages (ip_messages p)) = p"
    using assms(2) by (cases p; cases "ip_messages p") (simp add: queue_port_def quiet_port_def)
  then show ?thesis using assms(1) by (simp add: put_port_def fun_upd_idem)
qed

lemma send_all_quiet:
  assumes "ks_ports s port = Some p" "quiet_port s p" "\<forall>k\<in>set ks. plain_kmsg port opt' max_size k"
    "ip_msgcount p + length ks \<le> ip_qlimit p"
  shows "send_all self opt ks s =
    Some (put_port port (queue_port p (ip_msgcount p + length ks) (ip_seqno p) (imq_messages (ip_messages p) @ ks)) s)"
  using assms
proof (induction ks arbitrary: s p)
  case Nil
  then show ?case by (simp add: queue_port_same)
next
  case (Cons k ks)
  define p1 where "p1 = queue_port p (ip_msgcount p + 1) (ip_seqno p) (imq_messages (ip_messages p) @ [k])"
  have "ipc_mqueue_send 1 (\<lambda>k s. (None, s)) self k opt 0 [] s = Some (MACH_MSG_SUCCESS, put_port port p1 s)"
    unfolding p1_def using Cons.prems by (intro send_quiet [of _ _ _ opt' max_size]) simp_all
  moreover have "send_all self opt ks (put_port port p1 s) =
      Some (put_port port (queue_port p1 (ip_msgcount p1 + length ks) (ip_seqno p1) (imq_messages (ip_messages p1) @ ks)) (put_port port p1 s))"
    using Cons.prems by (intro Cons.IH) (simp_all add: p1_def quiet_port_def put_port_def queue_port_def)
  ultimately show ?case by (simp add: p1_def)
qed

lemma receive_n_quiet:
  assumes "ks_ports s port = Some p" "quiet_port s p" "\<forall>k\<in>set ks. plain_kmsg port opt max_size k"
    "imq_messages (ip_messages p) = ks @ rest" "opt AND MACH_RCV_OLD_FORMAT = 0"
  shows "receive_n (length ks) (PortQueue port) self opt max_size s =
    Some (zip ks (map (\<lambda>i. ip_seqno p + of_nat i) [0..<length ks]),
      put_port port (queue_port p (ip_msgcount p - length ks) (ip_seqno p + of_nat (length ks)) rest) s)"
  using assms
proof (induction ks arbitrary: s p)
  case Nil
  then show ?case using queue_port_same [OF Nil.prems(1,2)] by simp
next
  case (Cons k ks)
  define p1 where "p1 = queue_port p (ip_msgcount p - 1) (ip_seqno p + 1) (ks @ rest)"
  have "ipc_mqueue_receive (PortQueue port) self opt max_size 0 False [] None s =
      Some (\<lparr>rcv_mr = MACH_MSG_SUCCESS, rcv_kmsgp = Some (ITH_KMSG k), rcv_seqno = ip_seqno p, rcv_list = None\<rparr>, put_port port p1 s)"
    unfolding p1_def using Cons.prems by (intro receive_quiet) simp_all
  moreover have "receive_n (length ks) (PortQueue port) self opt max_size (put_port port p1 s) =
      Some (zip ks (map (\<lambda>i. ip_seqno p1 + of_nat i) [0..<length ks]),
        put_port port (queue_port p1 (ip_msgcount p1 - length ks) (ip_seqno p1 + of_nat (length ks)) rest) (put_port port p1 s))"
    using Cons.prems by (intro Cons.IH) (simp_all add: p1_def quiet_port_def put_port_def queue_port_def)
  moreover have "map (\<lambda>i. ip_seqno p + of_nat i) [0..<Suc (length ks)] =
      ip_seqno p # map (\<lambda>i. ip_seqno p + 1 + of_nat i) [0..<length ks]"
    by (simp add: upt_conv_Cons map_Suc_upt [symmetric] comp_def algebra_simps del: upt_Suc)
  ultimately show ?case by (simp add: p1_def algebra_simps del: upt_Suc)
qed



end
