(* ===== verification/Ipc_Destroy.thy ===== *)
theory Ipc_Destroy
  imports Ipc_Marequest
begin

text \<open>
  Dead ports: the routines of \<^verbatim>\<open>src/ipc/ipc_right.c\<close> that find out that a port has died and
  that destroy an entry, and the routines of \<^verbatim>\<open>src/ipc/ipc_port.c\<close> that destroy a port.  These
  call each other.  Those that destroy a port get the routine for that as their argument
  \<open>destroy\<close>, and \<open>ipc_port_destroy\<close> ties the knot with a bound on the depth of the recursion.
\<close>

section \<open>Looking up rights\<close>

definition ipc_right_lookup_write ::
    "ptr \<Rightarrow> mach_port_t \<Rightarrow> ipc_state \<Rightarrow> ((kern_return + ipc_entry_ptr) \<times> ipc_state) option" where
  "ipc_right_lookup_write space name s =
     do {
       is \<leftarrow> ks_spaces s space;
       (if \<not> is_active is then Some (Inl KERN_INVALID_TASK, s)
        else
          do {
            (e, s) \<leftarrow> entry_lookup space name s;
            Some (case e of None \<Rightarrow> Inl KERN_INVALID_NAME | Some e \<Rightarrow> Inr e, s)
          })
     }"

definition ipc_right_dncancel ::
    "ptr \<Rightarrow> ptr \<Rightarrow> mach_port_t \<Rightarrow> ipc_entry_ptr \<Rightarrow> ipc_state \<Rightarrow> (ptr \<times> ipc_state) option" where
  "ipc_right_dncancel space port name e s =
     do {
       p \<leftarrow> ks_ports s port;
       entry \<leftarrow> get_entry space e s;
       (dnrequest, p) \<leftarrow> ipc_port_dncancel p name (ie_request entry);
       s \<leftarrow> set_entry space e (\<lambda>en. en\<lparr>ie_request := 0\<rparr>) (put_port port p s);
       (if ie_bits entry AND IE_BITS_COMPAT \<noteq> 0
        then map_option (Pair 0) (space_release space s)
        else Some (dnrequest, s))
     }"

definition ipc_right_dncancel_macro ::
    "ptr \<Rightarrow> ptr \<Rightarrow> mach_port_t \<Rightarrow> ipc_entry_ptr \<Rightarrow> ipc_state \<Rightarrow> (ptr \<times> ipc_state) option" where
  "ipc_right_dncancel_macro space port name e s =
     do {
       entry \<leftarrow> get_entry space e s;
       (if ie_request entry = 0 then Some (0, s) else ipc_right_dncancel space port name e s)
     }"

text \<open>Is the entry in use?\<close>

definition ipc_right_inuse :: "ptr \<Rightarrow> mach_port_t \<Rightarrow> ipc_entry_ptr \<Rightarrow> ipc_state \<Rightarrow> (bool \<times> ipc_state) option" where
  "ipc_right_inuse space name e s =
     do {
       entry \<leftarrow> get_entry space e s;
       let bits = ie_bits entry;
       let type = IE_BITS_TYPE bits;
       (if type = MACH_PORT_TYPE_NONE then Some (False, s)
        else if bits AND IE_BITS_COMPAT \<noteq> 0 \<and> (type = MACH_PORT_TYPE_SEND \<or> type = MACH_PORT_TYPE_SEND_ONCE) then
          do {
            let port = ie_object entry;
            p \<leftarrow> ks_ports s port;
            (if ip_active p then Some (True, s)
             else
               do {
                 s \<leftarrow>
                   (if type = MACH_PORT_TYPE_SEND then
                      do {
                        s \<leftarrow> (if bits AND IE_BITS_MAREQUEST \<noteq> 0 then ipc_marequest_cancel space name s else Some s);
                        hash_delete space port name e s
                      }
                    else Some s);
                 s \<leftarrow> ipc_port_release port s;
                 s \<leftarrow> set_entry space e
                   (\<lambda>en. en\<lparr>ie_request := 0, ie_object := 0, ie_bits := ie_bits en AND NOT IE_BITS_RIGHT_MASK\<rparr>) s;
                 Some (False, s)
               })
          }
        else Some (True, s))
     }"

text \<open>Has the port of an entry died?  If so the entry becomes a dead name.\<close>

definition ipc_right_check ::
    "ptr \<Rightarrow> ptr \<Rightarrow> mach_port_t \<Rightarrow> ipc_entry_ptr \<Rightarrow> ipc_state \<Rightarrow> (bool \<times> ipc_state) option" where
  "ipc_right_check space port name e s =
     do {
       p \<leftarrow> ks_ports s port;
       (if ip_active p then Some (False, s)
        else
          do {
            entry \<leftarrow> get_entry space e s;
            let bits = ie_bits entry;
            (bits, s) \<leftarrow>
              (if bits AND MACH_PORT_TYPE_SEND \<noteq> 0 then
                 do {
                   (bits, s) \<leftarrow>
                     (if bits AND IE_BITS_MAREQUEST \<noteq> 0
                      then map_option (Pair (bits AND NOT IE_BITS_MAREQUEST)) (ipc_marequest_cancel space name s)
                      else Some (bits, s));
                   map_option (Pair bits) (hash_delete space port name e s)
                 }
               else Some (bits, s));
            s \<leftarrow> ipc_port_release port s;
            (if bits AND IE_BITS_COMPAT \<noteq> 0 then
               do {
                 s \<leftarrow> set_entry space e (\<lambda>en. en\<lparr>ie_request := 0, ie_object := 0\<rparr>) s;
                 map_option (Pair True) (entry_dealloc space name e s)
               }
             else
               do {
                 let bits = bits AND NOT IE_BITS_TYPE_MASK OR MACH_PORT_TYPE_DEAD_NAME;
                 let bits = (if ie_request entry \<noteq> 0 then bits + 1 else bits);
                 map_option (Pair True)
                   (set_entry space e (\<lambda>en. en\<lparr>ie_request := 0, ie_bits := bits, ie_object := 0\<rparr>) s)
               })
          })
     }"

section \<open>Destroying rights\<close>

text \<open>
  The end that \<open>ipc_right_clean\<close> and \<open>ipc_right_destroy\<close> have in common: giving up the right of
  the given type for an active port, and the notifications.
\<close>

definition right_give_up ::
    "(ptr \<Rightarrow> ipc_state \<Rightarrow> ipc_state option) \<Rightarrow> u32 \<Rightarrow> ptr \<Rightarrow> ipc_state \<Rightarrow> (ptr \<times> u32 \<times> ipc_state) option" where
  "right_give_up destroy type port s =
     do {
       p \<leftarrow> ks_ports s port;
       let (nsrequest, mscount, p) =
         (if type AND MACH_PORT_TYPE_SEND \<noteq> 0 then drop_sright p else (0, 0, p));
       let s = put_port port p s;
       s \<leftarrow>
         (if type AND MACH_PORT_TYPE_RECEIVE \<noteq> 0 then ipc_port_clear_receiver port s \<bind> destroy port
          else if type AND MACH_PORT_TYPE_SEND_ONCE \<noteq> 0 then ipc_notify_send_once port s
          else mod_port port ip_release s);
       Some (nsrequest, mscount, s)
     }"

definition ipc_right_clean ::
    "(ptr \<Rightarrow> ipc_state \<Rightarrow> ipc_state option) \<Rightarrow> ptr \<Rightarrow> mach_port_t \<Rightarrow> ipc_entry_ptr \<Rightarrow> ipc_state \<Rightarrow>
     ipc_state option" where
  "ipc_right_clean destroy space name e s =
     do {
       entry \<leftarrow> get_entry space e s;
       let type = IE_BITS_TYPE (ie_bits entry);
       (if type = MACH_PORT_TYPE_DEAD_NAME then Some s
        else if type = MACH_PORT_TYPE_PORT_SET then ipc_pset_destroy (ie_object entry) s
        else if type = MACH_PORT_TYPE_SEND \<or> type = MACH_PORT_TYPE_RECEIVE \<or>
                type = MACH_PORT_TYPE_SEND OR MACH_PORT_TYPE_RECEIVE \<or> type = MACH_PORT_TYPE_SEND_ONCE then
          do {
            let port = ie_object entry;
            p \<leftarrow> ks_ports s port;
            (if \<not> ip_active p then ip_check_unlock port (put_port port (ip_release p) s)
             else
               do {
                 (dnrequest, s) \<leftarrow> ipc_right_dncancel_macro space port name e s;
                 (nsrequest, mscount, s) \<leftarrow> right_give_up destroy type port s;
                 s \<leftarrow> notify_no_senders nsrequest mscount s;
                 (if dnrequest \<noteq> 0 then ipc_notify_port_deleted dnrequest name s else Some s)
               })
          }
        else None)
     }"

definition ipc_right_destroy ::
    "(ptr \<Rightarrow> ipc_state \<Rightarrow> ipc_state option) \<Rightarrow> ptr \<Rightarrow> mach_port_t \<Rightarrow> ipc_entry_ptr \<Rightarrow> ipc_state \<Rightarrow>
     (kern_return \<times> ipc_state) option" where
  "ipc_right_destroy destroy space name e s =
     do {
       entry \<leftarrow> get_entry space e s;
       let bits = ie_bits entry;
       let type = IE_BITS_TYPE bits;
       (if type = MACH_PORT_TYPE_DEAD_NAME then
          map_option (Pair KERN_SUCCESS) (entry_dealloc space name e s)
        else if type = MACH_PORT_TYPE_PORT_SET then
          do {
            s \<leftarrow> set_entry space e (\<lambda>en. en\<lparr>ie_object := 0\<rparr>) s;
            s \<leftarrow> entry_dealloc space name e s;
            map_option (Pair KERN_SUCCESS) (ipc_pset_destroy (ie_object entry) s)
          }
        else if type = MACH_PORT_TYPE_SEND \<or> type = MACH_PORT_TYPE_RECEIVE \<or>
                type = MACH_PORT_TYPE_SEND OR MACH_PORT_TYPE_RECEIVE \<or> type = MACH_PORT_TYPE_SEND_ONCE then
          do {
            let port = ie_object entry;
            s \<leftarrow> (if bits AND IE_BITS_MAREQUEST \<noteq> 0 then ipc_marequest_cancel space name s else Some s);
            s \<leftarrow> (if type = MACH_PORT_TYPE_SEND then hash_delete space port name e s else Some s);
            p \<leftarrow> ks_ports s port;
            (if \<not> ip_active p then
               do {
                 s \<leftarrow> ip_check_unlock port (put_port port (ip_release p) s);
                 s \<leftarrow> set_entry space e (\<lambda>en. en\<lparr>ie_request := 0, ie_object := 0\<rparr>) s;
                 s \<leftarrow> entry_dealloc space name e s;
                 Some (if bits AND IE_BITS_COMPAT \<noteq> 0 then KERN_INVALID_NAME else KERN_SUCCESS, s)
               }
             else
               do {
                 (dnrequest, s) \<leftarrow> ipc_right_dncancel_macro space port name e s;
                 s \<leftarrow> set_entry space e (\<lambda>en. en\<lparr>ie_object := 0\<rparr>) s;
                 s \<leftarrow> entry_dealloc space name e s;
                 (nsrequest, mscount, s) \<leftarrow> right_give_up destroy type port s;
                 s \<leftarrow> notify_no_senders nsrequest mscount s;
                 s \<leftarrow> (if dnrequest \<noteq> 0 then ipc_notify_port_deleted dnrequest name s else Some s);
                 Some (KERN_SUCCESS, s)
               })
          }
        else None)
     }"

section \<open>Destroying ports\<close>

definition ipc_port_delete_compat ::
    "(ptr \<Rightarrow> ipc_state \<Rightarrow> ipc_state option) \<Rightarrow> ptr \<Rightarrow> ptr \<Rightarrow> mach_port_t \<Rightarrow> ipc_state \<Rightarrow> ipc_state option" where
  "ipc_port_delete_compat destroy port space name s =
     do {
       (r, s) \<leftarrow> ipc_right_lookup_write space name s;
       s \<leftarrow>
         (case r of
            Inl _ \<Rightarrow> Some s
          | Inr e \<Rightarrow>
              do {
                entry \<leftarrow> get_entry space e s;
                (sright, s) \<leftarrow>
                  (if ie_object entry = port then
                     do {
                       (sright, s) \<leftarrow> ipc_space_make_notify space s;
                       (kr, s) \<leftarrow> ipc_right_destroy destroy space name e s;
                       Some (sright, s)
                     }
                   else Some (0, s));
                (if IO_VALID sright then ipc_notify_port_deleted_compat sright name s else Some s)
              });
       space_release space s
     }"

definition ipc_port_release_receive ::
    "(ptr \<Rightarrow> ipc_state \<Rightarrow> ipc_state option) \<Rightarrow> ptr \<Rightarrow> ipc_state \<Rightarrow> ipc_state option" where
  "ipc_port_release_receive destroy port s =
     do {
       p \<leftarrow> ks_ports s port;
       let dest = ip_data p;
       s \<leftarrow> destroy port s;
       (if dest \<noteq> 0 then ipc_port_release dest s else Some s)
     }"

text \<open>Destroying the queued messages of a dead port.\<close>

fun destroy_messages :: "ptr \<Rightarrow> ipc_kmsg list \<Rightarrow> ipc_state \<Rightarrow> ipc_state option" where
  "destroy_messages port [] s = Some s"
| "destroy_messages port (kmsg # kmsgs) s =
     do {
       s \<leftarrow> mod_port port (\<lambda>p. p\<lparr>ip_messages := (ip_messages p)\<lparr>imq_messages := kmsgs\<rparr>\<rparr>) s;
       s \<leftarrow> ipc_port_release port s;
       destroy_messages port kmsgs (effect (KmsgDestroy (kmsg\<lparr>msgh_remote_port := 0\<rparr>)) s)
     }"

text \<open>Generating the dead-name notifications of a dead port.\<close>

fun destroy_requests ::
    "(ptr \<Rightarrow> ipc_state \<Rightarrow> ipc_state option) \<Rightarrow> ptr \<Rightarrow> ipc_port_request list \<Rightarrow> ipc_state \<Rightarrow> ipc_state option" where
  "destroy_requests destroy port [] s = Some s"
| "destroy_requests destroy port (ipr # iprs) s =
     do {
       s \<leftarrow>
         (if ipr_name ipr = MACH_PORT_NULL then Some s
          else if ipr_spacep (ipr_notify ipr)
          then ipc_port_delete_compat destroy port (ipr_space (ipr_notify ipr)) (ipr_name ipr) s
          else ipc_notify_dead_name (ipr_notify ipr) (ipr_name ipr) s);
       destroy_requests destroy port iprs s
     }"

text \<open>The part of \<open>ipc_port_destroy\<close> after the check for a backup port.\<close>

definition destroy_dead :: "(ptr \<Rightarrow> ipc_state \<Rightarrow> ipc_state option) \<Rightarrow> ptr \<Rightarrow> ipc_state \<Rightarrow> ipc_state option" where
  "destroy_dead destroy port s =
     do {
       p \<leftarrow> ks_ports s port;
       s \<leftarrow> wake_senders (ip_blocked p) s;
       let (timestamp, s) = ipc_port_timestamp s;
       s \<leftarrow> mod_port port
         (\<lambda>p. p\<lparr>ip_blocked := [], ip_bits := ip_bits p AND NOT IO_BITS_ACTIVE, ip_data := timestamp\<rparr>) s;
       s \<leftarrow> (if ip_nsrequest p \<noteq> 0 then ipc_notify_send_once (ip_nsrequest p) s else Some s);
       s \<leftarrow> destroy_messages port (imq_messages (ip_messages p)) s;
       s \<leftarrow>
         (case ip_dnrequests p of
            None \<Rightarrow> Some s
          | Some (a, table) \<Rightarrow>
              let sz = ks_dnits s ! unat (ipr_name (table ! 0))
              in destroy_requests destroy port (tl (take sz table)) s);
       let s = (if ip_bits p AND IO_BITS_KOTYPE \<noteq> 0 then effect (KobjectDestroy port) s else s);
       ipc_port_release port s
     }"

text \<open>
  The whole.  The quick check in \<open>ipc_port_check_circularity\<close> is taken to succeed, which makes no
  difference to the outcome.
\<close>

primrec ipc_port_destroy :: "nat \<Rightarrow> ptr \<Rightarrow> ipc_state \<Rightarrow> ipc_state option" where
  "ipc_port_destroy 0 port s = None"
| "ipc_port_destroy (Suc fuel) port s =
     do {
       p \<leftarrow> ks_ports s port;
       let pdrequest = ip_pdrequest p;
       (if pdrequest = 0 then destroy_dead (ipc_port_destroy fuel) port s
        else
          do {
            let s = put_port port (p\<lparr>ip_pdrequest := 0, ip_receiver_name := MACH_PORT_NULL, ip_data := 0\<rparr>) s;
            let sendp = ip_pdsendp pdrequest;
            let backup = (if sendp then ip_pdsend pdrequest else pdrequest);
            let release_receive = ipc_port_release_receive (ipc_port_destroy fuel);
            (circular, s) \<leftarrow> ipc_port_check_circularity True port backup s;
            (if \<not> circular then
               if sendp then ipc_notify_port_destroyed_compat release_receive backup port s
               else ipc_notify_port_destroyed release_receive backup port s
             else
               do {
                 s \<leftarrow> (if sendp then ipc_port_release_send backup s else ipc_port_release_sonce backup s);
                 destroy_dead (ipc_port_destroy fuel) port s
               })
          })
     }"

text \<open>The depth of the recursion is at most two.\<close>

definition port_destroy :: "ptr \<Rightarrow> ipc_state \<Rightarrow> ipc_state option" where
  "port_destroy = ipc_port_destroy 2"

definition ipc_port_dealloc_special :: "ptr \<Rightarrow> ipc_state \<Rightarrow> ipc_state option" where
  "ipc_port_dealloc_special port s =
     do {
       s \<leftarrow> mod_port port (\<lambda>p. p\<lparr>ip_receiver_name := MACH_PORT_NULL, ip_data := 0\<rparr>) s;
       s \<leftarrow> ipc_port_clear_receiver port s;
       port_destroy port s
     }"

end
