(* ===== verification/Ipc_Right.thy ===== *)
theory Ipc_Right
  imports Ipc_Destroy
begin

text \<open>
  Rights in a space, \<^verbatim>\<open>src/ipc/ipc_right.c\<close>: dead-name requests, changing the count of user
  references, and moving rights in and out of a space.
\<close>

section \<open>Types and user references\<close>

definition MACH_PORT_TYPE_SEND_RECEIVE :: u32 where
  "MACH_PORT_TYPE_SEND_RECEIVE = MACH_PORT_TYPE_SEND OR MACH_PORT_TYPE_RECEIVE"
definition MACH_PORT_TYPE_SEND_RIGHTS :: u32 where
  "MACH_PORT_TYPE_SEND_RIGHTS = MACH_PORT_TYPE_SEND OR MACH_PORT_TYPE_SEND_ONCE"
definition MACH_PORT_TYPE_PORT_RIGHTS :: u32 where
  "MACH_PORT_TYPE_PORT_RIGHTS = MACH_PORT_TYPE_SEND_RIGHTS OR MACH_PORT_TYPE_RECEIVE"
definition MACH_PORT_TYPE_PORT_OR_DEAD :: u32 where
  "MACH_PORT_TYPE_PORT_OR_DEAD = MACH_PORT_TYPE_PORT_RIGHTS OR MACH_PORT_TYPE_DEAD_NAME"

definition MACH_PORT_TYPE_DNREQUEST :: u32 where "MACH_PORT_TYPE_DNREQUEST = 0x80000000"
definition MACH_PORT_TYPE_MAREQUEST :: u32 where "MACH_PORT_TYPE_MAREQUEST = 0x40000000"
definition MACH_PORT_TYPE_COMPAT :: u32 where "MACH_PORT_TYPE_COMPAT = 0x20000000"

datatype mach_port_right =
    MACH_PORT_RIGHT_SEND
  | MACH_PORT_RIGHT_RECEIVE
  | MACH_PORT_RIGHT_SEND_ONCE
  | MACH_PORT_RIGHT_PORT_SET
  | MACH_PORT_RIGHT_DEAD_NAME

definition MACH_PORT_UREFS_MAX :: u32 where "MACH_PORT_UREFS_MAX = push_bit 16 1 - 1"

text \<open>A delta is a signed number; sums are unsigned.\<close>

definition MACH_PORT_UREFS_OVERFLOW :: "u32 \<Rightarrow> u32 \<Rightarrow> bool" where
  "MACH_PORT_UREFS_OVERFLOW urefs delta \<longleftrightarrow>
     sint delta > 0 \<and> (urefs + delta \<le> urefs \<or> urefs + delta > MACH_PORT_UREFS_MAX)"

definition MACH_PORT_UREFS_UNDERFLOW :: "u32 \<Rightarrow> u32 \<Rightarrow> bool" where
  "MACH_PORT_UREFS_UNDERFLOW urefs delta \<longleftrightarrow> sint delta < 0 \<and> - delta > urefs"

section \<open>Dead-name requests\<close>

text \<open>\<open>env\<close> is what happens while the table of requests is grown; each round of the loop may grow it.\<close>

primrec ipc_right_dnrequest ::
    "nat \<Rightarrow> (ipc_state \<Rightarrow> ipc_state) \<Rightarrow> ptr \<Rightarrow> mach_port_t \<Rightarrow> bool \<Rightarrow> ptr \<Rightarrow> ipc_state \<Rightarrow>
     ((kern_return + ptr) \<times> ipc_state) option" where
  "ipc_right_dnrequest 0 env space name immediate notify s = None"
| "ipc_right_dnrequest (Suc fuel) env space name immediate notify s =
     do {
       (r, s) \<leftarrow> ipc_right_lookup_write space name s;
       (case r of
          Inl kr \<Rightarrow> Some (Inl kr, s)
        | Inr e \<Rightarrow>
            do {
              entry \<leftarrow> get_entry space e s;
              let bits = ie_bits entry;
              let port = ie_object entry;
              (dead, s) \<leftarrow>
                (if bits AND MACH_PORT_TYPE_PORT_RIGHTS \<noteq> 0 then ipc_right_check space port name e s else Some (True, s));
              (if \<not> dead then
                 if notify = 0 then
                   if bits AND IE_BITS_COMPAT \<noteq> 0 then Some (Inr 0, s)
                   else
                     do {
                       (previous, s) \<leftarrow> ipc_right_dncancel_macro space port name e s;
                       Some (Inr previous, s)
                     }
                 else
                   do {
                     (previous, s) \<leftarrow> ipc_right_dncancel_macro space port name e s;
                     p \<leftarrow> ks_ports s port;
                     (case ipc_port_dnrequest p name notify of
                        Inl _ \<Rightarrow>
                          do {
                            (kr, s) \<leftarrow> ipc_port_dngrow env port None s;
                            (if kr \<noteq> KERN_SUCCESS then Some (Inl kr, s)
                             else ipc_right_dnrequest fuel env space name immediate notify s)
                          }
                      | Inr (request, p) \<Rightarrow>
                          do {
                            s \<leftarrow> set_entry space e
                              (\<lambda>en. en\<lparr>ie_request := request, ie_bits := bits AND NOT IE_BITS_COMPAT\<rparr>)
                              (put_port port p s);
                            Some (Inr previous, s)
                          })
                   }
               else if bits AND MACH_PORT_TYPE_PORT_RIGHTS \<noteq> 0 \<and> bits AND IE_BITS_COMPAT \<noteq> 0
               then Some (Inl KERN_INVALID_NAME, s)
               else
                 do {
                   entry \<leftarrow> get_entry space e s;
                   let bits = ie_bits entry;
                   (if bits AND MACH_PORT_TYPE_DEAD_NAME \<noteq> 0 \<and> immediate \<and> notify \<noteq> 0 then
                      if MACH_PORT_UREFS_OVERFLOW (IE_BITS_UREFS bits) 1 then Some (Inl KERN_UREFS_OVERFLOW, s)
                      else
                        do {
                          s \<leftarrow> set_entry space e (\<lambda>en. en\<lparr>ie_bits := bits + 1\<rparr>) s;
                          s \<leftarrow> ipc_notify_dead_name notify name s;
                          Some (Inr 0, s)
                        }
                    else Some (Inl (if bits AND MACH_PORT_TYPE_PORT_OR_DEAD \<noteq> 0 then KERN_INVALID_ARGUMENT
                                    else KERN_INVALID_RIGHT), s))
                 })
            })
     }"

section \<open>User references\<close>

definition notify_port_deleted :: "ptr \<Rightarrow> mach_port_t \<Rightarrow> ipc_state \<Rightarrow> ipc_state option" where
  "notify_port_deleted dnrequest name s =
     (if dnrequest \<noteq> 0 then ipc_notify_port_deleted dnrequest name s else Some s)"

text \<open>Clearing the object of an entry and giving it back.\<close>

definition entry_clear :: "ptr \<Rightarrow> mach_port_t \<Rightarrow> ipc_entry_ptr \<Rightarrow> ipc_state \<Rightarrow> ipc_state option" where
  "entry_clear space name e s = set_entry space e (\<lambda>en. en\<lparr>ie_object := 0\<rparr>) s \<bind> entry_dealloc space name e"

text \<open>The last user reference for a send right goes: the result is the dead-name request to be notified.\<close>

definition send_entry_dealloc ::
    "ptr \<Rightarrow> ptr \<Rightarrow> mach_port_t \<Rightarrow> ipc_entry_ptr \<Rightarrow> u32 \<Rightarrow> ipc_state \<Rightarrow> (ptr \<times> ipc_state) option" where
  "send_entry_dealloc space port name e bits s =
     do {
       (dnrequest, s) \<leftarrow> ipc_right_dncancel_macro space port name e s;
       s \<leftarrow> hash_delete space port name e s;
       s \<leftarrow> (if bits AND IE_BITS_MAREQUEST \<noteq> 0 then ipc_marequest_cancel space name s else Some s);
       s \<leftarrow> mod_port port ip_release s;
       map_option (Pair dnrequest) (entry_clear space name e s)
     }"

definition dealloc_dead_name :: "ptr \<Rightarrow> mach_port_t \<Rightarrow> ipc_entry_ptr \<Rightarrow> u32 \<Rightarrow> ipc_state \<Rightarrow> ipc_state option" where
  "dealloc_dead_name space name e bits s =
     (if IE_BITS_UREFS bits = 1 then entry_dealloc space name e s
      else set_entry space e (\<lambda>en. en\<lparr>ie_bits := bits - 1\<rparr>) s)"

definition ipc_right_dealloc ::
    "ptr \<Rightarrow> mach_port_t \<Rightarrow> ipc_entry_ptr \<Rightarrow> ipc_state \<Rightarrow> (kern_return \<times> ipc_state) option" where
  "ipc_right_dealloc space name e s =
     do {
       entry \<leftarrow> get_entry space e s;
       let bits = ie_bits entry;
       let type = IE_BITS_TYPE bits;
       let port = ie_object entry;
       (if type = MACH_PORT_TYPE_DEAD_NAME then
          map_option (Pair KERN_SUCCESS) (dealloc_dead_name space name e bits s)
        else if type = MACH_PORT_TYPE_SEND_ONCE \<or> type = MACH_PORT_TYPE_SEND then
          do {
            (dead, s) \<leftarrow> ipc_right_check space port name e s;
            (if dead then
               if bits AND IE_BITS_COMPAT \<noteq> 0 then Some (KERN_INVALID_NAME, s)
               else
                 do {
                   entry \<leftarrow> get_entry space e s;
                   map_option (Pair KERN_SUCCESS) (dealloc_dead_name space name e (ie_bits entry) s)
                 }
             else if type = MACH_PORT_TYPE_SEND_ONCE then
               do {
                 (dnrequest, s) \<leftarrow> ipc_right_dncancel_macro space port name e s;
                 s \<leftarrow> entry_clear space name e s;
                 s \<leftarrow> ipc_notify_send_once port s;
                 map_option (Pair KERN_SUCCESS) (notify_port_deleted dnrequest name s)
               }
             else if IE_BITS_UREFS bits = 1 then
               do {
                 p \<leftarrow> ks_ports s port;
                 let (nsrequest, mscount, p) = drop_sright p;
                 (dnrequest, s) \<leftarrow> send_entry_dealloc space port name e bits (put_port port p s);
                 s \<leftarrow> notify_no_senders nsrequest mscount s;
                 map_option (Pair KERN_SUCCESS) (notify_port_deleted dnrequest name s)
               }
             else map_option (Pair KERN_SUCCESS) (set_entry space e (\<lambda>en. en\<lparr>ie_bits := bits - 1\<rparr>) s))
          }
        else if type = MACH_PORT_TYPE_SEND_RECEIVE then
          if IE_BITS_UREFS bits = 1 then
            do {
              p \<leftarrow> ks_ports s port;
              let (nsrequest, mscount, p) = drop_sright p;
              s \<leftarrow> set_entry space e
                (\<lambda>en. en\<lparr>ie_bits := bits AND NOT (IE_BITS_UREFS_MASK OR MACH_PORT_TYPE_SEND)\<rparr>) (put_port port p s);
              map_option (Pair KERN_SUCCESS) (notify_no_senders nsrequest mscount s)
            }
          else map_option (Pair KERN_SUCCESS) (set_entry space e (\<lambda>en. en\<lparr>ie_bits := bits - 1\<rparr>) s)
        else Some (KERN_INVALID_RIGHT, s))
     }"

subsection \<open>The cases of \<open>ipc_right_delta\<close>\<close>

definition delta_port_set ::
    "ptr \<Rightarrow> mach_port_t \<Rightarrow> ipc_entry_ptr \<Rightarrow> ipc_entry \<Rightarrow> u32 \<Rightarrow> ipc_state \<Rightarrow> (kern_return \<times> ipc_state) option" where
  "delta_port_set space name e entry delta s =
     (if ie_bits entry AND MACH_PORT_TYPE_PORT_SET = 0 then Some (KERN_INVALID_RIGHT, s)
      else if delta = 0 then Some (KERN_SUCCESS, s)
      else if delta \<noteq> - 1 then Some (KERN_INVALID_VALUE, s)
      else
        do {
          s \<leftarrow> entry_clear space name e s;
          map_option (Pair KERN_SUCCESS) (ipc_pset_destroy (ie_object entry) s)
        })"

definition delta_receive ::
    "ptr \<Rightarrow> mach_port_t \<Rightarrow> ipc_entry_ptr \<Rightarrow> ipc_entry \<Rightarrow> u32 \<Rightarrow> ipc_state \<Rightarrow> (kern_return \<times> ipc_state) option" where
  "delta_receive space name e entry delta s =
     (let bits = ie_bits entry;
          port = ie_object entry
      in if bits AND MACH_PORT_TYPE_RECEIVE = 0 then Some (KERN_INVALID_RIGHT, s)
         else if delta = 0 then Some (KERN_SUCCESS, s)
         else if delta \<noteq> - 1 then Some (KERN_INVALID_VALUE, s)
         else
           do {
             (bits, s) \<leftarrow>
               (if bits AND IE_BITS_MAREQUEST \<noteq> 0
                then map_option (Pair (bits AND NOT IE_BITS_MAREQUEST)) (ipc_marequest_cancel space name s)
                else Some (bits, s));
             (dnrequest, s) \<leftarrow>
               (if bits AND IE_BITS_COMPAT \<noteq> 0 then
                  do {
                    (dnrequest, s) \<leftarrow> ipc_right_dncancel space port name e s;
                    map_option (Pair dnrequest) (entry_clear space name e s)
                  }
                else if bits AND MACH_PORT_TYPE_SEND \<noteq> 0 then
                  do {
                    let bits = bits AND NOT IE_BITS_TYPE_MASK OR MACH_PORT_TYPE_DEAD_NAME;
                    let bits = (if ie_request entry \<noteq> 0 then bits + 1 else bits);
                    map_option (Pair 0)
                      (set_entry space e (\<lambda>en. en\<lparr>ie_request := 0, ie_bits := bits, ie_object := 0\<rparr>) s)
                  }
                else
                  do {
                    (dnrequest, s) \<leftarrow> ipc_right_dncancel_macro space port name e s;
                    map_option (Pair dnrequest) (entry_clear space name e s)
                  });
             s \<leftarrow> ipc_port_clear_receiver port s;
             s \<leftarrow> port_destroy port s;
             map_option (Pair KERN_SUCCESS) (notify_port_deleted dnrequest name s)
           })"

definition delta_send_once ::
    "ptr \<Rightarrow> mach_port_t \<Rightarrow> ipc_entry_ptr \<Rightarrow> ipc_entry \<Rightarrow> u32 \<Rightarrow> ipc_state \<Rightarrow> (kern_return \<times> ipc_state) option" where
  "delta_send_once space name e entry delta s =
     (let bits = ie_bits entry;
          port = ie_object entry
      in if bits AND MACH_PORT_TYPE_SEND_ONCE = 0 then Some (KERN_INVALID_RIGHT, s)
         else
           do {
             (dead, s) \<leftarrow> ipc_right_check space port name e s;
             (if dead then Some (if bits AND IE_BITS_COMPAT \<noteq> 0 then KERN_INVALID_NAME else KERN_INVALID_RIGHT, s)
              else if sint delta > 0 \<or> sint delta < - 1 then Some (KERN_INVALID_VALUE, s)
              else if delta = 0 then Some (KERN_SUCCESS, s)
              else
                do {
                  (dnrequest, s) \<leftarrow> ipc_right_dncancel_macro space port name e s;
                  s \<leftarrow> entry_clear space name e s;
                  s \<leftarrow> ipc_notify_send_once port s;
                  map_option (Pair KERN_SUCCESS) (notify_port_deleted dnrequest name s)
                })
           })"

definition delta_dead_name ::
    "ptr \<Rightarrow> mach_port_t \<Rightarrow> ipc_entry_ptr \<Rightarrow> ipc_entry \<Rightarrow> u32 \<Rightarrow> ipc_state \<Rightarrow> (kern_return \<times> ipc_state) option" where
  "delta_dead_name space name e entry delta s =
     (let bits = ie_bits entry
      in do {
        (kr, s) \<leftarrow>
          (if bits AND MACH_PORT_TYPE_SEND_RIGHTS \<noteq> 0 then
             do {
               (dead, s) \<leftarrow> ipc_right_check space (ie_object entry) name e s;
               Some (if \<not> dead then KERN_INVALID_RIGHT
                     else if bits AND IE_BITS_COMPAT \<noteq> 0 then KERN_INVALID_NAME
                     else KERN_SUCCESS, s)
             }
           else Some (if bits AND MACH_PORT_TYPE_DEAD_NAME = 0 then KERN_INVALID_RIGHT else KERN_SUCCESS, s));
        (if kr \<noteq> KERN_SUCCESS then Some (kr, s)
         else
           do {
             entry \<leftarrow> get_entry space e s;
             let bits = ie_bits entry;
             let urefs = IE_BITS_UREFS bits;
             (if MACH_PORT_UREFS_UNDERFLOW urefs delta then Some (KERN_INVALID_VALUE, s)
              else if MACH_PORT_UREFS_OVERFLOW urefs delta then Some (KERN_UREFS_OVERFLOW, s)
              else
                map_option (Pair KERN_SUCCESS)
                  (if urefs + delta = 0 then entry_dealloc space name e s
                   else set_entry space e (\<lambda>en. en\<lparr>ie_bits := bits + delta\<rparr>) s))
           })
      })"

definition delta_send ::
    "ptr \<Rightarrow> mach_port_t \<Rightarrow> ipc_entry_ptr \<Rightarrow> ipc_entry \<Rightarrow> u32 \<Rightarrow> ipc_state \<Rightarrow> (kern_return \<times> ipc_state) option" where
  "delta_send space name e entry delta s =
     (let bits = ie_bits entry;
          port = ie_object entry;
          urefs = IE_BITS_UREFS bits
      in if bits AND MACH_PORT_TYPE_SEND = 0 then Some (KERN_INVALID_RIGHT, s)
         else
           do {
             (dead, s) \<leftarrow> ipc_right_check space port name e s;
             (if dead then Some (if bits AND IE_BITS_COMPAT \<noteq> 0 then KERN_INVALID_NAME else KERN_INVALID_RIGHT, s)
              else if MACH_PORT_UREFS_UNDERFLOW urefs delta then Some (KERN_INVALID_VALUE, s)
              else if MACH_PORT_UREFS_OVERFLOW (urefs + 1) delta then Some (KERN_UREFS_OVERFLOW, s)
              else if urefs + delta = 0 then
                do {
                  p \<leftarrow> ks_ports s port;
                  let (nsrequest, mscount, p) = drop_sright p;
                  let s = put_port port p s;
                  (dnrequest, s) \<leftarrow>
                    (if bits AND MACH_PORT_TYPE_RECEIVE \<noteq> 0 then
                       map_option (Pair 0)
                         (set_entry space e
                           (\<lambda>en. en\<lparr>ie_bits := bits AND NOT (IE_BITS_UREFS_MASK OR MACH_PORT_TYPE_SEND)\<rparr>) s)
                     else send_entry_dealloc space port name e bits s);
                  s \<leftarrow> notify_no_senders nsrequest mscount s;
                  map_option (Pair KERN_SUCCESS) (notify_port_deleted dnrequest name s)
                }
              else map_option (Pair KERN_SUCCESS) (set_entry space e (\<lambda>en. en\<lparr>ie_bits := bits + delta\<rparr>) s))
           })"

fun ipc_right_delta ::
    "ptr \<Rightarrow> mach_port_t \<Rightarrow> ipc_entry_ptr \<Rightarrow> mach_port_right \<Rightarrow> u32 \<Rightarrow> ipc_state \<Rightarrow>
     (kern_return \<times> ipc_state) option" where
  "ipc_right_delta space name e rt delta s =
     do {
       entry \<leftarrow> get_entry space e s;
       (case rt of
          MACH_PORT_RIGHT_PORT_SET \<Rightarrow> delta_port_set space name e entry delta s
        | MACH_PORT_RIGHT_RECEIVE \<Rightarrow> delta_receive space name e entry delta s
        | MACH_PORT_RIGHT_SEND_ONCE \<Rightarrow> delta_send_once space name e entry delta s
        | MACH_PORT_RIGHT_DEAD_NAME \<Rightarrow> delta_dead_name space name e entry delta s
        | MACH_PORT_RIGHT_SEND \<Rightarrow> delta_send space name e entry delta s)
     }"

definition ipc_right_info ::
    "ptr \<Rightarrow> mach_port_t \<Rightarrow> ipc_entry_ptr \<Rightarrow> ipc_state \<Rightarrow> ((kern_return + u32 \<times> u32) \<times> ipc_state) option" where
  "ipc_right_info space name e s =
     do {
       entry \<leftarrow> get_entry space e s;
       let bits = ie_bits entry;
       (dead, s) \<leftarrow>
         (if bits AND MACH_PORT_TYPE_SEND_RIGHTS \<noteq> 0 then ipc_right_check space (ie_object entry) name e s
          else Some (False, s));
       (if dead \<and> bits AND IE_BITS_COMPAT \<noteq> 0 then Some (Inl KERN_INVALID_NAME, s)
        else
          do {
            entry \<leftarrow> get_entry space e s;
            let bits = ie_bits entry;
            let type = IE_BITS_TYPE bits;
            let type =
              (if bits AND IE_BITS_COMPAT \<noteq> 0 then type OR MACH_PORT_TYPE_COMPAT
               else if ie_request entry \<noteq> 0 then type OR MACH_PORT_TYPE_DNREQUEST
               else type);
            let type = (if bits AND IE_BITS_MAREQUEST \<noteq> 0 then type OR MACH_PORT_TYPE_MAREQUEST else type);
            Some (Inr (type, IE_BITS_UREFS bits), s)
          })
     }"

section \<open>Moving rights in\<close>

definition ipc_right_copyin_check ::
    "ptr \<Rightarrow> mach_port_t \<Rightarrow> ipc_entry_ptr \<Rightarrow> u32 \<Rightarrow> ipc_state \<Rightarrow> bool option" where
  "ipc_right_copyin_check space name e msgt_name s =
     do {
       entry \<leftarrow> get_entry space e s;
       let bits = ie_bits entry;
       (if msgt_name = MACH_MSG_TYPE_MAKE_SEND \<or> msgt_name = MACH_MSG_TYPE_MAKE_SEND_ONCE \<or>
           msgt_name = MACH_MSG_TYPE_MOVE_RECEIVE
        then Some (bits AND MACH_PORT_TYPE_RECEIVE \<noteq> 0)
        else if msgt_name = MACH_MSG_TYPE_COPY_SEND \<or> msgt_name = MACH_MSG_TYPE_MOVE_SEND \<or>
                msgt_name = MACH_MSG_TYPE_MOVE_SEND_ONCE
        then
          if bits AND MACH_PORT_TYPE_DEAD_NAME \<noteq> 0 then Some True
          else if bits AND MACH_PORT_TYPE_SEND_RIGHTS = 0 then Some False
          else
            do {
              p \<leftarrow> ks_ports s (ie_object entry);
              Some (if \<not> ip_active p then bits AND IE_BITS_COMPAT = 0
                    else if msgt_name = MACH_MSG_TYPE_MOVE_SEND_ONCE then bits AND MACH_PORT_TYPE_SEND_ONCE \<noteq> 0
                    else bits AND MACH_PORT_TYPE_SEND \<noteq> 0)
            }
        else None)
     }"

text \<open>
  The cases of \<open>ipc_right_copyin\<close>.  A result has the object and the send-once right for a
  port-deleted notification.
\<close>

type_synonym copyin_result = "((kern_return + ptr \<times> ptr) \<times> ipc_state) option"

definition copyin_make_send :: "ipc_entry \<Rightarrow> ipc_state \<Rightarrow> copyin_result" where
  "copyin_make_send entry s =
     (if ie_bits entry AND MACH_PORT_TYPE_RECEIVE = 0 then Some (Inl KERN_INVALID_RIGHT, s)
      else
        map_option (Pair (Inr (ie_object entry, 0)))
          (mod_port (ie_object entry)
            (\<lambda>p. (ip_reference p)\<lparr>ip_mscount := ip_mscount p + 1, ip_srights := ip_srights p + 1\<rparr>) s))"

definition copyin_make_send_once :: "ipc_entry \<Rightarrow> ipc_state \<Rightarrow> copyin_result" where
  "copyin_make_send_once entry s =
     (if ie_bits entry AND MACH_PORT_TYPE_RECEIVE = 0 then Some (Inl KERN_INVALID_RIGHT, s)
      else
        map_option (Pair (Inr (ie_object entry, 0)))
          (mod_port (ie_object entry) (\<lambda>p. (ip_reference p)\<lparr>ip_sorights := ip_sorights p + 1\<rparr>) s))"

text \<open>\<open>ipc_port_clear_receiver\<close>, after which the port is in limbo\<close>

definition clear_to_limbo :: "ptr \<Rightarrow> ipc_state \<Rightarrow> ipc_state option" where
  "clear_to_limbo port s =
     ipc_port_clear_receiver port s \<bind>
     mod_port port (\<lambda>p. p\<lparr>ip_receiver_name := MACH_PORT_NULL, ip_data := 0\<rparr>)"

definition copyin_move_receive ::
    "ptr \<Rightarrow> mach_port_t \<Rightarrow> ipc_entry_ptr \<Rightarrow> ipc_entry \<Rightarrow> ipc_state \<Rightarrow> copyin_result" where
  "copyin_move_receive space name e entry s =
     (let bits = ie_bits entry;
          port = ie_object entry
      in if bits AND MACH_PORT_TYPE_RECEIVE = 0 then Some (Inl KERN_INVALID_RIGHT, s)
         else
           do {
             (dnrequest, s) \<leftarrow>
               (if bits AND MACH_PORT_TYPE_SEND \<noteq> 0 then
                  do {
                    s \<leftarrow> hash_insert space port name e s;
                    map_option (Pair 0) (mod_port port ip_reference s)
                  }
                else
                  do {
                    (dnrequest, s) \<leftarrow> ipc_right_dncancel_macro space port name e s;
                    s \<leftarrow> (if bits AND IE_BITS_MAREQUEST \<noteq> 0 then ipc_marequest_cancel space name s else Some s);
                    map_option (Pair dnrequest) (set_entry space e (\<lambda>en. en\<lparr>ie_object := 0\<rparr>) s)
                  });
             s \<leftarrow> set_entry space e (\<lambda>en. en\<lparr>ie_bits := bits AND NOT MACH_PORT_TYPE_RECEIVE\<rparr>) s;
             map_option (Pair (Inr (port, dnrequest))) (clear_to_limbo port s)
           })"

definition copyin_copy_dead :: "bool \<Rightarrow> ipc_state \<Rightarrow> copyin_result" where
  "copyin_copy_dead deadok s = Some (if deadok then Inr (IO_DEAD, 0) else Inl KERN_INVALID_RIGHT, s)"

definition copyin_move_dead :: "ptr \<Rightarrow> ipc_entry_ptr \<Rightarrow> u32 \<Rightarrow> bool \<Rightarrow> ipc_state \<Rightarrow> copyin_result" where
  "copyin_move_dead space e bits deadok s =
     (if \<not> deadok then Some (Inl KERN_INVALID_RIGHT, s)
      else
        map_option (Pair (Inr (IO_DEAD, 0)))
          (set_entry space e
            (\<lambda>en. en\<lparr>ie_bits := if IE_BITS_UREFS bits = 1 then bits AND NOT MACH_PORT_TYPE_DEAD_NAME else bits - 1\<rparr>) s))"

text \<open>
  What the cases for send and send-once rights do first: a dead name, or an entry that
  becomes one, goes to \<open>dead\<close>; a right for a live port to \<open>live\<close>.
\<close>

definition copyin_check_dead ::
    "ptr \<Rightarrow> mach_port_t \<Rightarrow> ipc_entry_ptr \<Rightarrow> ipc_entry \<Rightarrow> (u32 \<Rightarrow> ipc_state \<Rightarrow> copyin_result) \<Rightarrow>
     (ipc_state \<Rightarrow> copyin_result) \<Rightarrow> ipc_state \<Rightarrow> copyin_result" where
  "copyin_check_dead space name e entry dead live s =
     (let bits = ie_bits entry
      in if bits AND MACH_PORT_TYPE_DEAD_NAME \<noteq> 0 then dead bits s
         else if bits AND MACH_PORT_TYPE_SEND_RIGHTS = 0 then Some (Inl KERN_INVALID_RIGHT, s)
         else
           do {
             (died, s) \<leftarrow> ipc_right_check space (ie_object entry) name e s;
             (if \<not> died then live s
              else if bits AND IE_BITS_COMPAT \<noteq> 0 then Some (Inl KERN_INVALID_NAME, s)
              else get_entry space e s \<bind> (\<lambda>entry. dead (ie_bits entry) s))
           })"

definition copyin_copy_send ::
    "ptr \<Rightarrow> mach_port_t \<Rightarrow> ipc_entry_ptr \<Rightarrow> ipc_entry \<Rightarrow> bool \<Rightarrow> ipc_state \<Rightarrow> copyin_result" where
  "copyin_copy_send space name e entry deadok =
     copyin_check_dead space name e entry (\<lambda>_. copyin_copy_dead deadok)
       (\<lambda>s. if ie_bits entry AND MACH_PORT_TYPE_SEND = 0 then Some (Inl KERN_INVALID_RIGHT, s)
            else
              map_option (Pair (Inr (ie_object entry, 0)))
                (mod_port (ie_object entry) (\<lambda>p. (ip_reference p)\<lparr>ip_srights := ip_srights p + 1\<rparr>) s))"

definition copyin_move_send ::
    "ptr \<Rightarrow> mach_port_t \<Rightarrow> ipc_entry_ptr \<Rightarrow> ipc_entry \<Rightarrow> bool \<Rightarrow> ipc_state \<Rightarrow> copyin_result" where
  "copyin_move_send space name e entry deadok =
     copyin_check_dead space name e entry (\<lambda>bits. copyin_move_dead space e bits deadok)
       (\<lambda>s. let bits = ie_bits entry;
                port = ie_object entry
            in if bits AND MACH_PORT_TYPE_SEND = 0 then Some (Inl KERN_INVALID_RIGHT, s)
               else if IE_BITS_UREFS bits = 1 then
                 do {
                   (dnrequest, s) \<leftarrow>
                     (if bits AND MACH_PORT_TYPE_RECEIVE \<noteq> 0 then map_option (Pair 0) (mod_port port ip_reference s)
                      else
                        do {
                          (dnrequest, s) \<leftarrow> ipc_right_dncancel_macro space port name e s;
                          s \<leftarrow> hash_delete space port name e s;
                          s \<leftarrow> (if bits AND IE_BITS_MAREQUEST \<noteq> 0 then ipc_marequest_cancel space name s else Some s);
                          map_option (Pair dnrequest) (set_entry space e (\<lambda>en. en\<lparr>ie_object := 0\<rparr>) s)
                        });
                   s \<leftarrow> set_entry space e
                     (\<lambda>en. en\<lparr>ie_bits := bits AND NOT (IE_BITS_UREFS_MASK OR MACH_PORT_TYPE_SEND)\<rparr>) s;
                   Some (Inr (port, dnrequest), s)
                 }
               else
                 do {
                   s \<leftarrow> mod_port port (\<lambda>p. (ip_reference p)\<lparr>ip_srights := ip_srights p + 1\<rparr>) s;
                   s \<leftarrow> set_entry space e (\<lambda>en. en\<lparr>ie_bits := bits - 1\<rparr>) s;
                   Some (Inr (port, 0), s)
                 })"

definition copyin_move_send_once ::
    "ptr \<Rightarrow> mach_port_t \<Rightarrow> ipc_entry_ptr \<Rightarrow> ipc_entry \<Rightarrow> bool \<Rightarrow> ipc_state \<Rightarrow> copyin_result" where
  "copyin_move_send_once space name e entry deadok =
     copyin_check_dead space name e entry (\<lambda>bits. copyin_move_dead space e bits deadok)
       (\<lambda>s. let bits = ie_bits entry;
                port = ie_object entry
            in if bits AND MACH_PORT_TYPE_SEND_ONCE = 0 then Some (Inl KERN_INVALID_RIGHT, s)
               else
                 do {
                   (dnrequest, s) \<leftarrow> ipc_right_dncancel_macro space port name e s;
                   s \<leftarrow> set_entry space e
                     (\<lambda>en. en\<lparr>ie_object := 0, ie_bits := bits AND NOT MACH_PORT_TYPE_SEND_ONCE\<rparr>) s;
                   Some (Inr (port, dnrequest), s)
                 })"

definition ipc_right_copyin ::
    "ptr \<Rightarrow> mach_port_t \<Rightarrow> ipc_entry_ptr \<Rightarrow> u32 \<Rightarrow> bool \<Rightarrow> ipc_state \<Rightarrow> copyin_result" where
  "ipc_right_copyin space name e msgt_name deadok s =
     do {
       entry \<leftarrow> get_entry space e s;
       (if msgt_name = MACH_MSG_TYPE_MAKE_SEND then copyin_make_send entry s
        else if msgt_name = MACH_MSG_TYPE_MAKE_SEND_ONCE then copyin_make_send_once entry s
        else if msgt_name = MACH_MSG_TYPE_MOVE_RECEIVE then copyin_move_receive space name e entry s
        else if msgt_name = MACH_MSG_TYPE_COPY_SEND then copyin_copy_send space name e entry deadok s
        else if msgt_name = MACH_MSG_TYPE_MOVE_SEND then copyin_move_send space name e entry deadok s
        else if msgt_name = MACH_MSG_TYPE_MOVE_SEND_ONCE then copyin_move_send_once space name e entry deadok s
        else None)
     }"

definition ipc_right_copyin_undo ::
    "ptr \<Rightarrow> mach_port_t \<Rightarrow> ipc_entry_ptr \<Rightarrow> u32 \<Rightarrow> ptr \<Rightarrow> ptr \<Rightarrow> ipc_state \<Rightarrow> ipc_state option" where
  "ipc_right_copyin_undo space name e msgt_name object soright s =
     do {
       entry \<leftarrow> get_entry space e s;
       let bits = ie_bits entry;
       let type = IE_BITS_TYPE bits;
       s \<leftarrow>
         (if soright \<noteq> 0 then
            set_entry space e
              (\<lambda>en. en\<lparr>ie_bits := bits AND NOT IE_BITS_RIGHT_MASK OR MACH_PORT_TYPE_DEAD_NAME OR 2\<rparr>) s
          else if type = MACH_PORT_TYPE_NONE then
            set_entry space e
              (\<lambda>en. en\<lparr>ie_bits := bits AND NOT IE_BITS_RIGHT_MASK OR MACH_PORT_TYPE_DEAD_NAME OR 1\<rparr>) s
          else if type = MACH_PORT_TYPE_DEAD_NAME then
            if msgt_name \<noteq> MACH_MSG_TYPE_COPY_SEND then set_entry space e (\<lambda>en. en\<lparr>ie_bits := bits + 1\<rparr>) s else Some s
          else
            do {
              s \<leftarrow> (if msgt_name \<noteq> MACH_MSG_TYPE_COPY_SEND then set_entry space e (\<lambda>en. en\<lparr>ie_bits := bits + 1\<rparr>) s
                    else Some s);
              (_, s) \<leftarrow> ipc_right_check space object name e s;
              Some s
            });
       (if object \<noteq> IO_DEAD then ipc_object_release object s else Some s)
     }"

definition ipc_right_copyin_two :: "ptr \<Rightarrow> mach_port_t \<Rightarrow> ipc_entry_ptr \<Rightarrow> ipc_state \<Rightarrow> copyin_result" where
  "ipc_right_copyin_two space name e s =
     do {
       entry \<leftarrow> get_entry space e s;
       let bits = ie_bits entry;
       let port = ie_object entry;
       let urefs = IE_BITS_UREFS bits;
       (if bits AND MACH_PORT_TYPE_SEND = 0 \<or> urefs < 2 then Some (Inl KERN_INVALID_RIGHT, s)
        else
          do {
            (dead, s) \<leftarrow> ipc_right_check space port name e s;
            (if dead then
               Some (Inl (if bits AND IE_BITS_COMPAT \<noteq> 0 then KERN_INVALID_NAME else KERN_INVALID_RIGHT), s)
             else if urefs = 2 then
               do {
                 (dnrequest, s) \<leftarrow>
                   (if bits AND MACH_PORT_TYPE_RECEIVE \<noteq> 0 then
                      map_option (Pair 0)
                        (mod_port port (\<lambda>p. p\<lparr>ip_srights := ip_srights p + 1, ip_references := ip_references p + 2\<rparr>) s)
                    else
                      do {
                        (dnrequest, s) \<leftarrow> ipc_right_dncancel_macro space port name e s;
                        s \<leftarrow> hash_delete space port name e s;
                        s \<leftarrow> (if bits AND IE_BITS_MAREQUEST \<noteq> 0 then ipc_marequest_cancel space name s else Some s);
                        s \<leftarrow> mod_port port (\<lambda>p. (ip_reference p)\<lparr>ip_srights := ip_srights p + 1\<rparr>) s;
                        map_option (Pair dnrequest) (set_entry space e (\<lambda>en. en\<lparr>ie_object := 0\<rparr>) s)
                      });
                 s \<leftarrow> set_entry space e
                   (\<lambda>en. en\<lparr>ie_bits := bits AND NOT (IE_BITS_UREFS_MASK OR MACH_PORT_TYPE_SEND)\<rparr>) s;
                 Some (Inr (port, dnrequest), s)
               }
             else
               do {
                 s \<leftarrow> mod_port port
                   (\<lambda>p. p\<lparr>ip_srights := ip_srights p + 2, ip_references := ip_references p + 2\<rparr>) s;
                 s \<leftarrow> set_entry space e (\<lambda>en. en\<lparr>ie_bits := bits - 2\<rparr>) s;
                 Some (Inr (port, 0), s)
               })
          })
     }"

section \<open>Moving rights out\<close>

definition ipc_right_copyout ::
    "ptr \<Rightarrow> mach_port_t \<Rightarrow> ipc_entry_ptr \<Rightarrow> u32 \<Rightarrow> bool \<Rightarrow> ptr \<Rightarrow> ipc_state \<Rightarrow> (kern_return \<times> ipc_state) option" where
  "ipc_right_copyout space name e msgt_name overflow port s =
     do {
       entry \<leftarrow> get_entry space e s;
       let bits = ie_bits entry;
       (if msgt_name = MACH_MSG_TYPE_PORT_SEND_ONCE then
          map_option (Pair KERN_SUCCESS)
            (set_entry space e (\<lambda>en. en\<lparr>ie_bits := bits OR (MACH_PORT_TYPE_SEND_ONCE OR 1)\<rparr>) s)
        else if msgt_name = MACH_MSG_TYPE_PORT_SEND then
          if bits AND MACH_PORT_TYPE_SEND \<noteq> 0 \<and> IE_BITS_UREFS bits + 1 = MACH_PORT_UREFS_MAX then
            if overflow then
              map_option (Pair KERN_SUCCESS)
                (mod_port port (\<lambda>p. (ip_release p)\<lparr>ip_srights := ip_srights p - 1\<rparr>) s)
            else Some (KERN_UREFS_OVERFLOW, s)
          else
            do {
              s \<leftarrow>
                (if bits AND MACH_PORT_TYPE_SEND \<noteq> 0 then
                   mod_port port (\<lambda>p. (ip_release p)\<lparr>ip_srights := ip_srights p - 1\<rparr>) s
                 else if bits AND MACH_PORT_TYPE_RECEIVE \<noteq> 0 then mod_port port ip_release s
                 else hash_insert space port name e s);
              map_option (Pair KERN_SUCCESS)
                (set_entry space e (\<lambda>en. en\<lparr>ie_bits := (bits OR MACH_PORT_TYPE_SEND) + 1\<rparr>) s)
            }
        else if msgt_name = MACH_MSG_TYPE_PORT_RECEIVE then
          do {
            p \<leftarrow> ks_ports s port;
            let dest = ip_data p;
            let s = put_port port (p\<lparr>ip_receiver_name := name, ip_data := space\<rparr>) s;
            s \<leftarrow>
              (if bits AND MACH_PORT_TYPE_SEND \<noteq> 0
               then mod_port port ip_release s \<bind> hash_delete space port name e
               else Some s);
            s \<leftarrow> set_entry space e (\<lambda>en. en\<lparr>ie_bits := bits OR MACH_PORT_TYPE_RECEIVE\<rparr>) s;
            map_option (Pair KERN_SUCCESS) (if dest \<noteq> 0 then ipc_port_release dest s else Some s)
          }
        else None)
     }"

section \<open>Renaming\<close>

definition ipc_right_rename ::
    "ptr \<Rightarrow> mach_port_t \<Rightarrow> ipc_entry_ptr \<Rightarrow> mach_port_t \<Rightarrow> ipc_entry_ptr \<Rightarrow> ipc_state \<Rightarrow>
     (kern_return \<times> ipc_state) option" where
  "ipc_right_rename space oname oe nname ne s =
     do {
       oentry \<leftarrow> get_entry space oe s;
       let request = ie_request oentry;
       (dead, s) \<leftarrow>
         (if request \<noteq> 0 then ipc_right_check space (ie_object oentry) oname oe s else Some (False, s));
       (if dead \<and> ie_bits oentry AND IE_BITS_COMPAT \<noteq> 0 then
          map_option (Pair KERN_INVALID_NAME) (entry_dealloc space nname ne s)
        else
          do {
            (bits, request, object, s) \<leftarrow>
              (if dead then
                 do {
                   oentry \<leftarrow> get_entry space oe s;
                   Some (ie_bits oentry, 0, 0, s)
                 }
               else if request \<noteq> 0 then
                 do {
                   p \<leftarrow> ks_ports s (ie_object oentry);
                   p \<leftarrow> ipc_port_dnrename p request oname nname;
                   s \<leftarrow> set_entry space oe (\<lambda>en. en\<lparr>ie_request := 0\<rparr>) (put_port (ie_object oentry) p s);
                   Some (ie_bits oentry, request, ie_object oentry, s)
                 }
               else Some (ie_bits oentry, request, ie_object oentry, s));
            s \<leftarrow> (if bits AND IE_BITS_MAREQUEST \<noteq> 0 then ipc_marequest_rename space oname nname s else Some s);
            s \<leftarrow> set_entry space ne
              (\<lambda>en. en\<lparr>ie_bits := ie_bits en OR (bits AND IE_BITS_RIGHT_MASK), ie_request := request, ie_object := object\<rparr>) s;
            let type = IE_BITS_TYPE bits;
            s \<leftarrow>
              (if type = MACH_PORT_TYPE_SEND then
                 do {
                   s \<leftarrow> hash_delete space object oname oe s;
                   hash_insert space object nname ne s
                 }
               else if type = MACH_PORT_TYPE_RECEIVE \<or> type = MACH_PORT_TYPE_SEND_RECEIVE then
                 mod_port object (\<lambda>p. p\<lparr>ip_receiver_name := nname\<rparr>) s
               else if type = MACH_PORT_TYPE_PORT_SET then mod_pset object (\<lambda>ps. ps\<lparr>ips_local_name := nname\<rparr>) s
               else if type = MACH_PORT_TYPE_SEND_ONCE \<or> type = MACH_PORT_TYPE_DEAD_NAME then Some s
               else None);
            map_option (Pair KERN_SUCCESS) (entry_clear space oname oe s)
          })
     }"

section \<open>The old interface\<close>

type_synonym compat_result = "((kern_return + ptr) \<times> ipc_state) option"

definition compat_port_dealloc :: "ptr \<Rightarrow> mach_port_t \<Rightarrow> ipc_entry_ptr \<Rightarrow> ipc_entry \<Rightarrow> ipc_state \<Rightarrow> compat_result" where
  "compat_port_dealloc space name e entry s =
     (let bits = ie_bits entry;
          port = ie_object entry
      in if IE_BITS_TYPE bits \<noteq> MACH_PORT_TYPE_SEND then Some (Inl KERN_INVALID_RIGHT, s)
         else
           do {
             (dead, s) \<leftarrow> ipc_right_check space port name e s;
             (if dead then
                Some (Inl (if bits AND IE_BITS_COMPAT \<noteq> 0 then KERN_INVALID_NAME else KERN_INVALID_RIGHT), s)
              else
                do {
                  (dnrequest, s) \<leftarrow> ipc_right_dncancel_macro space port name e s;
                  s \<leftarrow> (if bits AND IE_BITS_MAREQUEST \<noteq> 0 then ipc_marequest_cancel space name s else Some s);
                  s \<leftarrow> hash_delete space port name e s;
                  s \<leftarrow> entry_clear space name e s;
                  map_option (Pair (Inr port)) (notify_port_deleted dnrequest name s)
                })
           })"

definition compat_port_copy :: "ptr \<Rightarrow> mach_port_t \<Rightarrow> ipc_entry_ptr \<Rightarrow> ipc_entry \<Rightarrow> ipc_state \<Rightarrow> compat_result" where
  "compat_port_copy space name e entry s =
     (let bits = ie_bits entry;
          port = ie_object entry
      in if bits AND MACH_PORT_TYPE_SEND_RECEIVE = 0 then Some (Inl KERN_INVALID_RIGHT, s)
         else
           do {
             (dead, s) \<leftarrow> ipc_right_check space port name e s;
             (if dead then
                Some (Inl (if bits AND IE_BITS_COMPAT \<noteq> 0 then KERN_INVALID_NAME else KERN_INVALID_RIGHT), s)
              else
                map_option (Pair (Inr port))
                  (mod_port port (\<lambda>p. (ip_reference p)
                    \<lparr>ip_mscount := if bits AND MACH_PORT_TYPE_SEND = 0 then ip_mscount p + 1 else ip_mscount p,
                     ip_srights := ip_srights p + 1\<rparr>) s))
           })"

definition compat_port_all_dealloc ::
    "ptr \<Rightarrow> mach_port_t \<Rightarrow> ipc_entry_ptr \<Rightarrow> ipc_entry \<Rightarrow> ipc_state \<Rightarrow> compat_result" where
  "compat_port_all_dealloc space name e entry s =
     (let bits = ie_bits entry;
          port = ie_object entry
      in if bits AND MACH_PORT_TYPE_RECEIVE = 0 then Some (Inl KERN_INVALID_RIGHT, s)
         else
           do {
             (dnrequest, s) \<leftarrow> ipc_right_dncancel_macro space port name e s;
             s \<leftarrow> (if bits AND IE_BITS_MAREQUEST \<noteq> 0 then ipc_marequest_cancel space name s else Some s);
             s \<leftarrow> entry_clear space name e s;
             p \<leftarrow> ks_ports s port;
             let (nsrequest, mscount, p) =
               (if bits AND MACH_PORT_TYPE_SEND \<noteq> 0 then drop_sright p else (0, 0, p));
             s \<leftarrow> clear_to_limbo port (put_port port p s);
             s \<leftarrow> notify_no_senders nsrequest mscount s;
             map_option (Pair (Inr port)) (notify_port_deleted dnrequest name s)
           })"

definition compat_port_all ::
    "ptr \<Rightarrow> mach_port_t \<Rightarrow> ipc_entry_ptr \<Rightarrow> ipc_entry \<Rightarrow> ipc_state \<Rightarrow> compat_result" where
  "compat_port_all space name e entry s =
     (let bits = ie_bits entry;
          port = ie_object entry
      in if bits AND MACH_PORT_TYPE_RECEIVE = 0 then Some (Inl KERN_INVALID_RIGHT, s)
         else
           do {
             (bits, s) \<leftarrow>
               (if bits AND MACH_PORT_TYPE_SEND = 0 then
                  map_option (Pair (bits OR (MACH_PORT_TYPE_SEND OR 1)))
                    (mod_port port (\<lambda>p. p\<lparr>ip_srights := ip_srights p + 1\<rparr>) s)
                else Some (bits, s));
             s \<leftarrow> hash_insert space port name e s;
             s \<leftarrow> set_entry space e (\<lambda>en. en\<lparr>ie_bits := bits AND NOT MACH_PORT_TYPE_RECEIVE\<rparr>) s;
             s \<leftarrow> clear_to_limbo port s;
             map_option (Pair (Inr port)) (mod_port port ip_reference s)
           })"

definition ipc_right_copyin_compat ::
    "ptr \<Rightarrow> mach_port_t \<Rightarrow> ipc_entry_ptr \<Rightarrow> u32 \<Rightarrow> bool \<Rightarrow> ipc_state \<Rightarrow> compat_result" where
  "ipc_right_copyin_compat space name e msgt_name dealloc s =
     do {
       entry \<leftarrow> get_entry space e s;
       (if msgt_name = MSG_TYPE_PORT then
          if dealloc then compat_port_dealloc space name e entry s else compat_port_copy space name e entry s
        else if msgt_name = MSG_TYPE_PORT_ALL then
          if dealloc then compat_port_all_dealloc space name e entry s else compat_port_all space name e entry s
        else None)
     }"

text \<open>The result has the object and the type of the right.\<close>

definition ipc_right_copyin_header ::
    "ptr \<Rightarrow> mach_port_t \<Rightarrow> ipc_entry_ptr \<Rightarrow> ipc_state \<Rightarrow> ((kern_return + ptr \<times> u32) \<times> ipc_state) option" where
  "ipc_right_copyin_header space name e s =
     do {
       entry \<leftarrow> get_entry space e s;
       let bits = ie_bits entry;
       let type = IE_BITS_TYPE bits;
       let port = ie_object entry;
       let invalid = Inl (if bits AND IE_BITS_COMPAT \<noteq> 0 then KERN_INVALID_NAME else KERN_INVALID_RIGHT);
       (if type = MACH_PORT_TYPE_PORT_SET \<or> type = MACH_PORT_TYPE_DEAD_NAME then Some (Inl KERN_INVALID_RIGHT, s)
        else if type = MACH_PORT_TYPE_RECEIVE then
          map_option (Pair (Inr (port, MACH_MSG_TYPE_PORT_SEND)))
            (mod_port port (\<lambda>p. (ip_reference p)\<lparr>ip_mscount := ip_mscount p + 1, ip_srights := ip_srights p + 1\<rparr>) s)
        else if type = MACH_PORT_TYPE_SEND \<or> type = MACH_PORT_TYPE_SEND_RECEIVE then
          do {
            (dead, s) \<leftarrow> ipc_right_check space port name e s;
            (if dead then Some (invalid, s)
             else
               map_option (Pair (Inr (port, MACH_MSG_TYPE_PORT_SEND)))
                 (mod_port port (\<lambda>p. (ip_reference p)\<lparr>ip_srights := ip_srights p + 1\<rparr>) s))
          }
        else if type = MACH_PORT_TYPE_SEND_ONCE then
          do {
            (dead, s) \<leftarrow> ipc_right_check space port name e s;
            (if dead then Some (invalid, s)
             else
               do {
                 (dnrequest, s) \<leftarrow> ipc_right_dncancel_macro space port name e s;
                 s \<leftarrow> entry_clear space name e s;
                 (notify, s) \<leftarrow> ipc_space_make_notify space s;
                 s \<leftarrow> notify_port_deleted dnrequest name s;
                 s \<leftarrow> (if IO_VALID notify then ipc_notify_port_deleted_compat notify name s else Some s);
                 Some (Inr (port, MACH_MSG_TYPE_PORT_SEND_ONCE), s)
               })
          }
        else None)
     }"

end
