(* ===== verification/Ipc_Post.thy ===== *)
theory Ipc_Post
  imports Ipc_Right
begin

text \<open>
  A small calculus for routines that may not return: \<open>post m Q\<close> says that if \<open>m\<close> returns, its
  result satisfies \<open>Q\<close>.  The collection \<open>post_rules\<close> has one rule for each construct, and one
  for each routine in the form in which \<open>intro\<close> can follow the text of a program.  The rules
  of this theory are for the routines that leave the spaces alone.
\<close>

section \<open>The calculus\<close>

definition post :: "'a option \<Rightarrow> ('a \<Rightarrow> bool) \<Rightarrow> bool" where
  "post m Q \<longleftrightarrow> (\<forall>x. m = Some x \<longrightarrow> Q x)"

named_theorems post_rules \<open>rules that follow the text of a program\<close>

lemma postD: "post m Q \<Longrightarrow> m = Some x \<Longrightarrow> Q x"
  by (simp add: post_def)

lemma post_mono: "post m Q \<Longrightarrow> (\<And>x. Q x \<Longrightarrow> R x) \<Longrightarrow> post m R"
  by (simp add: post_def)

lemma post_bind [post_rules]: "post m (\<lambda>x. post (f x) Q) \<Longrightarrow> post (m \<bind> f) Q"
  by (auto simp: post_def bind_eq_Some_conv)

lemma post_Some [post_rules]: "Q x \<Longrightarrow> post (Some x) Q"
  by (simp add: post_def)

lemma post_None [post_rules]: "post None Q"
  by (simp add: post_def)

lemma post_if [post_rules]: "(b \<Longrightarrow> post m Q) \<Longrightarrow> (\<not> b \<Longrightarrow> post n Q) \<Longrightarrow> post (if b then m else n) Q"
  by simp

lemma post_map [post_rules]: "post m (\<lambda>x. Q (f x)) \<Longrightarrow> post (map_option f m) Q"
  by (auto simp: post_def)

lemma post_Let [post_rules]: "post (f a) Q \<Longrightarrow> post (Let a f) Q"
  by simp

lemma post_Pair [post_rules]: "post (f a b) Q \<Longrightarrow> post (case (a, b) of (x, y) \<Rightarrow> f x y) Q"
  by simp

lemma post_sum [post_rules]:
  "(\<And>a. x = Inl a \<Longrightarrow> post (f a) Q) \<Longrightarrow> (\<And>b. x = Inr b \<Longrightarrow> post (g b) Q) \<Longrightarrow> post (case x of Inl a \<Rightarrow> f a | Inr b \<Rightarrow> g b) Q"
  by (simp split: sum.split)

lemma post_option [post_rules]:
  "(x = None \<Longrightarrow> post m Q) \<Longrightarrow> (\<And>b. x = Some b \<Longrightarrow> post (g b) Q) \<Longrightarrow> post (case x of None \<Rightarrow> m | Some b \<Rightarrow> g b) Q"
  by (simp split: option.split)

text \<open>Reading.\<close>

lemma post_read: "(\<And>x. m = Some x \<Longrightarrow> R x) \<Longrightarrow> post m R"
  by (simp add: post_def)

lemmas [post_rules] = post_read [of "ks_ports s p" for s p] post_read [of "ks_psets s p" for s p] post_read [of "ks_spaces s p" for s p]
  post_read [of "ks_threads s p" for s p] post_read [of "ks_marequests s p" for s p] post_read [of "get_mqueue q s" for q s]
  post_read [of "ith_msize t" for t] post_read [of "receive_too_large t k" for t k] post_read [of "ipc_port_dncancel p n r" for p n r]
  post_read [of "ipc_port_dnrename p r m n" for p r m n]

section \<open>Routines that leave the spaces alone\<close>

abbreviation same_spaces :: "ipc_state \<Rightarrow> ipc_state \<Rightarrow> bool" where
  "same_spaces s s' \<equiv> ks_spaces s' = ks_spaces s"

lemma post_mod_port [post_rules]: "(\<And>s'. same_spaces s s' \<Longrightarrow> R s') \<Longrightarrow> post (mod_port p f s) R"
  by (auto simp: post_def mod_port_def)

lemma post_mod_pset [post_rules]: "(\<And>s'. same_spaces s s' \<Longrightarrow> R s') \<Longrightarrow> post (mod_pset p f s) R"
  by (auto simp: post_def mod_pset_def)

lemma post_mod_thread [post_rules]: "(\<And>s'. same_spaces s s' \<Longrightarrow> R s') \<Longrightarrow> post (mod_thread p f s) R"
  by (auto simp: post_def mod_thread_def)

lemma post_put_mqueue [post_rules]: "(\<And>s'. same_spaces s s' \<Longrightarrow> R s') \<Longrightarrow> post (put_mqueue q mq s) R"
  by (cases q) (auto intro!: post_rules)

lemma post_ip_check [post_rules]: "(\<And>s'. same_spaces s s' \<Longrightarrow> R s') \<Longrightarrow> post (ip_check_unlock p s) R"
  by (auto simp: post_def ip_check_unlock_def)

lemma post_ips_check [post_rules]: "(\<And>s'. same_spaces s s' \<Longrightarrow> R s') \<Longrightarrow> post (ips_check_unlock p s) R"
  by (auto simp: post_def ips_check_unlock_def)

lemma post_object_release [post_rules]: "(\<And>s'. same_spaces s s' \<Longrightarrow> R s') \<Longrightarrow> post (ipc_object_release p s) R"
  unfolding ipc_object_release_def by (intro post_rules) simp_all

lemma post_release_sonce [post_rules]: "(\<And>s'. same_spaces s s' \<Longrightarrow> R s') \<Longrightarrow> post (ipc_port_release_sonce p s) R"
  unfolding ipc_port_release_sonce_def by (intro post_rules) simp_all

lemma post_changed_loop [post_rules]: "(\<And>s'. same_spaces s s' \<Longrightarrow> R s') \<Longrightarrow> post (changed_loop mr ths s) R"
  by (induction ths arbitrary: s) (auto intro!: post_rules)

lemma post_wake_senders [post_rules]: "(\<And>s'. same_spaces s s' \<Longrightarrow> R s') \<Longrightarrow> post (wake_senders ths s) R"
  by (induction ths arbitrary: s) (auto intro!: post_rules)

lemma post_changed [post_rules]: "(\<And>s'. same_spaces s s' \<Longrightarrow> R s') \<Longrightarrow> post (ipc_mqueue_changed q mr s) R"
  unfolding ipc_mqueue_changed_def by (intro post_rules) simp_all

lemma post_hand_over [post_rules]: "(\<And>s'. same_spaces s s' \<Longrightarrow> R s') \<Longrightarrow> post (hand_over go th mr k p s) R"
  unfolding hand_over_def by (intro post_rules) simp_all

lemma post_turn_away [post_rules]: "(\<And>s'. same_spaces s s' \<Longrightarrow> R s') \<Longrightarrow> post (turn_away th mr sz s) R"
  unfolding turn_away_def by (intro post_rules) simp_all

lemma zalloc_spaces [simp]: "zalloc s = (p, s') \<Longrightarrow> ks_spaces s' = ks_spaces s"
  using zalloc_sel(4) [of s] by simp

lemma post_zalloc [post_rules]:
  "(\<And>a s'. same_spaces s s' \<Longrightarrow> post (f a s') Q) \<Longrightarrow> post (case zalloc s of (a, s) \<Rightarrow> f a s) Q"
  using zalloc_sel(4) [of s] by (simp add: case_prod_unfold)

lemma post_check_scatter [post_rules]:
  "(\<And>mr l s'. same_spaces s s' \<Longrightarrow> R (mr, l, s')) \<Longrightarrow> post (ipc_kmsg_check_scatter k opt l s) R"
  unfolding ipc_kmsg_check_scatter_def
  by (intro post_rules post_read [of "kmsg_descriptors k" for k]) (auto split: check_result.split bool.split intro!: post_rules)

lemma post_move_old [post_rules]:
  "(\<And>b ths' s'. same_spaces s s' \<Longrightarrow> R (b, ths', s')) \<Longrightarrow> post (move_old k p ths s) R"
proof (induction ths arbitrary: s)
  case (Cons th ths)
  show ?case unfolding move_old.simps by (intro post_rules Cons.IH) (auto intro: Cons.prems)
qed (auto intro: post_rules)

lemma post_move_new [post_rules]:
  "(\<And>b ths' s'. same_spaces s s' \<Longrightarrow> R (b, ths', s')) \<Longrightarrow> post (move_new k p ths s) R"
proof (induction ths arbitrary: s)
  case (Cons th ths)
  show ?case unfolding move_new.simps by (intro post_rules Cons.IH) (auto intro: Cons.prems)
qed (auto intro: post_rules)

lemma post_move_receiver [post_rules]:
  "(\<And>b ths' s'. same_spaces s s' \<Longrightarrow> R (b, ths', s')) \<Longrightarrow> post (move_receiver k p ths s) R"
  unfolding move_receiver_def by (simp add: post_move_old post_move_new)

lemma post_move_loop [post_rules]:
  "(\<And>q d s'. same_spaces s s' \<Longrightarrow> R (q, d, s')) \<Longrightarrow> post (move_loop p ks dest s) R"
proof (induction ks arbitrary: dest s R)
  case (Cons k ks)
  show ?case unfolding move_loop.simps by (intro post_rules Cons.IH) (auto intro: Cons.prems)
qed (auto intro: post_rules)

lemma post_mqueue_move [post_rules]: "(\<And>s'. same_spaces s s' \<Longrightarrow> R s') \<Longrightarrow> post (ipc_mqueue_move d q p s) R"
  unfolding ipc_mqueue_move_def by (intro post_rules) simp_all

lemma post_pset_remove [post_rules]: "(\<And>s'. same_spaces s s' \<Longrightarrow> R s') \<Longrightarrow> post (ipc_pset_remove ps p s) R"
  unfolding ipc_pset_remove_def by (intro post_rules) simp_all

lemma post_pset_destroy [post_rules]: "(\<And>s'. same_spaces s s' \<Longrightarrow> R s') \<Longrightarrow> post (ipc_pset_destroy ps s) R"
  unfolding ipc_pset_destroy_def by (intro post_rules) simp_all

lemma post_clear_receiver [post_rules]: "(\<And>s'. same_spaces s s' \<Longrightarrow> R s') \<Longrightarrow> post (ipc_port_clear_receiver p s) R"
  unfolding ipc_port_clear_receiver_def by (intro post_rules) simp_all

lemma post_clear_to_limbo [post_rules]: "(\<And>s'. same_spaces s s' \<Longrightarrow> R s') \<Longrightarrow> post (clear_to_limbo p s) R"
  unfolding clear_to_limbo_def by (intro post_rules) simp_all

lemma post_copy_send [post_rules]: "(\<And>r s'. same_spaces s s' \<Longrightarrow> R (r, s')) \<Longrightarrow> post (ipc_port_copy_send p s) R"
  by (auto simp: ipc_port_copy_send_def intro!: post_rules)

lemma post_make_notify [post_rules]: "(\<And>r s'. same_spaces s s' \<Longrightarrow> R (r, s')) \<Longrightarrow> post (ipc_space_make_notify sp s) R"
  unfolding ipc_space_make_notify_def by (intro post_rules) simp_all

section \<open>Notifications\<close>

lemmas notify_defs = ipc_notify_port_deleted_def ipc_notify_no_senders_def ipc_notify_send_once_def ipc_notify_dead_name_def
  ipc_mqueue_send_always_def

lemma post_notify [post_rules]:
  "(\<And>s'. same_spaces s s' \<Longrightarrow> R s') \<Longrightarrow> post (ipc_notify_port_deleted p n s) R"
  "(\<And>s'. same_spaces s s' \<Longrightarrow> R s') \<Longrightarrow> post (ipc_notify_no_senders p m s) R"
  "(\<And>s'. same_spaces s s' \<Longrightarrow> R s') \<Longrightarrow> post (ipc_notify_send_once p s) R"
  "(\<And>s'. same_spaces s s' \<Longrightarrow> R s') \<Longrightarrow> post (ipc_notify_dead_name p n s) R"
  unfolding notify_defs by (intro post_rules; simp)+

lemma post_no_senders [post_rules]: "(\<And>s'. same_spaces s s' \<Longrightarrow> R s') \<Longrightarrow> post (notify_no_senders p m s) R"
  unfolding notify_no_senders_def by (intro post_rules) simp_all

lemma post_notify_deleted [post_rules]: "(\<And>s'. same_spaces s s' \<Longrightarrow> R s') \<Longrightarrow> post (notify_port_deleted p n s) R"
  unfolding notify_port_deleted_def by (intro post_rules) simp_all

lemma post_drop_sright [post_rules]: "(\<And>a b q. post (f a b q) Q) \<Longrightarrow> post (case drop_sright p of (a, b, q) \<Rightarrow> f a b q) Q"
  by (simp add: case_prod_unfold)

lemma post_release_send [post_rules]: "(\<And>s'. same_spaces s s' \<Longrightarrow> R s') \<Longrightarrow> post (ipc_port_release_send p s) R"
  unfolding ipc_port_release_send_def by (intro post_rules) simp_all

lemma post_notify_compat [post_rules]:
  "(\<And>s'. same_spaces s s' \<Longrightarrow> R s') \<Longrightarrow> post (ipc_notify_port_deleted_compat p n s) R"
  "(\<And>s'. same_spaces s s' \<Longrightarrow> R s') \<Longrightarrow> post (ipc_notify_msg_accepted_compat p n s) R"
  unfolding ipc_notify_port_deleted_compat_def ipc_notify_msg_accepted_compat_def ipc_mqueue_send_always_def
  by (intro post_rules; simp)+

section \<open>Msg-accepted requests\<close>

lemma imar_spaces [simp]:
  "ks_spaces (imar_put m r s) = ks_spaces s" "ks_spaces (imar_link sp n m s) = ks_spaces s" "ks_spaces (imar_free m s) = ks_spaces s"
  by (simp_all add: imar_put_def imar_link_def imar_free_def Let_def)

lemma post_unlink [post_rules]: "(\<And>m s'. same_spaces s s' \<Longrightarrow> R (m, s')) \<Longrightarrow> post (imar_unlink sp n s) R"
  by (auto simp: imar_unlink_def Let_def post_def split: option.splits)

lemma post_marequest_cancel [post_rules]: "(\<And>s'. same_spaces s s' \<Longrightarrow> R s') \<Longrightarrow> post (ipc_marequest_cancel sp n s) R"
  unfolding ipc_marequest_cancel_def by (intro post_rules) simp_all

lemma post_marequest_rename [post_rules]: "(\<And>s'. same_spaces s s' \<Longrightarrow> R s') \<Longrightarrow> post (ipc_marequest_rename sp m n s) R"
  unfolding ipc_marequest_rename_def by (intro post_rules) simp_all

end
