(* ===== verification/Ipc_Typed.thy ===== *)
theory Ipc_Typed
  imports Ipc_Post Ipc_Dealloc
begin

text \<open>
  The rights of a space stay well typed: every entry has one of the types of rights, with a
  number of user references that fits the type, and no count of user references runs over
  into the type.  The routines of \<^verbatim>\<open>src/ipc/ipc_right.c\<close> and the destruction of ports keep this
  for all spaces.
\<close>

section \<open>Rights in bits\<close>

definition right_ok :: "u32 \<Rightarrow> bool" where
  "right_ok bits \<longleftrightarrow>
     (let type = IE_BITS_TYPE bits;
          urefs = IE_BITS_UREFS bits
      in type = MACH_PORT_TYPE_NONE \<or>
         (type = MACH_PORT_TYPE_SEND \<or> type = MACH_PORT_TYPE_SEND_RECEIVE) \<and> 0 < urefs \<and> urefs < MACH_PORT_UREFS_MAX \<or>
         (type = MACH_PORT_TYPE_RECEIVE \<or> type = MACH_PORT_TYPE_PORT_SET) \<and> urefs = 0 \<or>
         type = MACH_PORT_TYPE_SEND_ONCE \<and> urefs = 1 \<or>
         type = MACH_PORT_TYPE_DEAD_NAME \<and> 0 < urefs)"

named_theorems right_bits \<open>tests on types as single bits\<close>

lemma word_bit_iff: "(a :: u32) = b \<longleftrightarrow> (\<forall>n. bit a n = bit b n)"
  by (auto intro: bit_eqI)

lemma or_eq_0_iff: "a OR b = 0 \<longleftrightarrow> a = 0 \<and> (b :: u32) = 0"
  by (auto simp: word_bit_iff bit_simps)

lemma and_flag [right_bits]:
  "b AND MACH_PORT_TYPE_SEND = 0 \<longleftrightarrow> \<not> bit b 16" "b AND MACH_PORT_TYPE_RECEIVE = 0 \<longleftrightarrow> \<not> bit b 17"
  "b AND MACH_PORT_TYPE_SEND_ONCE = 0 \<longleftrightarrow> \<not> bit b 18" "b AND MACH_PORT_TYPE_PORT_SET = 0 \<longleftrightarrow> \<not> bit b 19"
  "b AND MACH_PORT_TYPE_DEAD_NAME = 0 \<longleftrightarrow> \<not> bit b 20" "b AND MACH_PORT_TYPE_SEND_RIGHTS = 0 \<longleftrightarrow> \<not> bit b 16 \<and> \<not> bit b 18"
  "b AND MACH_PORT_TYPE_SEND_RECEIVE = 0 \<longleftrightarrow> \<not> bit b 16 \<and> \<not> bit b 17"
  "b AND MACH_PORT_TYPE_PORT_RIGHTS = 0 \<longleftrightarrow> \<not> bit b 16 \<and> \<not> bit b 17 \<and> \<not> bit b 18"
  by (auto simp: MACH_PORT_TYPE_SEND_def MACH_PORT_TYPE_RECEIVE_def MACH_PORT_TYPE_SEND_ONCE_def MACH_PORT_TYPE_PORT_SET_def
      MACH_PORT_TYPE_DEAD_NAME_def MACH_PORT_TYPE_SEND_RIGHTS_def MACH_PORT_TYPE_SEND_RECEIVE_def MACH_PORT_TYPE_PORT_RIGHTS_def
      bit_iff_and_push_bit_not_eq_0 bit.conj_disj_distrib or_eq_0_iff simp del: push_bit_of_1 push_bit_numeral)

lemma five: "(\<forall>n::nat. 16 \<le> n \<and> n < 21 \<longrightarrow> P n) \<longleftrightarrow> P 16 \<and> P 17 \<and> P 18 \<and> P 19 \<and> P 20"
  by (auto simp: numeral_eq_Suc less_Suc_eq_le le_Suc_eq)

lemma TYPE_eq_iff:
  assumes "t AND IE_BITS_TYPE_MASK = t"
  shows "IE_BITS_TYPE b = t \<longleftrightarrow> (bit b 16 = bit t 16) \<and> (bit b 17 = bit t 17) \<and> (bit b 18 = bit t 18) \<and>
    (bit b 19 = bit t 19) \<and> (bit b 20 = bit t 20)"
proof -
  have t: "bit t n \<Longrightarrow> 16 \<le> n \<and> n < 21" for n
    using arg_cong [OF assms, of "\<lambda>w. bit w n"] by (auto simp: bit_simps mask_bits)
  have "IE_BITS_TYPE b = t \<longleftrightarrow> (\<forall>n. 16 \<le> n \<and> n < 21 \<longrightarrow> bit b n = bit t n)"
    unfolding field_defs word_bit_iff using t by (auto simp: bit_simps mask_bits)
  then show ?thesis unfolding five .
qed

lemma type_is [right_bits]:
  "IE_BITS_TYPE b = MACH_PORT_TYPE_NONE \<longleftrightarrow> \<not> bit b 16 \<and> \<not> bit b 17 \<and> \<not> bit b 18 \<and> \<not> bit b 19 \<and> \<not> bit b 20"
  "IE_BITS_TYPE b = MACH_PORT_TYPE_SEND \<longleftrightarrow> bit b 16 \<and> \<not> bit b 17 \<and> \<not> bit b 18 \<and> \<not> bit b 19 \<and> \<not> bit b 20"
  "IE_BITS_TYPE b = MACH_PORT_TYPE_RECEIVE \<longleftrightarrow> \<not> bit b 16 \<and> bit b 17 \<and> \<not> bit b 18 \<and> \<not> bit b 19 \<and> \<not> bit b 20"
  "IE_BITS_TYPE b = MACH_PORT_TYPE_SEND_RECEIVE \<longleftrightarrow> bit b 16 \<and> bit b 17 \<and> \<not> bit b 18 \<and> \<not> bit b 19 \<and> \<not> bit b 20"
  "IE_BITS_TYPE b = MACH_PORT_TYPE_SEND_ONCE \<longleftrightarrow> \<not> bit b 16 \<and> \<not> bit b 17 \<and> bit b 18 \<and> \<not> bit b 19 \<and> \<not> bit b 20"
  "IE_BITS_TYPE b = MACH_PORT_TYPE_PORT_SET \<longleftrightarrow> \<not> bit b 16 \<and> \<not> bit b 17 \<and> \<not> bit b 18 \<and> bit b 19 \<and> \<not> bit b 20"
  "IE_BITS_TYPE b = MACH_PORT_TYPE_DEAD_NAME \<longleftrightarrow> \<not> bit b 16 \<and> \<not> bit b 17 \<and> \<not> bit b 18 \<and> \<not> bit b 19 \<and> bit b 20"
proof -
  have m: "MACH_PORT_TYPE_NONE AND IE_BITS_TYPE_MASK = MACH_PORT_TYPE_NONE"
    "MACH_PORT_TYPE_SEND AND IE_BITS_TYPE_MASK = MACH_PORT_TYPE_SEND"
    "MACH_PORT_TYPE_RECEIVE AND IE_BITS_TYPE_MASK = MACH_PORT_TYPE_RECEIVE"
    "MACH_PORT_TYPE_SEND_RECEIVE AND IE_BITS_TYPE_MASK = MACH_PORT_TYPE_SEND_RECEIVE"
    "MACH_PORT_TYPE_SEND_ONCE AND IE_BITS_TYPE_MASK = MACH_PORT_TYPE_SEND_ONCE"
    "MACH_PORT_TYPE_PORT_SET AND IE_BITS_TYPE_MASK = MACH_PORT_TYPE_PORT_SET"
    "MACH_PORT_TYPE_DEAD_NAME AND IE_BITS_TYPE_MASK = MACH_PORT_TYPE_DEAD_NAME"
    by (auto intro!: bit_word_eqI simp: bit_simps mask_bits MACH_PORT_TYPE_SEND_RECEIVE_def MACH_PORT_TYPE_NONE_def)
  note e = m [THEN TYPE_eq_iff, of b]
  show "IE_BITS_TYPE b = MACH_PORT_TYPE_NONE \<longleftrightarrow> \<not> bit b 16 \<and> \<not> bit b 17 \<and> \<not> bit b 18 \<and> \<not> bit b 19 \<and> \<not> bit b 20"
    "IE_BITS_TYPE b = MACH_PORT_TYPE_SEND \<longleftrightarrow> bit b 16 \<and> \<not> bit b 17 \<and> \<not> bit b 18 \<and> \<not> bit b 19 \<and> \<not> bit b 20"
    "IE_BITS_TYPE b = MACH_PORT_TYPE_RECEIVE \<longleftrightarrow> \<not> bit b 16 \<and> bit b 17 \<and> \<not> bit b 18 \<and> \<not> bit b 19 \<and> \<not> bit b 20"
    "IE_BITS_TYPE b = MACH_PORT_TYPE_SEND_RECEIVE \<longleftrightarrow> bit b 16 \<and> bit b 17 \<and> \<not> bit b 18 \<and> \<not> bit b 19 \<and> \<not> bit b 20"
    "IE_BITS_TYPE b = MACH_PORT_TYPE_SEND_ONCE \<longleftrightarrow> \<not> bit b 16 \<and> \<not> bit b 17 \<and> bit b 18 \<and> \<not> bit b 19 \<and> \<not> bit b 20"
    "IE_BITS_TYPE b = MACH_PORT_TYPE_PORT_SET \<longleftrightarrow> \<not> bit b 16 \<and> \<not> bit b 17 \<and> \<not> bit b 18 \<and> bit b 19 \<and> \<not> bit b 20"
    "IE_BITS_TYPE b = MACH_PORT_TYPE_DEAD_NAME \<longleftrightarrow> \<not> bit b 16 \<and> \<not> bit b 17 \<and> \<not> bit b 18 \<and> \<not> bit b 19 \<and> bit b 20"
    unfolding e by (auto simp: MACH_PORT_TYPE_SEND_RECEIVE_def MACH_PORT_TYPE_NONE_def bit_simps mask_bits)
qed

text \<open>The user references are the low half of the bits.\<close>

lemma UREFS_take_bit: "IE_BITS_UREFS b = take_bit 16 b"
  by (simp add: IE_BITS_UREFS_def UREFS_MASK_eq take_bit_eq_mask)

definition urefs :: "u32 \<Rightarrow> nat" where
  "urefs b = unat (IE_BITS_UREFS b)"

lemma urefs_mod: "urefs b = unat b mod 2 ^ 16"
  unfolding urefs_def UREFS_take_bit unsigned_take_bit_eq by (rule take_bit_eq_mod)

lemma urefs_less: "urefs b < 2 ^ 16"
  by (simp add: urefs_mod)

lemma UREFS_is [right_bits]:
  "IE_BITS_UREFS b = 0 \<longleftrightarrow> urefs b = 0" "IE_BITS_UREFS b = 1 \<longleftrightarrow> urefs b = 1" "IE_BITS_UREFS b = 2 \<longleftrightarrow> urefs b = 2"
  "0 < IE_BITS_UREFS b \<longleftrightarrow> 0 < urefs b" "IE_BITS_UREFS b < MACH_PORT_UREFS_MAX \<longleftrightarrow> urefs b < 2 ^ 16 - 1"
  "IE_BITS_UREFS b < 2 \<longleftrightarrow> urefs b < 2"
  by (simp_all add: urefs_def word_less_nat_alt unat_eq_nat_uint [symmetric] word_unat_eq_iff MACH_PORT_UREFS_MAX_def)

lemma right_ok_iff:
  "right_ok b \<longleftrightarrow>
     \<not> bit b 16 \<and> \<not> bit b 17 \<and> \<not> bit b 18 \<and> \<not> bit b 19 \<and> \<not> bit b 20 \<or>
     bit b 16 \<and> \<not> bit b 18 \<and> \<not> bit b 19 \<and> \<not> bit b 20 \<and> 0 < urefs b \<and> urefs b < 2 ^ 16 - 1 \<or>
     \<not> bit b 16 \<and> bit b 17 \<and> \<not> bit b 18 \<and> \<not> bit b 19 \<and> \<not> bit b 20 \<and> urefs b = 0 \<or>
     \<not> bit b 16 \<and> \<not> bit b 17 \<and> \<not> bit b 18 \<and> bit b 19 \<and> \<not> bit b 20 \<and> urefs b = 0 \<or>
     \<not> bit b 16 \<and> \<not> bit b 17 \<and> bit b 18 \<and> \<not> bit b 19 \<and> \<not> bit b 20 \<and> urefs b = 1 \<or>
     \<not> bit b 16 \<and> \<not> bit b 17 \<and> \<not> bit b 18 \<and> \<not> bit b 19 \<and> bit b 20 \<and> 0 < urefs b"
  unfolding right_ok_def Let_def by (auto simp: right_bits)

text \<open>Adding to the user references keeps the other bits as long as the sum fits.\<close>

lemma bit_high: "16 \<le> n \<Longrightarrow> bit (b :: u32) n \<longleftrightarrow> bit (unat b div 2 ^ 16) (n - 16)"
  unfolding drop_bit_eq_div [symmetric] bit_drop_bit_eq comp_def by (simp add: bit_unat)

lemma add_urefs:
  assumes "0 \<le> int (urefs b) + sint d" "int (urefs b) + sint d < 2 ^ 16"
  shows "int (urefs (b + d)) = int (urefs b) + sint d" "16 \<le> n \<Longrightarrow> bit (b + d) n \<longleftrightarrow> bit b n"
proof -
  define q where "q = unat b div 2 ^ 16"
  have "unat b < 2 ^ LENGTH(32)" by (rule unsigned_less)
  then have q: "q < 2 ^ 16" by (simp add: q_def less_mult_imp_div_less)
  have "unat b = 2 ^ 16 * q + urefs b" by (simp add: q_def urefs_mod)
  from arg_cong [OF this, of int] have "int (unat b) = 2 ^ 16 * int q + int (urefs b)" by simp
  then have s: "int (unat b) + sint d = 2 ^ 16 * int q + (int (urefs b) + sint d)" by simp
  have "int (unat (b + d)) = (int (unat b) + sint d) mod 2 ^ 32"
  proof -
    have e: "word_of_int (uint b + sint d) = b + d" by simp
    have "uint (word_of_int (uint b + sint d) :: u32) = (uint b + sint d) mod 2 ^ LENGTH(32)" by (rule uint_word_of_int)
    then show ?thesis unfolding e by simp
  qed
  also have "\<dots> = 2 ^ 16 * int q + (int (urefs b) + sint d)"
    unfolding s by (rule mod_pos_pos_trivial) (use assms q in simp_all)
  finally have e: "int (unat (b + d)) = 2 ^ 16 * int q + (int (urefs b) + sint d)" .
  show "int (urefs (b + d)) = int (urefs b) + sint d"
    unfolding urefs_mod [of "b + d"] using assms e by (simp add: zmod_int)
  have "int (unat (b + d) div 2 ^ 16) = int q"
    unfolding of_nat_div e using assms by (simp add: div_pos_pos_trivial)
  then have "unat (b + d) div 2 ^ 16 = q" by simp
  then show "16 \<le> n \<Longrightarrow> bit (b + d) n \<longleftrightarrow> bit b n" unfolding bit_high q_def by simp
qed

lemma add_1:
  assumes "urefs b < 2 ^ 16 - 1"
  shows "urefs (b + 1) = urefs b + 1" "16 \<le> n \<Longrightarrow> bit (b + 1) n \<longleftrightarrow> bit b n"
  using add_urefs [of b 1] assms by simp_all

lemma minus_1:
  assumes "0 < urefs b"
  shows "urefs (b - 1) = urefs b - 1" "16 \<le> n \<Longrightarrow> bit (b - 1) n \<longleftrightarrow> bit b n"
  using add_urefs [of b "- 1"] assms urefs_less [of b] by simp_all

lemma minus_2:
  assumes "1 < urefs b"
  shows "urefs (b - 2) = urefs b - 2" "16 \<le> n \<Longrightarrow> bit (b - 2) n \<longleftrightarrow> bit b n"
  using add_urefs [of b "- 2"] assms urefs_less [of b] by simp_all

section \<open>Well-typed spaces\<close>

text \<open>Everything that a routine needs to know of the entries: the structure of the tree, the size of the table, and the rights.\<close>

definition space_ok :: "ipc_space \<Rightarrow> bool" where
  "space_ok is \<longleftrightarrow>
     is_table_size is = length (is_table is) \<and> ist_inv (is_tree is) \<and>
     (\<forall>x\<in>set (is_table is). right_ok (ie_bits x)) \<and>
     (\<forall>y\<in>set (ist_inorder (is_tree is)). right_ok (ie_bits (ite_entry y)))"

definition typed :: "ipc_state \<Rightarrow> bool" where
  "typed s \<longleftrightarrow> (\<forall>sp is. ks_spaces s sp = Some is \<longrightarrow> space_ok is)"

text \<open>An entry pointer belongs to a name: it is the table entry of its index, or the tree entry of the name.\<close>

definition ptr_ok :: "ipc_space \<Rightarrow> mach_port_t \<Rightarrow> ipc_entry_ptr \<Rightarrow> bool" where
  "ptr_ok is name e \<longleftrightarrow>
     e = TableEntry (MACH_PORT_INDEX name) \<and> MACH_PORT_INDEX name < length (is_table is) \<or>
     e = TreeEntry name \<and> name \<in> tree_names is"

definition live :: "ptr \<Rightarrow> (mach_port_t \<times> ipc_entry_ptr) set \<Rightarrow> ipc_state \<Rightarrow> bool" where
  "live sp ps s \<longleftrightarrow> typed s \<and> (\<forall>is. ks_spaces s sp = Some is \<longrightarrow> (\<forall>(name, e)\<in>ps. ptr_ok is name e))"

lemma live_same: "same_spaces s s' \<Longrightarrow> live sp ps s' \<longleftrightarrow> live sp ps s"
  by (simp add: live_def typed_def)

lemma live_empty [simp]: "live sp {} s \<longleftrightarrow> typed s"
  by (simp add: live_def)

lemma live_typed: "live sp ps s \<Longrightarrow> typed s"
  by (simp add: live_def)

lemma live_subset: "live sp ps s \<Longrightarrow> qs \<subseteq> ps \<Longrightarrow> live sp qs s"
  unfolding live_def by blast

text \<open>Changing one space.\<close>

lemma live_put_space:
  assumes "live sp ps s" "ks_spaces s sp = Some is" "space_ok is'" "\<And>name e. (name, e) \<in> qs \<Longrightarrow> ptr_ok is' name e"
  shows "live sp qs (put_space sp is' s)"
  using assms by (auto simp: live_def typed_def)

lemma live_space: "live sp ps s \<Longrightarrow> ks_spaces s sp = Some is \<Longrightarrow> space_ok is"
  by (auto simp: live_def typed_def)

lemma live_ptr: "live sp ps s \<Longrightarrow> ks_spaces s sp = Some is \<Longrightarrow> (name, e) \<in> ps \<Longrightarrow> ptr_ok is name e"
  by (auto simp: live_def)

lemma entry_at_right:
  assumes "space_ok is" "entry_at is e = Some x"
  shows "right_ok (ie_bits x)"
  using assms tree_find_set(1) [of "is_tree is"]
  by (cases e) (fastforce simp: space_ok_def split: if_splits)+

lemma post_get_entry [post_rules]:
  assumes "live sp ps s" "\<And>x. get_entry sp e s = Some x \<Longrightarrow> right_ok (ie_bits x) \<Longrightarrow> R x"
  shows "post (get_entry sp e s) R"
  using assms entry_at_right live_space [OF assms(1)] by (auto simp: post_def get_entry_def bind_eq_Some_conv)

lemma entry_update_ok:
  assumes "space_ok is" "\<And>x. entry_at is e = Some x \<Longrightarrow> right_ok (ie_bits x) \<Longrightarrow> right_ok (ie_bits (f x))"
  shows "space_ok (entry_update is e f)" "ptr_ok (entry_update is e f) = ptr_ok is"
proof -
  show "ptr_ok (entry_update is e f) = ptr_ok is"
    by (cases e) (auto simp: ptr_ok_def fun_eq_iff image_image)
  show "space_ok (entry_update is e f)"
  proof (cases e)
    case (TableEntry i)
    have "right_ok (ie_bits x)" if "x \<in> set ((is_table is)[i := f (is_table is ! i)])" for x
    proof (cases "i < length (is_table is)")
      case True
      then have "right_ok (ie_bits (f (is_table is ! i)))"
        using assms TableEntry by (auto simp: space_ok_def)
      then show ?thesis using that set_update_subset_insert [of "is_table is" i] assms(1) by (auto simp: space_ok_def)
    qed (use that assms(1) in \<open>simp add: space_ok_def list_update_beyond\<close>)
    then show ?thesis using assms(1) TableEntry by (simp add: space_ok_def)
  next
    case (TreeEntry n)
    have "right_ok (ie_bits (ite_entry (ite_modify n f y)))" if y: "y \<in> set (ist_inorder (is_tree is))" for y
    proof (cases "ite_name y = n")
      case True
      then have "tree_find (is_tree is) n = Some y" using tree_find_iff y assms(1) by (auto simp: space_ok_def)
      then show ?thesis using True assms y TreeEntry by (auto simp: ite_modify_def space_ok_def)
    qed (use y assms(1) in \<open>auto simp: ite_modify_def space_ok_def\<close>)
    then show ?thesis using assms(1) TreeEntry by (simp add: space_ok_def)
  qed
qed

lemma entry_at_update: "entry_at is e = Some x \<Longrightarrow> entry_at (entry_update is e f) e = Some (f x)"
proof (cases e)
  case (TreeEntry n)
  assume "entry_at is e = Some x"
  then obtain y where "tree_find (is_tree is) n = Some y" "x = ite_entry y" using TreeEntry by auto
  then show ?thesis using tree_find_set(1) [of "is_tree is" n y] TreeEntry by (simp add: ite_modify_def)
qed (auto split: if_splits)

lemma post_set_entry [post_rules]:
  assumes "live sp ps s" "\<And>x. get_entry sp e s = Some x \<Longrightarrow> right_ok (ie_bits x) \<Longrightarrow> right_ok (ie_bits (f x))"
    "\<And>s'. live sp ps s' \<Longrightarrow> (\<And>x. get_entry sp e s = Some x \<Longrightarrow> get_entry sp e s' = Some (f x)) \<Longrightarrow> R s'"
  shows "post (set_entry sp e f s) R"
proof (rule post_read)
  fix s' assume "set_entry sp e f s = Some s'"
  then obtain w where w: "ks_spaces s sp = Some w" "s' = put_space sp (entry_update w e f) s"
    by (auto simp: set_entry_def)
  have u: "space_ok (entry_update w e f)" "ptr_ok (entry_update w e f) = ptr_ok w"
    by (rule entry_update_ok [OF live_space [OF assms(1) w(1)]]; use assms(2) w(1) in \<open>simp add: get_entry_def\<close>)+
  have "live sp ps s'" unfolding w(2)
    by (rule live_put_space [OF assms(1) w(1) u(1)]) (use u(2) live_ptr [OF assms(1) w(1)] in simp)
  moreover have "get_entry sp e s' = Some (f x)" if "get_entry sp e s = Some x" for x
    using that w entry_at_update [of w e x f] by (simp add: get_entry_def)
  ultimately show "R s'" by (rule assms(3))
qed

text \<open>The hash operations only touch the index fields and the count of hashed entries.\<close>

lemma close_loop_same: "ipc_hash_local_close_loop fuel T sz h d = Some T' \<Longrightarrow> same_entries T T'"
  by (induction fuel arbitrary: T h d) (auto simp: Let_def split: if_splits intro: same_entries_trans [OF same_entries_set_index])

definition rehashed :: "ipc_space \<Rightarrow> ipc_space \<Rightarrow> bool" where
  "rehashed is is' \<longleftrightarrow>
     same_entries (is_table is) (is_table is') \<and> is_table_size is' = is_table_size is \<and> is_tree is' = is_tree is"

lemma hash_insert_rehashed: "ipc_hash_insert h sp is obj name e = Some (h', is') \<Longrightarrow> rehashed is is'"
  by (auto simp: ipc_hash_insert_def ipc_hash_local_insert_def ipc_hash_global_insert_def rehashed_def Let_def bind_eq_Some_conv
      split: if_splits)

lemma hash_delete_rehashed: "ipc_hash_delete h sp is obj name e = Some (h', is') \<Longrightarrow> rehashed is is'"
  by (auto simp: ipc_hash_delete_def ipc_hash_local_delete_def ipc_hash_global_delete_def rehashed_def Let_def bind_eq_Some_conv
      split: if_splits dest: close_loop_same)

lemma rehashed_ok:
  assumes "rehashed is is'"
  shows "space_ok is \<Longrightarrow> space_ok is'" "ptr_ok is' = ptr_ok is"
proof -
  have len: "length (is_table is') = length (is_table is)" using assms same_entries_length by (auto simp: rehashed_def)
  have bits: "ie_bits (is_table is' ! i) = ie_bits (is_table is ! i)" if "i < length (is_table is)" for i
    using same_entries_nth(1) assms that by (auto simp: rehashed_def)
  show "space_ok is \<Longrightarrow> space_ok is'"
    using assms bits by (auto simp: space_ok_def rehashed_def len all_set_conv_all_nth)
  show "ptr_ok is' = ptr_ok is" using assms by (auto simp: ptr_ok_def fun_eq_iff rehashed_def len)
qed

lemma live_hash:
  assumes "live sp ps s" "ks_spaces s sp = Some is" "rehashed is is'"
  shows "live sp ps (put_space sp is' (s\<lparr>ks_hash := h\<rparr>))"
proof -
  have l: "live sp ps (s\<lparr>ks_hash := h\<rparr>)" using assms(1) live_same [of s "s\<lparr>ks_hash := h\<rparr>"] by simp
  show ?thesis
    by (rule live_put_space [OF l]) (use assms rehashed_ok live_space live_ptr in auto)
qed

lemma post_hash_insert [post_rules]:
  assumes "live sp ps s" "\<And>s'. live sp ps s' \<Longrightarrow> R s'"
  shows "post (hash_insert sp obj name e s) R"
  using assms(2) live_hash [OF assms(1)] hash_insert_rehashed
  by (fastforce simp: post_def hash_insert_def bind_eq_Some_conv)

lemma post_hash_delete [post_rules]:
  assumes "live sp ps s" "\<And>s'. live sp ps s' \<Longrightarrow> R s'"
  shows "post (hash_delete sp obj name e s) R"
  using assms(2) live_hash [OF assms(1)] hash_delete_rehashed
  by (fastforce simp: post_def hash_delete_def bind_eq_Some_conv)

lemma post_space_release [post_rules]:
  assumes "live sp ps s" "\<And>s'. live sp ps s' \<Longrightarrow> R s'"
  shows "post (space_release sp' s) R"
proof (rule post_read)
  fix s' assume "space_release sp' s = Some s'"
  then obtain w where w: "ks_spaces s sp' = Some w" "ks_spaces s' = (ks_spaces s)(sp' := ipc_space_release w)"
    by (auto simp: space_release_def)
  have "space_ok w" using assms(1) w(1) by (auto simp: live_def typed_def)
  then have "space_ok w' \<and> ptr_ok w' = ptr_ok w" if "ipc_space_release w = Some w'" for w'
    using that by (auto simp: ipc_space_release_def Let_def space_ok_def ptr_ok_def fun_eq_iff split: if_splits)
  then have "live sp ps s'"
    using assms(1) w unfolding live_def typed_def by (auto split: if_splits)
  then show "R s'" by (rule assms(2))
qed

text \<open>Looking up gives a pointer that belongs to the name.\<close>

lemma tree_lookup_ok:
  assumes "space_ok is" "ipc_entry_tree_lookup is name = (e, is')"
  shows "space_ok is'" "e = Some p \<Longrightarrow> ptr_ok is' name p"
proof -
  obtain r t' where l: "ipc_splay_tree_lookup (is_tree is) name = (r, t')" by fastforce
  have inv: "ist_inv (is_tree is)" using assms(1) by (simp add: space_ok_def)
  note c = ipc_splay_tree_lookup_correct [OF inv l]
  have s': "e = map_option (\<lambda>_. TreeEntry name) r" "is' = is\<lparr>is_tree := t'\<rparr>"
    using assms(2) l by (simp_all add: ipc_entry_tree_lookup_def)
  show "space_ok is'" using assms(1) c s'(2) by (simp add: space_ok_def)
  show "ptr_ok is' name p" if "e = Some p"
    using that s' c tree_find_set(1) [of "is_tree is" name] by (auto simp: ptr_ok_def tree_find_def image_iff)
qed

lemma entry_lookup_ok:
  assumes "space_ok is" "ipc_entry_lookup is name = (e, is')"
  shows "space_ok is'" "e = Some p \<Longrightarrow> ptr_ok is' name p"
proof -
  have size: "is_table_size is = length (is_table is)" using assms(1) by (simp add: space_ok_def)
  have "ipc_entry_tree_lookup is name = (e, is') \<or> (e = None \<and> is' = is) \<or>
      (e = Some (TableEntry (MACH_PORT_INDEX name)) \<and> MACH_PORT_INDEX name < is_table_size is \<and> is' = is)"
    using assms(2) by (simp add: ipc_entry_lookup_def Let_def split: if_splits)
  then have "space_ok is' \<and> (\<forall>p. e = Some p \<longrightarrow> ptr_ok is' name p)"
    using assms(1) tree_lookup_ok [OF assms(1), of name e is'] size by (elim disjE) (simp_all add: ptr_ok_def)
  then show "space_ok is'" "e = Some p \<Longrightarrow> ptr_ok is' name p" by simp_all
qed

lemma post_entry_lookup [post_rules]:
  assumes "typed s" "\<And>s'. typed s' \<Longrightarrow> R (None, s')" "\<And>e s'. live sp {(name, e)} s' \<Longrightarrow> R (Some e, s')"
  shows "post (entry_lookup sp name s) R"
proof (rule post_read)
  fix x assume "entry_lookup sp name s = Some x"
  then obtain w w' e where w: "ks_spaces s sp = Some w" "ipc_entry_lookup w name = (e, w')" "x = (e, put_space sp w' s)"
    by (cases "ks_spaces s sp"; cases "ipc_entry_lookup (the (ks_spaces s sp)) name") (auto simp: entry_lookup_def)
  have ok: "space_ok w" using assms(1) w(1) by (simp add: typed_def)
  have t: "typed (put_space sp w' s)" using entry_lookup_ok(1) [OF ok w(2)] assms(1) by (auto simp: typed_def)
  show "R x"
  proof (cases e)
    case (Some p)
    then have "live sp {(name, p)} (put_space sp w' s)" using t entry_lookup_ok(2) [OF ok w(2)] by (simp add: live_def)
    then show ?thesis using assms(3) w(3) Some by simp
  qed (use assms(2) t w(3) in simp)
qed

text \<open>Giving an entry back.\<close>

lemma right_ok_cong: "a AND IE_BITS_RIGHT_MASK = b AND IE_BITS_RIGHT_MASK \<Longrightarrow> right_ok a = right_ok b"
proof -
  assume e: "a AND IE_BITS_RIGHT_MASK = b AND IE_BITS_RIGHT_MASK"
  have "IE_BITS_TYPE c = IE_BITS_TYPE (c AND IE_BITS_RIGHT_MASK)" "IE_BITS_UREFS c = IE_BITS_UREFS (c AND IE_BITS_RIGHT_MASK)" for c
    by (auto intro!: bit_word_eqI simp: field_defs bit_simps mask_bits)
  from this [of a] this [of b] show ?thesis unfolding right_ok_def using e by simp
qed

lemma right_ok_collision [simp]:
  "right_ok (b OR IE_BITS_COLLISION) = right_ok b" "right_ok (b AND NOT IE_BITS_COLLISION) = right_ok b"
  "right_ok (b OR MACH_PORT_GEN n) = right_ok b" "right_ok (b AND IE_BITS_GEN_MASK)"
proof -
  show "right_ok (b OR IE_BITS_COLLISION) = right_ok b" "right_ok (b AND NOT IE_BITS_COLLISION) = right_ok b"
    "right_ok (b OR MACH_PORT_GEN n) = right_ok b"
    by (rule right_ok_cong; rule bit_word_eqI; auto simp: bit_simps mask_bits)+
  show "right_ok (b AND IE_BITS_GEN_MASK)" by (simp add: right_ok_def Let_def fields_GEN_MASK MACH_PORT_TYPE_NONE_def)
qed

lemma table_update_ok:
  assumes "space_ok is" "right_ok (ie_bits x)"
  shows "space_ok (is\<lparr>is_table := (is_table is)[i := x]\<rparr>)"
  using assms set_update_subset_insert [of "is_table is" i x] by (auto simp: space_ok_def)

lemma tree_change_ok:
  assumes "space_ok is" "ist_inv t'" "set (ist_inorder t') \<subseteq> set (ist_inorder (is_tree is))"
  shows "space_ok (is\<lparr>is_tree := t'\<rparr>)"
  using assms by (auto simp: space_ok_def)

lemma table_flag_ok:
  assumes "space_ok is" "\<And>b. right_ok b \<Longrightarrow> right_ok (g b)"
  shows "space_ok (is\<lparr>is_table := (is_table is)[i := (is_table is ! i)\<lparr>ie_bits := g (ie_bits (is_table is ! i))\<rparr>]\<rparr>)"
proof (cases "i < length (is_table is)")
  case True
  then have "is_table is ! i \<in> set (is_table is)" by simp
  then have "right_ok (ie_bits (is_table is ! i))" using assms(1) by (simp add: space_ok_def)
  then show ?thesis by (intro table_update_ok assms(1)) (simp add: assms(2))
qed (use assms(1) in \<open>simp add: list_update_beyond\<close>)

lemma dealloc_pieces:
  assumes inv: "ist_inv t" and s1: "ipc_splay_tree_split t a = (big, c0)" and s2: "ipc_splay_tree_split c0 b = (c, small)"
    and pick: "ipc_splay_tree_pick c = Some (n, y)" and c': "c' = ipc_splay_tree_delete c n"
  shows "ist_inv big" "set (ist_inorder big) \<subseteq> set (ist_inorder t)" "y \<in> set (ist_inorder t)"
    "t1 = big \<or> t1 = fst (ipc_splay_tree_join big c') \<Longrightarrow>
       ist_inv (fst (ipc_splay_tree_join t1 small)) \<and>
       set (ist_inorder (fst (ipc_splay_tree_join t1 small))) \<subseteq> set (ist_inorder t)"
proof -
  note p1 = ipc_splay_tree_split_correct [OF inv s1]
  then have c0: "ist_inv c0" by blast
  note p2 = ipc_splay_tree_split_correct [OF c0 s2]
  then have c: "ist_inv c" "ist_inv small" by blast+
  have y: "n = ite_name y" "y \<in> set (ist_inorder c)" using pick_correct(2) [OF pick] by auto
  show big: "ist_inv big" "set (ist_inorder big) \<subseteq> set (ist_inorder t)" "y \<in> set (ist_inorder t)" using p1 p2 y by auto
  have "n \<in> ite_name ` set (ist_inorder c)" using y by blast
  then have c': "ist_inorder c' = filter (\<lambda>z. ite_name z \<noteq> n) (ist_inorder c)" "ist_inv c'"
    using tree_delete [OF c(1)] unfolding c' by blast+
  have j1: "ist_inorder (fst (ipc_splay_tree_join big c')) = ist_inorder c' @ ist_inorder big" "ist_inv (fst (ipc_splay_tree_join big c'))"
    by (rule join_inorder [OF big(1) c'(2)]; use p1 p2 c'(1) in auto)+
  assume "t1 = big \<or> t1 = fst (ipc_splay_tree_join big c')"
  then have t1: "ist_inv t1" "set (ist_inorder t1) \<subseteq> set (ist_inorder c) \<union> set (ist_inorder big)" using j1 big(1) c'(1) by auto
  have j2: "ist_inorder (fst (ipc_splay_tree_join t1 small)) = ist_inorder small @ ist_inorder t1" "ist_inv (fst (ipc_splay_tree_join t1 small))"
    by (rule join_inorder [OF t1(1) c(2)]; use p1 p2 t1(2) in force)+
  show "ist_inv (fst (ipc_splay_tree_join t1 small)) \<and> set (ist_inorder (fst (ipc_splay_tree_join t1 small))) \<subseteq> set (ist_inorder t)"
    using j2 t1(2) p1 p2 by auto
qed

lemma dealloc_move_ok:
  assumes ok: "space_ok is" and run: "ipc_entry_dealloc_move sp h is i = Some (h', is')"
  shows "space_ok is'"
proof -
  obtain big c0 where s1: "ipc_splay_tree_split (is_tree is) (MACH_PORT_MAKE (i + 1) 0) = (big, c0)" by fastforce
  obtain c small where s2: "ipc_splay_tree_split c0 (MACH_PORT_MAKE i 0) = (c, small)" by fastforce
  obtain n y where pick: "ipc_splay_tree_pick c = Some (n, y)"
    using run unfolding ipc_entry_dealloc_move_def s1 s2 by (auto simp: s2 split: option.splits)
  have inv: "ist_inv (is_tree is)" using ok by (simp add: space_ok_def)
  note p = dealloc_pieces [OF inv s1 s2 pick refl]
  let ?c' = "ipc_splay_tree_delete c n"
  define w where "w = is\<lparr>is_tree := big, is_table := (is_table is)[i := (is_table is ! i)
    \<lparr>ie_bits := ie_bits (ite_entry y) OR MACH_PORT_GEN n, ie_object := ie_object (ite_entry y), ie_request := ie_request (ite_entry y)\<rparr>]\<rparr>"
  have "right_ok (ie_bits (ite_entry y))" using ok p(3) by (simp add: space_ok_def)
  then have "space_ok (w\<lparr>is_tree := is_tree is\<rparr>)" unfolding w_def using table_update_ok [OF ok] by simp
  then have w: "space_ok w" using p(1,2) by (auto simp: space_ok_def w_def)
  obtain w2 where w2: "rehashed w w2"
      "is' = (let s = w2\<lparr>is_tree_total := is_tree_total w2 - 1\<rparr>;
        s = (case ipc_splay_tree_pick ?c' of None \<Rightarrow> s
             | Some _ \<Rightarrow> s\<lparr>is_table := (is_table s)[i := (is_table s ! i)\<lparr>ie_bits := ie_bits (is_table s ! i) OR IE_BITS_COLLISION\<rparr>],
                is_tree := fst (ipc_splay_tree_join (is_tree s) ?c')\<rparr>)
        in s\<lparr>is_tree := fst (ipc_splay_tree_join (is_tree s) small)\<rparr>)"
  proof -
    let ?obj = "ie_object (ite_entry y)"
    have hash: "rehashed w (snd (ipc_hash_global_delete h sp w ?obj n))"
        "\<And>w' w'' obj i. rehashed w w' \<Longrightarrow> ipc_hash_local_insert w' obj i = Some w'' \<Longrightarrow> rehashed w w''"
      by (auto simp: rehashed_def ipc_hash_global_delete_def ipc_hash_local_insert_def Let_def bind_eq_Some_conv
          split: prod.splits intro: same_entries_trans same_entries_set_index)
    have same: "rehashed w w" by (simp add: rehashed_def)
    have "\<exists>w2. rehashed w w2 \<and> is' = (let s = w2\<lparr>is_tree_total := is_tree_total w2 - 1\<rparr>;
        s = (case ipc_splay_tree_pick ?c' of None \<Rightarrow> s
             | Some _ \<Rightarrow> s\<lparr>is_table := (is_table s)[i := (is_table s ! i)\<lparr>ie_bits := ie_bits (is_table s ! i) OR IE_BITS_COLLISION\<rparr>],
                is_tree := fst (ipc_splay_tree_join (is_tree s) ?c')\<rparr>)
        in s\<lparr>is_tree := fst (ipc_splay_tree_join (is_tree s) small)\<rparr>)"
      using run unfolding ipc_entry_dealloc_move_def Let_def s1 prod.case s2 pick option.case w_def [symmetric]
      by (cases "ipc_hash_global_delete h sp w ?obj n") (use hash(1) in \<open>auto simp: bind_eq_Some_conv split: if_splits intro: hash(2) same\<close>)
    then show ?thesis using that by blast
  qed
  define w3 where "w3 = w2\<lparr>is_table := (is_table w2)[i := (is_table w2 ! i)\<lparr>ie_bits := ie_bits (is_table w2 ! i) OR IE_BITS_COLLISION\<rparr>]\<rparr>"
  have ok2: "space_ok w2" "is_tree w2 = big" using rehashed_ok(1) [OF w2(1) w] w2(1) by (simp_all add: rehashed_def w_def)
  have ok3: "space_ok w3" unfolding w3_def by (rule table_flag_ok [OF ok2(1)]) simp
  obtain t1 v where t1: "t1 = big \<or> t1 = fst (ipc_splay_tree_join big ?c')" and v: "v = w2 \<or> v = w3"
      and is': "is_table is' = is_table v" "is_table_size is' = is_table_size v" "is_tree is' = fst (ipc_splay_tree_join t1 small)"
    using w2(2) ok2(2) by (cases "ipc_splay_tree_pick ?c'") (auto simp: w3_def Let_def intro: that [of _ w2] that [of _ w3, unfolded w3_def])
  have "space_ok v" using v ok2(1) ok3 by blast
  moreover have "\<And>z. z \<in> set (ist_inorder (is_tree is)) \<Longrightarrow> right_ok (ie_bits (ite_entry z))" using ok by (simp add: space_ok_def)
  ultimately show ?thesis using is' p(4) [OF t1] by (auto simp: space_ok_def)
qed

lemma tree_collision_ok:
  assumes "space_ok is" "ipc_entry_tree_collision is name = (b, is')"
  shows "space_ok is'"
proof -
  obtain l u t' where l: "ipc_splay_tree_bounds (is_tree is) name = (l, u, t')" using prod_cases3 by blast
  have "ist_inv (is_tree is)" using assms(1) by (simp add: space_ok_def)
  then show ?thesis
    using ipc_splay_tree_bounds_correct [OF _ l] assms by (auto simp: ipc_entry_tree_collision_def Let_def l space_ok_def)
qed

lemma dealloc_flag_ok:
  assumes "space_ok is" "ipc_entry_tree_collision is name = (b, is')"
  shows "space_ok (is'\<lparr>is_tree_small := k\<rparr>)"
    "space_ok (is'\<lparr>is_table := (is_table is')[i := (is_table is' ! i)\<lparr>ie_bits := ie_bits (is_table is' ! i) AND NOT IE_BITS_COLLISION\<rparr>]\<rparr>)"
proof -
  have ok: "space_ok is'" by (rule tree_collision_ok [OF assms])
  then show "space_ok (is'\<lparr>is_tree_small := k\<rparr>)" by (simp add: space_ok_def)
  show "space_ok (is'\<lparr>is_table := (is_table is')[i := (is_table is' ! i)\<lparr>ie_bits := ie_bits (is_table is' ! i) AND NOT IE_BITS_COLLISION\<rparr>]\<rparr>)"
    by (rule table_flag_ok [OF ok]) simp
qed

lemma entry_dealloc_ok:
  assumes ok: "space_ok is" and ptr: "ptr_ok is name e" and run: "ipc_entry_dealloc its sp h is name e = Some (h', is')"
  shows "space_ok is'"
proof (cases "MACH_PORT_INDEX name < is_table_size is \<and> e = TableEntry (MACH_PORT_INDEX name)")
  case True
  let ?T = "is_table is" and ?i = "MACH_PORT_INDEX name"
  let ?T' = "?T[?i := (?T ! ?i)\<lparr>ie_bits := ie_bits (?T ! ?i) AND IE_BITS_GEN_MASK, ie_request := ie_request (?T ! 0)\<rparr>]"
  have a: "space_ok (is\<lparr>is_table := ?T'\<rparr>)" by (rule table_update_ok [OF ok]) simp
  have "0 < length ?T'" using True ok by (auto simp: space_ok_def)
  then have "?T' ! 0 \<in> set ?T'" by (rule nth_mem)
  then have "right_ok (ie_bits (?T' ! 0))" using a by (simp add: space_ok_def)
  then have "space_ok (is\<lparr>is_table := ?T'[0 := (?T' ! 0)\<lparr>ie_request := ?i\<rparr>]\<rparr>)"
    using table_update_ok [OF a] by simp
  then show ?thesis
    using True run dealloc_move_ok [OF ok] by (auto simp: ipc_entry_dealloc_def Let_def split: if_splits)
next
  case False
  then have n: "name \<in> tree_names is" using ptr ok by (auto simp: ptr_ok_def space_ok_def)
  let ?s = "is\<lparr>is_tree := ipc_splay_tree_delete (is_tree is) name, is_tree_total := is_tree_total is - 1\<rparr>"
  have inv: "ist_inv (is_tree is)" using ok by (simp add: space_ok_def)
  have "ist_inorder (is_tree ?s) = filter (\<lambda>y. ite_name y \<noteq> name) (ist_inorder (is_tree is))" "ist_inv (is_tree ?s)"
    using tree_delete [OF inv n] by simp_all
  then have s: "space_ok ?s" using ok by (simp add: space_ok_def)
  obtain b w where c: "ipc_entry_tree_collision ?s name = (b, w)" by fastforce
  show ?thesis
    using False run s tree_collision_ok [OF s c] dealloc_flag_ok [OF s c]
    unfolding ipc_entry_dealloc_def Let_def c by (auto split: if_splits)
qed

lemma post_entry_dealloc [post_rules]:
  assumes "live sp {(name, e)} s" "\<And>s'. typed s' \<Longrightarrow> R s'"
  shows "post (entry_dealloc sp name e s) R"
proof (rule post_read)
  fix s' assume "entry_dealloc sp name e s = Some s'"
  then obtain w w' h where w: "ks_spaces s sp = Some w" "ipc_entry_dealloc (ks_its s) sp (ks_hash s) w name e = Some (h, w')"
      "s' = put_space sp w' (s\<lparr>ks_hash := h\<rparr>)"
    by (auto simp: entry_dealloc_def bind_eq_Some_conv)
  have "space_ok w'" using entry_dealloc_ok [OF live_space [OF assms(1) w(1)] _ w(2)] live_ptr [OF assms(1) w(1)] by simp
  then have "typed s'" using live_typed [OF assms(1)] w(3) by (auto simp: typed_def)
  then show "R s'" by (rule assms(2))
qed

end
