(* ===== verification/Ipc_Safe.thy ===== *)
theory Ipc_Safe
  imports Ipc_Typed
begin

text \<open>
  Type safety of \<^verbatim>\<open>src/ipc/ipc_right.c\<close> and of the destruction of ports in \<^verbatim>\<open>src/ipc/ipc_port.c\<close>:
  one rule for each routine, and a relation of all the steps that the routines make, which keeps
  every space well typed.
\<close>

section \<open>The bits that the routines store\<close>

lemma urefs_cong: "(\<And>n. n < 16 \<Longrightarrow> bit a n = bit b n) \<Longrightarrow> urefs a = urefs b"
  unfolding urefs_def UREFS_take_bit by (intro arg_cong [of _ _ unat] bit_word_eqI) (auto simp: bit_simps)

lemma urefs_flags [simp]:
  "urefs (b AND NOT IE_BITS_MAREQUEST) = urefs b" "urefs (b AND NOT IE_BITS_COMPAT) = urefs b"
  "urefs (b AND NOT MACH_PORT_TYPE_RECEIVE) = urefs b" "urefs (b AND NOT MACH_PORT_TYPE_DEAD_NAME) = urefs b"
  "urefs (b AND NOT MACH_PORT_TYPE_SEND_ONCE) = urefs b" "urefs (b OR MACH_PORT_TYPE_RECEIVE) = urefs b"
  "urefs (b OR MACH_PORT_TYPE_SEND) = urefs b" "urefs (b AND NOT IE_BITS_TYPE_MASK OR MACH_PORT_TYPE_DEAD_NAME) = urefs b"
  by (rule urefs_cong; simp add: bit_simps mask_bits)+

lemma urefs_set [simp]:
  "urefs (b AND NOT IE_BITS_UREFS_MASK AND NOT MACH_PORT_TYPE_SEND) = 0"
  "urefs (b AND NOT IE_BITS_RIGHT_MASK OR MACH_PORT_TYPE_DEAD_NAME OR 1) = 1"
  "urefs (b AND NOT IE_BITS_RIGHT_MASK OR MACH_PORT_TYPE_DEAD_NAME OR 2) = 2"
proof -
  have "urefs (b AND NOT IE_BITS_UREFS_MASK AND NOT MACH_PORT_TYPE_SEND) = urefs 0"
    "urefs (b AND NOT IE_BITS_RIGHT_MASK OR MACH_PORT_TYPE_DEAD_NAME OR 1) = urefs 1"
    "urefs (b AND NOT IE_BITS_RIGHT_MASK OR MACH_PORT_TYPE_DEAD_NAME OR 2) = urefs 2"
    by (rule urefs_cong; simp add: bit_simps mask_bits)+
  then show "urefs (b AND NOT IE_BITS_UREFS_MASK AND NOT MACH_PORT_TYPE_SEND) = 0"
    "urefs (b AND NOT IE_BITS_RIGHT_MASK OR MACH_PORT_TYPE_DEAD_NAME OR 1) = 1"
    "urefs (b AND NOT IE_BITS_RIGHT_MASK OR MACH_PORT_TYPE_DEAD_NAME OR 2) = 2" by (simp_all add: urefs_mod)
qed

lemma urefs_0_bits: "urefs b = 0 \<Longrightarrow> n < 16 \<Longrightarrow> \<not> bit b n"
  unfolding urefs_def UREFS_take_bit unat_eq_0 using bit_take_bit_iff [of 16 b n] by simp

named_theorems new_right \<open>the bits that a routine stores are well typed\<close>

lemma ok_flags [simp]: "right_ok (b AND NOT IE_BITS_MAREQUEST) \<longleftrightarrow> right_ok b" "right_ok (b AND NOT IE_BITS_COMPAT) \<longleftrightarrow> right_ok b"
  by (simp_all add: right_ok_iff bit_simps mask_bits)

lemma ok_less [new_right]:
  "right_ok b \<Longrightarrow> right_ok (b AND NOT MACH_PORT_TYPE_RECEIVE)" "right_ok b \<Longrightarrow> right_ok (b AND NOT MACH_PORT_TYPE_DEAD_NAME)"
  "right_ok b \<Longrightarrow> right_ok (b AND NOT MACH_PORT_TYPE_SEND_ONCE)" "right_ok (b AND NOT IE_BITS_RIGHT_MASK)"
  "right_ok b \<Longrightarrow> bit b 16 \<Longrightarrow> right_ok (b AND NOT IE_BITS_UREFS_MASK AND NOT MACH_PORT_TYPE_SEND)"
  "right_ok (b AND NOT IE_BITS_RIGHT_MASK OR MACH_PORT_TYPE_DEAD_NAME OR 1)"
  "right_ok (b AND NOT IE_BITS_RIGHT_MASK OR MACH_PORT_TYPE_DEAD_NAME OR 2)"
  by (auto simp: right_ok_iff bit_simps mask_bits)

lemma ok_dead [new_right]:
  assumes "right_ok b" "bit b 16 \<or> bit b 18"
  shows "right_ok (b AND NOT IE_BITS_TYPE_MASK OR MACH_PORT_TYPE_DEAD_NAME)"
    "right_ok ((b AND NOT IE_BITS_TYPE_MASK OR MACH_PORT_TYPE_DEAD_NAME) + 1)"
proof -
  let ?b = "b AND NOT IE_BITS_TYPE_MASK OR MACH_PORT_TYPE_DEAD_NAME"
  have u: "0 < urefs ?b" "urefs ?b < 2 ^ 16 - 1" using assms by (auto simp: right_ok_iff)
  show "right_ok ?b" using u by (auto simp: right_ok_iff bit_simps mask_bits)
  show "right_ok (?b + 1)" using add_1 [OF u(2)] u by (auto simp: right_ok_iff bit_simps mask_bits)
qed

lemma ok_change:
  assumes "right_ok b" "bit b 16 \<or> bit b 20" "\<And>n. 16 \<le> n \<Longrightarrow> bit c n \<longleftrightarrow> bit b n" "0 < urefs c" "bit b 16 \<Longrightarrow> urefs c < 2 ^ 16 - 1"
  shows "right_ok c"
proof -
  have c: "bit c 16 = bit b 16" "bit c 17 = bit b 17" "bit c 18 = bit b 18" "bit c 19 = bit b 19" "bit c 20 = bit b 20"
    by (simp_all add: assms(3))
  show ?thesis using assms(1,2,4,5) unfolding right_ok_iff c by argo
qed

lemma ok_urefs: "right_ok b \<Longrightarrow> bit b 16 \<or> bit b 20 \<Longrightarrow> 0 < urefs b" "right_ok b \<Longrightarrow> bit b 16 \<Longrightarrow> urefs b < 2 ^ 16 - 1"
  unfolding right_ok_iff by argo+

lemma ok_minus_1 [new_right]: "right_ok b \<Longrightarrow> bit b 16 \<or> bit b 20 \<Longrightarrow> urefs b \<noteq> 1 \<Longrightarrow> right_ok (b - 1)"
  by (rule ok_change [of b], assumption, assumption, rule minus_1(2))
    (use minus_1(1) [of b] ok_urefs [of b] in simp_all)

lemma ok_minus_2 [new_right]: "right_ok b \<Longrightarrow> bit b 16 \<Longrightarrow> urefs b \<noteq> 2 \<Longrightarrow> \<not> urefs b < 2 \<Longrightarrow> right_ok (b - 2)"
  by (rule ok_change [of b], assumption, simp, rule minus_2(2))
    (use minus_2(1) [of b] ok_urefs [of b] in simp_all)

lemma ok_plus_1 [new_right]: "right_ok b \<Longrightarrow> bit b 16 \<Longrightarrow> urefs b + 1 < 2 ^ 16 - 1 \<Longrightarrow> right_ok (b + 1)"
  "right_ok b \<Longrightarrow> bit b 20 \<Longrightarrow> \<not> bit b 16 \<Longrightarrow> urefs b < 2 ^ 16 - 1 \<Longrightarrow> right_ok (b + 1)"
  using add_1 [of b] by (auto intro!: ok_change [of b "b + 1"])

text \<open>Adding a delta that was checked.\<close>

lemma sint_cases:
  fixes d :: u32
  shows "0 \<le> sint d \<Longrightarrow> sint d = int (unat d)" "sint d < 0 \<Longrightarrow> sint d = - int (unat (- d))"
    "- (2 ^ 31) \<le> sint d" "sint d < 2 ^ 31"
proof -
  show r: "- (2 ^ 31) \<le> sint d" "sint d < 2 ^ 31" using sint_ge [of d] sint_lt [of d] by simp_all
  have "word_of_int (sint d) = d" by simp
  then have u: "uint d = sint d mod 2 ^ 32" "uint (- d) = - sint d mod 2 ^ 32"
    using uint_word_of_int [of "sint d", where 'a = 32] uint_word_of_int [of "- sint d", where 'a = 32] by simp_all
  show "0 \<le> sint d \<Longrightarrow> sint d = int (unat d)" using u(1) r by simp
  show "sint d < 0 \<Longrightarrow> sint d = - int (unat (- d))" using u(2) r by simp
qed

lemma underflow_iff:
  "MACH_PORT_UREFS_UNDERFLOW u d \<longleftrightarrow> int (unat u) + sint d < 0"
proof -
  have "sint d < 0 \<Longrightarrow> sint d = - uint (- d)" "0 \<le> uint u" using sint_cases(2) [of d] by simp_all
  then show ?thesis unfolding MACH_PORT_UREFS_UNDERFLOW_def word_less_def by (cases "sint d < 0") (simp_all add: not_less)
qed

lemma overflow_iff:
  assumes "unat u \<le> 2 ^ 16"
  shows "MACH_PORT_UREFS_OVERFLOW u d \<longleftrightarrow> 0 < sint d \<and> 2 ^ 16 \<le> int (unat u) + sint d"
proof (cases "0 < sint d")
  case True
  then have d: "sint d = uint d" "uint d < 2 ^ 31" using sint_cases(1,4) [of d] by simp_all
  have u: "uint u \<le> 2 ^ 16" using assms zle_int [of "unat u" "2 ^ 16"] by simp
  have "uint (u + d) = uint u + uint d" using d(2) u by (intro uint_add_lem [THEN iffD1]) simp
  then show ?thesis using True d
    by (auto simp: MACH_PORT_UREFS_OVERFLOW_def word_less_def word_le_def MACH_PORT_UREFS_MAX_def)
qed (simp add: MACH_PORT_UREFS_OVERFLOW_def)

lemma ok_delta:
  assumes "right_ok b" "bit b 16 \<or> bit b 20" "\<not> MACH_PORT_UREFS_UNDERFLOW (IE_BITS_UREFS b) d" "IE_BITS_UREFS b + d \<noteq> 0"
    "\<not> MACH_PORT_UREFS_OVERFLOW (IE_BITS_UREFS b + k) d" "k = 1 \<or> k = 0 \<and> \<not> bit b 16"
  shows "right_ok (b + d)"
proof -
  define U where "U = int (urefs b)"
  have u: "uint (IE_BITS_UREFS b) = U" "0 < U" "U < 2 ^ 16" "bit b 16 \<Longrightarrow> U < 2 ^ 16 - 1"
    using ok_urefs [OF assms(1)] assms(2) urefs_less [of b] by (simp_all add: U_def) (simp add: urefs_def)
  have k: "uint (IE_BITS_UREFS b + k) = U + uint k" "uint k \<le> 1" "0 \<le> uint k" "bit b 16 \<Longrightarrow> uint k = 1"
    using u assms(6) by (auto simp: uint_add_lem [THEN iffD1])
  have "unat (IE_BITS_UREFS b + k) \<le> 2 ^ 16" using k u(3) zle_int [of "unat (IE_BITS_UREFS b + k)" "2 ^ 16"] by simp
  then have d: "0 \<le> U + sint d" "0 < sint d \<Longrightarrow> U + uint k + sint d < 2 ^ 16"
    using assms(3,5) k(1) u(1) by (simp_all add: underflow_iff overflow_iff not_less)
  have "U + sint d \<noteq> 0"
  proof
    assume "U + sint d = 0"
    then have "(word_of_int (uint (IE_BITS_UREFS b) + sint d) :: u32) = word_of_int 0" using u(1) by metis
    then show False using assms(4) by simp
  qed
  moreover have r: "U + sint d < 2 ^ 16" "bit b 16 \<Longrightarrow> U + sint d < 2 ^ 16 - 1" using d(2) u(3,4) k(3,4) by linarith+
  ultimately have "int (urefs (b + d)) = U + sint d" "0 < U + sint d" using add_urefs(1) [of b d] d(1) by (simp_all add: U_def)
  moreover have "16 \<le> n \<Longrightarrow> bit (b + d) n \<longleftrightarrow> bit b n" for n using add_urefs(2) [of b d n] d(1) r(1) by (simp add: U_def)
  ultimately show ?thesis using r(2) by (intro ok_change [OF assms(1,2)]) simp_all
qed

lemma ok_delta_send [new_right]:
  "right_ok b \<Longrightarrow> bit b 16 \<Longrightarrow> \<not> MACH_PORT_UREFS_UNDERFLOW (IE_BITS_UREFS b) d \<Longrightarrow> IE_BITS_UREFS b + d \<noteq> 0 \<Longrightarrow>
   \<not> MACH_PORT_UREFS_OVERFLOW (IE_BITS_UREFS b + 1) d \<Longrightarrow> right_ok (b + d)"
  by (rule ok_delta [of b d 1]) simp_all

lemma ok_delta_dead [new_right]:
  "right_ok b \<Longrightarrow> bit b 20 \<Longrightarrow> \<not> MACH_PORT_UREFS_UNDERFLOW (IE_BITS_UREFS b) d \<Longrightarrow> IE_BITS_UREFS b + d \<noteq> 0 \<Longrightarrow>
   \<not> MACH_PORT_UREFS_OVERFLOW (IE_BITS_UREFS b) d \<Longrightarrow> right_ok (b + d)"
  by (rule ok_delta [of b d 0]) (auto simp: right_ok_iff)

lemma ok_copyout:
  assumes "right_ok b"
  shows "IE_BITS_TYPE b = MACH_PORT_TYPE_NONE \<Longrightarrow> urefs b = 0 \<Longrightarrow> right_ok (b OR (MACH_PORT_TYPE_SEND_ONCE OR 1))"
    "bit b 16 \<or> bit b 17 \<or> IE_BITS_TYPE b = MACH_PORT_TYPE_NONE \<and> urefs b = 0 \<Longrightarrow>
       \<not> (bit b 16 \<and> urefs b + 1 = 2 ^ 16 - 1) \<Longrightarrow> right_ok ((b OR MACH_PORT_TYPE_SEND) + 1)"
    "bit b 16 \<or> IE_BITS_TYPE b = MACH_PORT_TYPE_NONE \<and> urefs b = 0 \<Longrightarrow> right_ok (b OR MACH_PORT_TYPE_RECEIVE)"
    "bit b 17 \<Longrightarrow> \<not> bit b 16 \<Longrightarrow> right_ok ((b OR (MACH_PORT_TYPE_SEND OR 1)) AND NOT MACH_PORT_TYPE_RECEIVE)"
proof -
  have one: "urefs 1 = 1" by (simp add: urefs_mod)
  show "right_ok (b OR (MACH_PORT_TYPE_SEND_ONCE OR 1))" if "IE_BITS_TYPE b = MACH_PORT_TYPE_NONE" "urefs b = 0"
  proof -
    have "urefs (b OR (MACH_PORT_TYPE_SEND_ONCE OR 1)) = urefs 1"
      by (rule urefs_cong) (use urefs_0_bits [OF that(2)] in \<open>simp add: bit_simps mask_bits\<close>)
    then show ?thesis using that one by (simp add: right_ok_iff right_bits bit_simps mask_bits)
  qed
  show "right_ok ((b OR MACH_PORT_TYPE_SEND) + 1)"
    if "bit b 16 \<or> bit b 17 \<or> IE_BITS_TYPE b = MACH_PORT_TYPE_NONE \<and> urefs b = 0" "\<not> (bit b 16 \<and> urefs b + 1 = 2 ^ 16 - 1)"
  proof -
    have n: "bit (b OR MACH_PORT_TYPE_SEND) n \<longleftrightarrow> bit b n \<or> n = 16" for n by (auto simp: bit_simps mask_bits)
    have u: "urefs b < 2 ^ 16 - 2" using that assms by (auto simp: right_ok_iff type_is)
    then have "bit ((b OR MACH_PORT_TYPE_SEND) + 1) n \<longleftrightarrow> bit b n \<or> n = 16" if "16 \<le> n" for n
      using add_1(2) [of "b OR MACH_PORT_TYPE_SEND" n] that n by simp
    moreover have "urefs ((b OR MACH_PORT_TYPE_SEND) + 1) = urefs b + 1"
      using add_1(1) [of "b OR MACH_PORT_TYPE_SEND"] u by simp
    ultimately show ?thesis using u that(1) assms by (simp add: right_ok_iff type_is) argo
  qed
  show "right_ok (b OR MACH_PORT_TYPE_RECEIVE)" if "bit b 16 \<or> IE_BITS_TYPE b = MACH_PORT_TYPE_NONE \<and> urefs b = 0"
    using that assms by (auto simp: right_ok_iff right_bits bit_simps mask_bits)
  show "right_ok ((b OR (MACH_PORT_TYPE_SEND OR 1)) AND NOT MACH_PORT_TYPE_RECEIVE)" if "bit b 17" "\<not> bit b 16"
  proof -
    have "urefs b = 0" using assms that by (auto simp: right_ok_iff)
    then have "urefs (b OR (MACH_PORT_TYPE_SEND OR 1)) = urefs 1"
      by (intro urefs_cong) (use urefs_0_bits in \<open>simp add: bit_simps mask_bits\<close>)
    then show ?thesis using that assms one by (auto simp: right_ok_iff right_bits bit_simps mask_bits)
  qed
qed

section \<open>Following a program\<close>

text \<open>
  The rules of \<open>safe_rules\<close> carry the knowledge about the spaces along: one for each construct,
  for each routine that leaves the spaces alone, and for each access to a space.
\<close>

named_theorems safe_rules \<open>rules that carry well-typed spaces along a program\<close>

lemma keeps:
  "post (mod_port p f s) (same_spaces s)" "post (mod_pset ps g s) (same_spaces s)" "post (ip_check_unlock p s) (same_spaces s)"
  "post (ipc_object_release p s) (same_spaces s)" "post (ipc_port_release_sonce p s) (same_spaces s)"
  "post (wake_senders ths s) (same_spaces s)" "post (ipc_pset_destroy p s) (same_spaces s)"
  "post (ipc_port_clear_receiver p s) (same_spaces s)" "post (clear_to_limbo p s) (same_spaces s)"
  "post (ipc_notify_port_deleted p n s) (same_spaces s)" "post (ipc_notify_no_senders p m s) (same_spaces s)"
  "post (ipc_notify_send_once p s) (same_spaces s)" "post (ipc_notify_dead_name p n s) (same_spaces s)"
  "post (notify_no_senders p m s) (same_spaces s)" "post (notify_port_deleted p n s) (same_spaces s)"
  "post (ipc_port_release_send p s) (same_spaces s)" "post (ipc_notify_port_deleted_compat p n s) (same_spaces s)"
  "post (ipc_marequest_cancel sp n s) (same_spaces s)" "post (ipc_marequest_rename sp n n' s) (same_spaces s)"
  by (rule post_rules; assumption)+

lemma keeps_pair: "post (ipc_port_copy_send p s) (\<lambda>x. same_spaces s (snd x))" "post (ipc_space_make_notify sp s) (\<lambda>x. same_spaces s (snd x))"
  by (rule post_rules; simp)+

lemma post_live:
  assumes "post m (same_spaces s)" "live sp ps s" "\<And>s'. live sp ps s' \<Longrightarrow> R s'"
  shows "post m R"
proof (rule post_read)
  fix x assume "m = Some x"
  then have "live sp ps (x)" using postD [OF assms(1)] assms(2) live_same [of s "x" sp ps] by simp
  then show "R x" using assms(3) by simp
qed

lemma post_live_pair:
  assumes "post m (\<lambda>x. same_spaces s (snd x))" "live sp ps s" "\<And>r s'. live sp ps s' \<Longrightarrow> R (r, s')"
  shows "post m R"
proof (rule post_read)
  fix x assume "m = Some x"
  then have "live sp ps (snd x)" using postD [OF assms(1)] assms(2) live_same [of s "snd x" sp ps] by simp
  then show "R x" using assms(3) [of "snd x" "fst x"] by simp
qed

lemmas [safe_rules] = keeps [THEN post_live] keeps_pair [THEN post_live_pair]

lemmas [safe_rules] = post_bind post_Some post_None post_if post_map post_Let post_drop_sright post_Pair post_sum post_option
  post_get_entry post_hash_insert post_hash_delete post_space_release

lemmas [safe_rules] = post_read [of "ks_ports s p" for s p] post_read [of "ks_spaces s p" for s p]
  post_read [of "ipc_port_dnrename p r m n" for p r m n]

lemma post_case_prod: "(\<And>a b. post (f a b) Q) \<Longrightarrow> post (case x of (a, b) \<Rightarrow> f a b) Q"
  by (simp add: case_prod_unfold)

lemma safe_port_dncancel [safe_rules]: "(\<And>a b. R (a, b)) \<Longrightarrow> post (ipc_port_dncancel p n r) R"
  by (simp add: post_def split_paired_all)

lemma safe_set_entry [safe_rules]:
  assumes "live sp ps s" "\<And>x. get_entry sp e s = Some x \<Longrightarrow> right_ok (ie_bits x) \<Longrightarrow> right_ok (ie_bits (f x))"
    "\<And>s'. live sp ps s' \<Longrightarrow> R s'"
  shows "post (set_entry sp e f s) R"
  by (rule post_set_entry [OF assms])

lemma safe_lookup [safe_rules]:
  assumes "live sp' {} s" "\<And>s'. live sp {} s' \<Longrightarrow> R (None, s')" "\<And>e s'. live sp {(name, e)} s' \<Longrightarrow> R (Some e, s')"
  shows "post (entry_lookup sp name s) R"
  by (rule post_entry_lookup) (use assms in simp_all)

lemma safe_dealloc [safe_rules]:
  assumes "live sp ps s" "(name, e) \<in> ps" "\<And>s'. live sp {} s' \<Longrightarrow> R s'"
  shows "post (entry_dealloc sp name e s) R"
  by (rule post_entry_dealloc [OF live_subset [OF assms(1)]]) (use assms(2,3) in simp_all)

text \<open>States with the same spaces, and what is left at the end.\<close>

lemma live_put:
  "live sp ps s \<Longrightarrow> live sp ps (put_port p x s)" "live sp ps s \<Longrightarrow> live sp ps (effect a s)"
  "live sp ps s \<Longrightarrow> live sp ps s' \<Longrightarrow> live sp ps (if b then s else s')"
  by (simp_all add: live_def typed_def)

lemma live_drop: "live sp ps s \<Longrightarrow> live sp {} s"
  by (simp add: live_typed)

lemmas live_rules = live_put live_drop singletonI insertI1

lemma safe_clear [safe_rules]:
  assumes "live sp ps s" "(name, e) \<in> ps" "\<And>s'. live sp {} s' \<Longrightarrow> R s'"
  shows "post (entry_clear sp name e s) R"
  unfolding entry_clear_def by (assumption | rule safe_rules assms | simp)+

lemma safe_dncancel [safe_rules]:
  assumes "live sp ps s" "\<And>r s'. live sp ps s' \<Longrightarrow> R (r, s')"
  shows "post (ipc_right_dncancel sp port name e s) R"
  unfolding ipc_right_dncancel_def by (assumption | rule assms safe_rules live_rules | simp)+

lemma safe_dncancel_macro [safe_rules]:
  assumes "live sp ps s" "\<And>r s'. live sp ps s' \<Longrightarrow> R (r, s')"
  shows "post (ipc_right_dncancel_macro sp port name e s) R"
  unfolding ipc_right_dncancel_macro_def by (assumption | rule assms safe_rules live_rules)+

lemma COMPAT_bit [right_bits]: "b AND IE_BITS_COMPAT = 0 \<longleftrightarrow> \<not> bit b 22"
  by (simp add: IE_BITS_COMPAT_def bit_iff_and_push_bit_not_eq_0)

lemma entry_right: "live sp ps s \<Longrightarrow> get_entry sp e s = Some x \<Longrightarrow> right_ok (ie_bits x)"
  by (auto simp: get_entry_def bind_eq_Some_conv intro: entry_at_right live_space)

lemma dead_bit:
  assumes "right_ok b" "bit b 16 \<or> bit b 18"
  shows "bit (b AND NOT IE_BITS_TYPE_MASK OR MACH_PORT_TYPE_DEAD_NAME) 20"
    "bit ((b AND NOT IE_BITS_TYPE_MASK OR MACH_PORT_TYPE_DEAD_NAME) + 1) 20"
proof -
  let ?b = "b AND NOT IE_BITS_TYPE_MASK OR MACH_PORT_TYPE_DEAD_NAME"
  show "bit ?b 20" by (simp add: bit_simps mask_bits)
  moreover have "urefs ?b < 2 ^ 16 - 1" using assms by (auto simp: right_ok_iff)
  ultimately show "bit (?b + 1) 20" using add_1(2) [of ?b 20] by simp
qed

lemma entry_at_update_eq: "entry_at (entry_update is e f) e = map_option f (entry_at is e)"
proof (cases "entry_at is e")
  case None
  then show ?thesis by (cases e) (auto split: if_splits)
qed (simp add: entry_at_update)

lemma post_set_entry':
  assumes "live sp ps s" "\<And>x. right_ok (ie_bits x) \<Longrightarrow> right_ok (ie_bits (f x))"
    "\<And>s'. live sp ps s' \<Longrightarrow> get_entry sp e s' = map_option f (get_entry sp e s) \<Longrightarrow> R s'"
  shows "post (set_entry sp e f s) R"
proof (rule post_read)
  fix s' assume s': "set_entry sp e f s = Some s'"
  have "live sp ps s'" by (rule postD [OF post_set_entry [OF assms(1), of e f "live sp ps"] s']) (simp_all add: assms(2))
  moreover have "get_entry sp e s' = map_option f (get_entry sp e s)"
    using s' by (auto simp: set_entry_def get_entry_def entry_at_update_eq)
  ultimately show "R s'" by (rule assms(3))
qed

lemma safe_check:
  assumes "live sp {(name, e)} s" "get_entry sp e s = Some x" "bit (ie_bits x) 16 \<or> bit (ie_bits x) 18"
    "\<And>s'. live sp {(name, e)} s' \<Longrightarrow> R (False, s')"
    "\<And>s'. ie_bits x AND IE_BITS_COMPAT \<noteq> 0 \<Longrightarrow> live sp {} s' \<Longrightarrow> R (True, s')"
    "\<And>s'. ie_bits x AND IE_BITS_COMPAT = 0 \<Longrightarrow> live sp {(name, e)} s' \<Longrightarrow>
       (\<And>y. get_entry sp e s' = Some y \<Longrightarrow> bit (ie_bits y) 20) \<Longrightarrow> R (True, s')"
  shows "post (ipc_right_check sp port name e s) R"
proof -
  let ?bits = "\<lambda>b r. if r \<noteq> 0 then (b AND NOT IE_BITS_TYPE_MASK OR MACH_PORT_TYPE_DEAD_NAME) + 1 else b AND NOT IE_BITS_TYPE_MASK OR MACH_PORT_TYPE_DEAD_NAME"
  have dead: "post (set_entry sp e (\<lambda>en. en\<lparr>ie_request := 0, ie_bits := ?bits b (ie_request x), ie_object := 0\<rparr>) s1) (\<lambda>s'. R (True, s'))"
    if "live sp {(name, e)} s1" "b = ie_bits x \<or> b = ie_bits x AND NOT IE_BITS_MAREQUEST" "b AND IE_BITS_COMPAT = 0" for s1 b
  proof (rule post_set_entry' [OF that(1)])
    have x: "right_ok b" "bit b 16 \<or> bit b 18"
      using that(2) assms(3) entry_right [OF assms(1,2)] by (auto simp: bit_simps mask_bits)
    have ok: "right_ok (?bits b (ie_request x))" "bit (?bits b (ie_request x)) 20" using ok_dead [OF x] dead_bit [OF x] by simp_all
    then show "right_ok (ie_bits (y\<lparr>ie_request := 0, ie_bits := ?bits b (ie_request x), ie_object := 0\<rparr>))" for y :: ipc_entry by simp
    have "ie_bits x AND IE_BITS_COMPAT = 0" using that(2,3) by (auto simp: right_bits bit_simps mask_bits)
    then show "R (True, s')" if "live sp {(name, e)} s'"
      "get_entry sp e s' = map_option (\<lambda>en. en\<lparr>ie_request := 0, ie_bits := ?bits b (ie_request x), ie_object := 0\<rparr>) (get_entry sp e s1)" for s'
      by (rule assms(6) [OF _ that(1)]) (use that(2) ok(2) in auto)
  qed
  have compat: "ie_bits x AND IE_BITS_COMPAT \<noteq> 0" if "(ie_bits x AND NOT IE_BITS_MAREQUEST) AND IE_BITS_COMPAT \<noteq> 0"
    using that by (auto simp: right_bits bit_simps mask_bits)
  show ?thesis
    unfolding ipc_right_check_def assms(2)
    by (assumption | rule assms(1,4) live_rules | rule dead | rule assms(5) | rule compat | rule safe_rules | simp)+
qed

section \<open>Destroying rights and ports\<close>

text \<open>\<open>safe_op f\<close>: the routine \<open>f\<close> keeps all spaces well typed.\<close>

definition safe_op :: "(ptr \<Rightarrow> ipc_state \<Rightarrow> ipc_state option) \<Rightarrow> bool" where
  "safe_op f \<longleftrightarrow> (\<forall>p s. typed s \<longrightarrow> post (f p s) typed)"

lemma safe_opD:
  assumes "safe_op f" "live sp {} s" "\<And>s'. live sp {} s' \<Longrightarrow> R s'"
  shows "post (f p s) R"
  using assms by (auto simp: safe_op_def intro: post_mono)

lemma safe_opI: "(\<And>p s. live 0 {} s \<Longrightarrow> post (f p s) (live 0 {})) \<Longrightarrow> safe_op f"
  unfolding safe_op_def by (intro allI impI, rule post_mono [of _ "live 0 {}"]) simp_all

lemma safe_right_give_up [safe_rules]:
  assumes "safe_op destroy" "live sp {} s" "\<And>a b s'. live sp {} s' \<Longrightarrow> R (a, b, s')"
  shows "post (right_give_up destroy type port s) R"
  unfolding right_give_up_def by (assumption | rule assms safe_rules post_case_prod live_rules safe_opD)+

lemma safe_right_clean [safe_rules]:
  assumes "safe_op destroy" "live sp {(name, e)} s" "\<And>s'. live sp {} s' \<Longrightarrow> R s'"
  shows "post (ipc_right_clean destroy sp name e s) R"
  unfolding ipc_right_clean_def by (assumption | rule assms safe_rules live_rules)+

lemma safe_right_destroy [safe_rules]:
  assumes "safe_op destroy" "live sp {(name, e)} s" "\<And>r s'. live sp {} s' \<Longrightarrow> R (r, s')"
  shows "post (ipc_right_destroy destroy sp name e s) R"
  unfolding ipc_right_destroy_def by (assumption | rule assms safe_rules live_rules | simp)+

lemma safe_lookup_write [safe_rules]:
  assumes "live sp' {} s" "\<And>r s'. live sp {} s' \<Longrightarrow> R (Inl r, s')" "\<And>e s'. live sp {(name, e)} s' \<Longrightarrow> R (Inr e, s')"
  shows "post (ipc_right_lookup_write sp name s) R"
proof -
  have s: "live sp {} s" using assms(1) by simp
  show ?thesis
    unfolding ipc_right_lookup_write_def
    by (assumption | rule s safe_rules | rule assms(2,3) | simp only: option.case)+
qed

lemma safe_delete_compat [safe_rules]:
  assumes "safe_op destroy" "live sp {} s" "\<And>s'. live sp {} s' \<Longrightarrow> R s'"
  shows "post (ipc_port_delete_compat destroy port sp name s) R"
  unfolding ipc_port_delete_compat_def by (assumption | rule assms safe_rules live_rules | simp)+

lemma safe_release_receive [safe_rules]:
  assumes "safe_op destroy" "live sp {} s" "\<And>s'. live sp {} s' \<Longrightarrow> R s'"
  shows "post (ipc_port_release_receive destroy port s) R"
  unfolding ipc_port_release_receive_def by (assumption | rule assms safe_rules live_rules safe_opD)+

lemma safe_destroy_messages [safe_rules]:
  assumes "live sp {} s" "\<And>s'. live sp {} s' \<Longrightarrow> R s'"
  shows "post (destroy_messages port ks s) R"
  using assms
proof (induction ks arbitrary: s)
  case (Cons k ks)
  show ?case unfolding destroy_messages.simps by (assumption | rule Cons.prems Cons.IH safe_rules live_rules)+
qed (simp add: post_def)

lemma safe_destroy_requests [safe_rules]:
  assumes d: "safe_op destroy" and "live sp {} s" "\<And>s'. live sp {} s' \<Longrightarrow> R s'"
  shows "post (destroy_requests destroy port rs s) R"
  using assms(2,3)
proof (induction rs arbitrary: s)
  case (Cons r rs)
  have sp: "live sp' {} s" for sp' using Cons.prems(1) by simp
  have d: "post (ipc_port_delete_compat destroy port sp' n s) (live sp {})" for sp' n
    by (rule safe_delete_compat [OF d sp]) simp
  have del: "post (ipc_port_delete_compat destroy port sp' n s) Q" if "\<And>s'. live sp {} s' \<Longrightarrow> Q s'" for sp' n Q
    by (rule post_mono [OF d that])
  show ?case unfolding destroy_requests.simps by (assumption | rule Cons.prems Cons.IH del safe_rules live_rules)+
qed (simp add: post_def)

lemma safe_timestamp:
  "live sp {} s \<Longrightarrow> (\<And>a s'. live sp {} s' \<Longrightarrow> post (f a s') Q) \<Longrightarrow> post (case ipc_port_timestamp s of (a, s) \<Rightarrow> f a s) Q"
  by (simp add: ipc_port_timestamp_def typed_def case_prod_unfold Let_def)

lemma safe_destroy_dead [safe_rules]:
  assumes "safe_op destroy" "live sp {} s" "\<And>s'. live sp {} s' \<Longrightarrow> R s'"
  shows "post (destroy_dead destroy port s) R"
  unfolding destroy_dead_def by (assumption | rule assms safe_timestamp safe_rules post_case_prod live_rules)+

lemma safe_zalloc:
  "live sp ps s \<Longrightarrow> (\<And>a s'. live sp ps s' \<Longrightarrow> post (f a s') Q) \<Longrightarrow> post (case zalloc s of (a, s) \<Rightarrow> f a s) Q"
  using zalloc_sel(4) [of s] live_same [of s "snd (zalloc s)"] by (simp add: case_prod_unfold)

lemma safe_send_always: "live sp ps s \<Longrightarrow> live sp ps (ipc_mqueue_send_always k s)"
  by (simp add: ipc_mqueue_send_always_def live_put)

lemma safe_port_destroyed:
  assumes "safe_op rr" "live sp {} s" "\<And>s'. live sp {} s' \<Longrightarrow> R s'"
  shows "post (ipc_notify_port_destroyed rr p q s) R" "post (ipc_notify_port_destroyed_compat rr p q s) R"
  unfolding ipc_notify_port_destroyed_def ipc_notify_port_destroyed_compat_def
  by (assumption | rule assms safe_zalloc safe_rules safe_opD safe_send_always)+

lemma safe_circularity [safe_rules]:
  assumes "live sp {} s" "\<And>r s'. live sp {} s' \<Longrightarrow> R (r, s')"
  shows "post (ipc_port_check_circularity try p q s) R"
  unfolding ipc_port_check_circularity_def
  by (assumption | rule assms safe_rules post_read [of "transit_base s p" for s p])+

lemma safe_port_destroy: "safe_op (ipc_port_destroy n)"
proof (induction n)
  case (Suc n)
  have rr: "safe_op (ipc_port_release_receive (ipc_port_destroy n))"
    by (rule safe_opI, rule safe_release_receive [OF Suc])
  show ?case
    by (rule safe_opI, unfold ipc_port_destroy.simps)
      (assumption | rule Suc rr safe_port_destroyed safe_rules live_rules)+
qed (simp add: safe_op_def post_def)

lemma safe_port_destroy_2 [safe_rules]:
  "live sp {} s \<Longrightarrow> (\<And>s'. live sp {} s' \<Longrightarrow> R s') \<Longrightarrow> post (port_destroy p s) R"
  unfolding port_destroy_def by (rule safe_opD [OF safe_port_destroy])

section \<open>User references\<close>

lemma safe_send_entry_dealloc [safe_rules]:
  assumes "live sp {(name, e)} s" "\<And>r s'. live sp {} s' \<Longrightarrow> R (r, s')"
  shows "post (send_entry_dealloc sp port name e bits s) R"
  unfolding send_entry_dealloc_def by (assumption | rule assms safe_rules live_rules)+

lemma safe_dealloc_dead_name [safe_rules]:
  assumes "live sp {(name, e)} s" "right_ok bits" "bit bits 20" "\<And>s'. live sp {} s' \<Longrightarrow> R s'"
  shows "post (dealloc_dead_name sp name e bits s) R"
  unfolding dealloc_dead_name_def
  by (assumption | rule assms safe_rules live_rules | simp add: right_bits new_right assms)+

text \<open>The outcome of a check is known in each case.\<close>

lemma post_known: "post m Q \<Longrightarrow> post (if True then m else n) Q" "post n Q \<Longrightarrow> post (if False then m else n) Q"
  "post m Q \<Longrightarrow> post (if \<not> False then m else n) Q" "post n Q \<Longrightarrow> post (if \<not> True then m else n) Q"
  by simp_all

lemma safe_right_dealloc:
  assumes "live sp {(name, e)} s" "\<And>r s'. live sp {} s' \<Longrightarrow> R (r, s')"
  shows "post (ipc_right_dealloc sp name e s) R"
  unfolding ipc_right_dealloc_def
  by (assumption | rule assms post_known | rule safe_rules live_rules safe_check | force simp: right_bits new_right)+

lemma safe_delta_port_set [safe_rules]:
  assumes "live sp {(name, e)} s" "\<And>r s'. live sp {} s' \<Longrightarrow> R (r, s')"
  shows "post (delta_port_set sp name e entry delta s) R"
  unfolding delta_port_set_def
  by (assumption | rule assms post_known | rule safe_rules live_rules | force simp: right_bits new_right)+

lemma ok_dead_entry:
  "right_ok b \<Longrightarrow> bit b 16 \<or> bit b 18 \<Longrightarrow>
   right_ok (ie_bits (x\<lparr>ie_request := 0, ie_bits := if r \<noteq> 0 then (b AND NOT IE_BITS_TYPE_MASK OR MACH_PORT_TYPE_DEAD_NAME) + 1
     else b AND NOT IE_BITS_TYPE_MASK OR MACH_PORT_TYPE_DEAD_NAME, ie_object := 0\<rparr>))"
  using ok_dead by simp

lemma safe_delta_receive [safe_rules]:
  assumes "live sp {(name, e)} s" "get_entry sp e s = Some entry" "\<And>r s'. live sp {} s' \<Longrightarrow> R (r, s')"
  shows "post (delta_receive sp name e entry delta s) R"
proof -
  have x: "right_ok (ie_bits entry)" by (rule entry_right [OF assms(1,2)])
  show ?thesis
  unfolding delta_receive_def
  by (assumption | rule assms x ok_dead_entry post_known | rule safe_rules live_rules | force simp: right_bits new_right bit_simps mask_bits x)+
qed

lemma safe_delta_send_once [safe_rules]:
  assumes "live sp {(name, e)} s" "get_entry sp e s = Some entry" "\<And>r s'. live sp {} s' \<Longrightarrow> R (r, s')"
  shows "post (delta_send_once sp name e entry delta s) R"
proof -
  have x: "right_ok (ie_bits entry)" by (rule entry_right [OF assms(1,2)])
  show ?thesis
  unfolding delta_send_once_def
  by (assumption | rule assms x post_known | rule safe_rules live_rules safe_check | force simp: right_bits new_right bit_simps mask_bits x)+
qed

lemma safe_delta_dead_name [safe_rules]:
  assumes "live sp {(name, e)} s" "get_entry sp e s = Some entry" "\<And>r s'. live sp {} s' \<Longrightarrow> R (r, s')"
  shows "post (delta_dead_name sp name e entry delta s) R"
proof -
  have x: "right_ok (ie_bits entry)" by (rule entry_right [OF assms(1,2)])
  show ?thesis
  unfolding delta_dead_name_def
  by (assumption | rule assms x post_known | rule safe_rules live_rules safe_check | force simp: right_bits new_right assms(2) split: if_splits)+
qed

lemma safe_delta_send [safe_rules]:
  assumes "live sp {(name, e)} s" "get_entry sp e s = Some entry" "\<And>r s'. live sp {} s' \<Longrightarrow> R (r, s')"
  shows "post (delta_send sp name e entry delta s) R"
proof -
  have x: "right_ok (ie_bits entry)" by (rule entry_right [OF assms(1,2)])
  show ?thesis
  unfolding delta_send_def
  by (assumption | rule assms x post_known | rule safe_rules live_rules safe_check | force simp: right_bits new_right bit_simps mask_bits x)+
qed

lemma safe_right_delta:
  assumes "live sp {(name, e)} s" "\<And>r s'. live sp {} s' \<Longrightarrow> R (r, s')"
  shows "post (ipc_right_delta sp name e rt delta s) R"
  unfolding ipc_right_delta.simps
  by (cases rt; simp only: mach_port_right.case) (assumption | rule assms | rule safe_rules)+

lemma safe_right_info:
  assumes "live sp {(name, e)} s" "\<And>r s'. live sp {} s' \<Longrightarrow> R (r, s')"
  shows "post (ipc_right_info sp name e s) R"
  unfolding ipc_right_info_def
  by (assumption | rule assms | rule safe_rules live_rules safe_check | force simp: right_bits)+

lemma safe_right_inuse:
  assumes "live sp {(name, e)} s" "\<And>r s'. live sp {(name, e)} s' \<Longrightarrow> R (r, s')"
  shows "post (ipc_right_inuse sp name e s) R"
  unfolding ipc_right_inuse_def
  by (assumption | rule assms | rule safe_rules | force simp: right_bits new_right)+

section \<open>Moving rights\<close>

lemma safe_copyin_make [safe_rules]:
  assumes "live sp ps s" "\<And>r s'. live sp ps s' \<Longrightarrow> R (r, s')"
  shows "post (copyin_make_send entry s) R" "post (copyin_make_send_once entry s) R"
  unfolding copyin_make_send_def copyin_make_send_once_def by (assumption | rule assms | rule safe_rules)+

lemma safe_copyin_move_receive [safe_rules]:
  assumes "live sp {(name, e)} s" "get_entry sp e s = Some entry" "\<And>r s'. live sp {(name, e)} s' \<Longrightarrow> R (r, s')"
  shows "post (copyin_move_receive sp name e entry s) R"
proof -
  have x: "right_ok (ie_bits entry)" by (rule entry_right [OF assms(1,2)])
  show ?thesis
    unfolding copyin_move_receive_def
    by (assumption | rule assms x post_known | rule safe_rules | force simp: right_bits new_right x)+
qed

lemma safe_copyin_dead [safe_rules]:
  assumes "live sp {(name, e)} s" "right_ok bits" "bit bits 20" "\<And>r s'. live sp {(name, e)} s' \<Longrightarrow> R (r, s')"
  shows "post (copyin_copy_dead deadok s) R" "post (copyin_move_dead sp e bits deadok s) R"
  unfolding copyin_copy_dead_def copyin_move_dead_def
  by (assumption | rule assms | rule safe_rules | simp add: right_bits new_right assms(2,3))+

lemma safe_check_dead:
  assumes "live sp {(name, e)} s" "get_entry sp e s = Some entry"
    "\<And>bits s'. live sp {(name, e)} s' \<Longrightarrow> right_ok bits \<Longrightarrow> bit bits 20 \<Longrightarrow> post (dead bits s') R"
    "\<And>s'. live sp {(name, e)} s' \<Longrightarrow> post (go s') R" "\<And>r s'. live sp {} s' \<Longrightarrow> R (Inl r, s')"
  shows "post (copyin_check_dead sp name e entry dead go s) R"
proof -
  have x: "right_ok (ie_bits entry)" by (rule entry_right [OF assms(1,2)])
  show ?thesis
    unfolding copyin_check_dead_def
    by (assumption | rule assms x post_known | rule safe_rules safe_check live_rules | force simp: right_bits new_right x)+
qed

lemma safe_copyin_send:
  assumes "live sp {(name, e)} s" "get_entry sp e s = Some entry"
    "\<And>r s'. live sp {} s' \<Longrightarrow> R (Inl r, s')" "\<And>r s'. live sp {(name, e)} s' \<Longrightarrow> R (r, s')"
  shows "post (copyin_copy_send sp name e entry deadok s) R" "post (copyin_move_send sp name e entry deadok s) R"
    "post (copyin_move_send_once sp name e entry deadok s) R"
proof -
  have x: "right_ok (ie_bits entry)" by (rule entry_right [OF assms(1,2)])
  show "post (copyin_copy_send sp name e entry deadok s) R"
    unfolding copyin_copy_send_def by (assumption | rule assms safe_check_dead | rule safe_rules live_rules)+
  show "post (copyin_move_send_once sp name e entry deadok s) R"
    unfolding copyin_move_send_once_def
    by (assumption | rule assms safe_check_dead | rule safe_rules live_rules | force simp: right_bits new_right x)+
  show "post (copyin_move_send sp name e entry deadok s) R"
    unfolding copyin_move_send_def
    by (assumption | rule assms safe_check_dead | rule safe_rules live_rules | force simp: right_bits new_right x)+
qed

lemma safe_right_copyin:
  assumes "live sp {(name, e)} s" "\<And>r s'. live sp {} s' \<Longrightarrow> R (Inl r, s')" "\<And>r s'. live sp {(name, e)} s' \<Longrightarrow> R (r, s')"
  shows "post (ipc_right_copyin sp name e msgt_name deadok s) R"
  unfolding ipc_right_copyin_def by (assumption | rule assms safe_copyin_send | rule safe_rules)+

lemma safe_copyin_two:
  assumes "live sp {(name, e)} s" "\<And>r s'. live sp {} s' \<Longrightarrow> R (Inl r, s')" "\<And>r s'. live sp {(name, e)} s' \<Longrightarrow> R (r, s')"
  shows "post (ipc_right_copyin_two sp name e s) R"
  unfolding ipc_right_copyin_two_def
  by (assumption | rule assms post_known | rule safe_rules safe_check live_rules | force simp: right_bits new_right)+

text \<open>What the source asserts when a copyin is undone.\<close>

definition copyin_undo_ok :: "u32 \<Rightarrow> ptr \<Rightarrow> ipc_entry \<Rightarrow> bool" where
  "copyin_undo_ok msgt_name soright entry \<longleftrightarrow>
     (let bits = ie_bits entry;
          type = IE_BITS_TYPE bits
      in soright \<noteq> 0 \<or> type = MACH_PORT_TYPE_NONE \<or>
         type = MACH_PORT_TYPE_DEAD_NAME \<and> (msgt_name \<noteq> MACH_MSG_TYPE_COPY_SEND \<longrightarrow> IE_BITS_UREFS bits < MACH_PORT_UREFS_MAX) \<or>
         type = MACH_PORT_TYPE_SEND \<and> (msgt_name \<noteq> MACH_MSG_TYPE_COPY_SEND \<longrightarrow> IE_BITS_UREFS bits < MACH_PORT_UREFS_MAX - 1))"

lemma UREFS_less_max: "IE_BITS_UREFS b < MACH_PORT_UREFS_MAX - 1 \<longleftrightarrow> urefs b + 1 < 2 ^ 16 - 1"
  by (simp add: urefs_def word_less_nat_alt MACH_PORT_UREFS_MAX_def less_diff_conv)

lemma safe_check_drop:
  assumes "live sp {(name, e)} s" "\<And>x. get_entry sp e s = Some x \<Longrightarrow> bit (ie_bits x) 16 \<or> bit (ie_bits x) 18"
    "\<And>r s'. live sp {} s' \<Longrightarrow> R (r, s')"
  shows "post (ipc_right_check sp port name e s) R"
proof (cases "get_entry sp e s")
  case None
  have "R (False, s)" by (rule assms(3) [OF live_drop [OF assms(1)]])
  then show ?thesis
    unfolding ipc_right_check_def None by (auto simp: post_def bind_eq_Some_conv split: if_splits)
next
  case (Some x)
  show ?thesis by (rule safe_check [OF assms(1) Some assms(2) [OF Some]]) (use live_drop in \<open>blast intro: assms(3)\<close>)+
qed

lemma safe_copyin_undo:
  assumes l: "live sp {(name, e)} s" and x: "get_entry sp e s = Some x" and ok: "copyin_undo_ok msgt_name soright x"
    and R: "\<And>s'. live sp {} s' \<Longrightarrow> R s'"
  shows "post (ipc_right_copyin_undo sp name e msgt_name object soright s) R"
proof -
  let ?b = "ie_bits x"
  have right: "right_ok ?b" by (rule entry_right [OF l x])
  have dead: "right_ok (?b + 1)" if "\<not> soright \<noteq> 0" "IE_BITS_TYPE ?b = MACH_PORT_TYPE_DEAD_NAME" "msgt_name \<noteq> MACH_MSG_TYPE_COPY_SEND"
    using ok that ok_plus_1(2) [OF right] by (auto simp: copyin_undo_ok_def Let_def right_bits)
  have send: "IE_BITS_TYPE ?b = MACH_PORT_TYPE_SEND \<and> (msgt_name \<noteq> MACH_MSG_TYPE_COPY_SEND \<longrightarrow> urefs ?b + 1 < 2 ^ 16 - 1)"
    if "\<not> soright \<noteq> 0" "IE_BITS_TYPE ?b \<noteq> MACH_PORT_TYPE_DEAD_NAME" "IE_BITS_TYPE ?b \<noteq> MACH_PORT_TYPE_NONE"
    using ok that by (auto simp: copyin_undo_ok_def Let_def UREFS_less_max)
  have bit: "bit ?b 16" if "\<not> soright \<noteq> 0" "IE_BITS_TYPE ?b \<noteq> MACH_PORT_TYPE_DEAD_NAME" "IE_BITS_TYPE ?b \<noteq> MACH_PORT_TYPE_NONE"
    using send [OF that] by (simp add: right_bits)
  have inc: "right_ok (?b + 1)" "bit (?b + 1) 16" if "\<not> soright \<noteq> 0" "IE_BITS_TYPE ?b \<noteq> MACH_PORT_TYPE_DEAD_NAME"
    "IE_BITS_TYPE ?b \<noteq> MACH_PORT_TYPE_NONE" "msgt_name \<noteq> MACH_MSG_TYPE_COPY_SEND"
    using send [OF that(1-3)] bit [OF that(1-3)] that(4) ok_plus_1(1) [OF right] add_1(2) [of ?b 16] by simp_all
  show ?thesis
    unfolding ipc_right_copyin_undo_def x
    by (assumption | rule l R post_set_entry' safe_check_drop | rule safe_rules live_rules
      | (simp add: new_right x dead bit inc; fail) | (clarsimp simp: x bit inc))+
qed

text \<open>What the source asserts when a right is copied out: the entry is new, or has a right that can be combined.\<close>

definition copyout_ok :: "u32 \<Rightarrow> ipc_entry \<Rightarrow> bool" where
  "copyout_ok msgt_name entry \<longleftrightarrow>
     (let bits = ie_bits entry;
          fresh = (IE_BITS_TYPE bits = MACH_PORT_TYPE_NONE \<and> IE_BITS_UREFS bits = 0)
      in if msgt_name = MACH_MSG_TYPE_PORT_SEND_ONCE then fresh
         else if msgt_name = MACH_MSG_TYPE_PORT_SEND then bits AND MACH_PORT_TYPE_SEND_RECEIVE \<noteq> 0 \<or> fresh
         else bits AND MACH_PORT_TYPE_SEND \<noteq> 0 \<or> fresh)"

lemma UREFS_max: "IE_BITS_UREFS b + 1 = MACH_PORT_UREFS_MAX \<longleftrightarrow> urefs b + 1 = 2 ^ 16 - 1"
proof -
  have "unat (IE_BITS_UREFS b) + unat (1 :: u32) < 2 ^ LENGTH(32)" using urefs_less [of b] by (simp add: urefs_def)
  from unat_add_lem [THEN iffD1, OF this] have "unat (IE_BITS_UREFS b + 1) = urefs b + 1" by (simp add: urefs_def)
  then show ?thesis by (simp add: word_unat_eq_iff MACH_PORT_UREFS_MAX_def)
qed

lemma safe_copyout:
  assumes l: "live sp {(name, e)} s" and x: "get_entry sp e s = Some x" and ok: "copyout_ok msgt_name x"
    and R: "\<And>r s'. live sp {(name, e)} s' \<Longrightarrow> R (r, s')"
  shows "post (ipc_right_copyout sp name e msgt_name overflow port s) R"
proof -
  let ?b = "ie_bits x"
  have right: "right_ok ?b" by (rule entry_right [OF l x])
  have once: "right_ok (?b OR (MACH_PORT_TYPE_SEND_ONCE OR 1))" if "msgt_name = MACH_MSG_TYPE_PORT_SEND_ONCE"
    using ok that ok_copyout(1) [OF right] by (simp add: copyout_ok_def Let_def right_bits)
  have send: "right_ok ((?b OR MACH_PORT_TYPE_SEND) + 1)"
    if "msgt_name = MACH_MSG_TYPE_PORT_SEND" "msgt_name \<noteq> MACH_MSG_TYPE_PORT_SEND_ONCE"
      "\<not> (?b AND MACH_PORT_TYPE_SEND \<noteq> 0 \<and> IE_BITS_UREFS ?b + 1 = MACH_PORT_UREFS_MAX)"
    using ok that ok_copyout(2) [OF right] by (auto simp: copyout_ok_def Let_def right_bits UREFS_max)
  have receive: "right_ok (?b OR MACH_PORT_TYPE_RECEIVE)"
    if "msgt_name \<noteq> MACH_MSG_TYPE_PORT_SEND" "msgt_name \<noteq> MACH_MSG_TYPE_PORT_SEND_ONCE"
    using ok that ok_copyout(3) [OF right] by (auto simp: copyout_ok_def Let_def right_bits)
  show ?thesis
    unfolding ipc_right_copyout_def x
    by (assumption | rule l R | rule safe_rules live_put | (simp add: once send receive; fail))+
qed

section \<open>The old interface\<close>

lemma safe_compat_dealloc [safe_rules]:
  assumes "live sp {(name, e)} s" "get_entry sp e s = Some entry" "\<And>r s'. live sp {} s' \<Longrightarrow> R (r, s')"
  shows "post (compat_port_dealloc sp name e entry s) R" "post (compat_port_all_dealloc sp name e entry s) R"
  unfolding compat_port_dealloc_def compat_port_all_dealloc_def
  by (assumption | rule assms post_known | rule safe_rules safe_check post_case_prod live_rules | force simp: right_bits)+

lemma safe_compat_all [safe_rules]:
  assumes "live sp {(name, e)} s" "get_entry sp e s = Some entry" "\<And>r s'. live sp {} s' \<Longrightarrow> R (r, s')"
  shows "post (compat_port_all sp name e entry s) R"
proof -
  have x: "right_ok (ie_bits entry)" by (rule entry_right [OF assms(1,2)])
  have ok: "right_ok ((ie_bits entry OR (MACH_PORT_TYPE_SEND OR 1)) AND NOT MACH_PORT_TYPE_RECEIVE)"
    if "ie_bits entry AND MACH_PORT_TYPE_RECEIVE \<noteq> 0" "ie_bits entry AND MACH_PORT_TYPE_SEND = 0"
    using ok_copyout(4) [OF x] that by (simp add: right_bits)
  show ?thesis
    unfolding compat_port_all_def
    by (assumption | rule assms post_known | rule safe_rules live_rules | (simp add: ok; fail) | (simp add: x new_right; fail))+
qed

text \<open>The port of a receive right is alive.\<close>

definition receive_live :: "ipc_entry \<Rightarrow> ipc_state \<Rightarrow> bool" where
  "receive_live entry s \<longleftrightarrow>
     (ie_bits entry AND MACH_PORT_TYPE_RECEIVE \<noteq> 0 \<longrightarrow> (case ks_ports s (ie_object entry) of None \<Rightarrow> True | Some p \<Rightarrow> ip_active p))"

lemma check_live:
  assumes "live sp ps s" "receive_live x s" "bit (ie_bits x) 17" "R (False, s)"
  shows "post (ipc_right_check sp (ie_object x) name e s) R"
  using assms(2-) by (auto simp: ipc_right_check_def post_def receive_live_def right_bits bind_eq_Some_conv split: option.splits)

lemma safe_compat_copy:
  assumes "live sp {(name, e)} s" "get_entry sp e s = Some entry" "receive_live entry s" "\<And>r s'. live sp {} s' \<Longrightarrow> R (r, s')"
  shows "post (compat_port_copy sp name e entry s) R"
proof -
  have c: "post (ipc_right_check sp (ie_object entry) name e s) Q"
    if "ie_bits entry AND MACH_PORT_TYPE_SEND_RECEIVE \<noteq> 0" "\<And>r s'. live sp {} s' \<Longrightarrow> Q (r, s')" for Q
  proof (cases "bit (ie_bits entry) 16")
    case True
    show ?thesis by (rule safe_check_drop [OF assms(1)]) (use True assms(2) that(2) in auto)
  next
    case False
    then show ?thesis using that check_live [OF assms(1,3)] live_drop [OF assms(1)] by (simp add: right_bits)
  qed
  show ?thesis
    unfolding compat_port_copy_def by (assumption | rule assms c | rule safe_rules live_rules)+
qed

lemma safe_copyin_compat:
  assumes "live sp {(name, e)} s" "\<And>x. get_entry sp e s = Some x \<Longrightarrow> receive_live x s" "\<And>r s'. live sp {} s' \<Longrightarrow> R (r, s')"
  shows "post (ipc_right_copyin_compat sp name e msgt_name dealloc s) R"
  unfolding ipc_right_copyin_compat_def by (assumption | rule assms safe_compat_copy | rule safe_rules live_rules)+

lemma safe_copyin_header:
  assumes "live sp {(name, e)} s" "\<And>r s'. live sp {} s' \<Longrightarrow> R (r, s')"
  shows "post (ipc_right_copyin_header sp name e s) R"
  unfolding ipc_right_copyin_header_def
  by (assumption | rule assms post_known | rule safe_rules safe_check live_rules | force simp: right_bits)+

section \<open>All steps keep the spaces well typed\<close>

text \<open>Taking a free entry gives it the next generation.\<close>

lemma right_ok_next_gen: "right_ok (b + IE_BITS_GEN_ONE) \<longleftrightarrow> right_ok b"
proof (rule right_ok_cong, rule bit_word_eqI)
  fix n assume n: "n < LENGTH(32)"
  have "unat (b + IE_BITS_GEN_ONE) mod 2 ^ 24 = (unat b + 2 ^ 24) mod 2 ^ 32 mod 2 ^ 24"
    by (simp add: unat_word_ariths IE_BITS_GEN_ONE_def)
  also have "\<dots> = unat b mod 2 ^ 24" by (simp add: mod_mod_cancel)
  finally have "take_bit 24 (unat (b + IE_BITS_GEN_ONE)) = take_bit 24 (unat b)" by (simp add: take_bit_eq_mod)
  from arg_cong [OF this, of "\<lambda>w. bit w n"] have "n < 24 \<Longrightarrow> bit (b + IE_BITS_GEN_ONE) n = bit b n"
    by (simp add: bit_take_bit_iff bit_unat)
  then show "bit ((b + IE_BITS_GEN_ONE) AND IE_BITS_RIGHT_MASK) n = bit (b AND IE_BITS_RIGHT_MASK) n"
    by (auto simp: bit_simps mask_bits)
qed

lemma entry_get_ok:
  assumes ok: "space_ok w" and get: "ipc_entry_get w = Inr (name, e, w')"
  shows "space_ok w'"
proof -
  let ?T = "is_table w"
  define i where "i = ie_request (?T ! 0)"
  define v where "v = w\<lparr>is_table := ?T[0 := (?T ! 0)\<lparr>ie_request := ie_request (?T ! i)\<rparr>]\<rparr>"
  have v: "space_ok v"
  proof (cases "?T = []")
    case False
    then have "?T ! 0 \<in> set ?T" by simp
    then show ?thesis unfolding v_def using ok by (intro table_update_ok) (simp_all add: space_ok_def)
  qed (use ok in \<open>simp add: v_def space_ok_def\<close>)
  have w': "w' = v\<lparr>is_table := (is_table v)[i := (is_table v ! i)\<lparr>ie_bits := ie_bits (?T ! i) + IE_BITS_GEN_ONE, ie_request := 0\<rparr>]\<rparr>"
    using get by (auto simp: ipc_entry_get_def Let_def v_def i_def split: if_splits)
  show ?thesis
  proof (cases "i < length ?T")
    case True
    then have "?T ! i \<in> set ?T" by simp
    then have "right_ok (ie_bits (?T ! i))" using ok by (simp add: space_ok_def)
    then show ?thesis unfolding w' by (intro table_update_ok [OF v]) (simp add: right_ok_next_gen)
  next
    case False
    then have "length (is_table v) \<le> i" by (simp add: v_def)
    then show ?thesis unfolding w' using v by (simp add: list_update_beyond)
  qed
qed

text \<open>The pointer belongs to the name in the space \<open>sp\<close>.\<close>

definition names_entry :: "ptr \<Rightarrow> mach_port_t \<Rightarrow> ipc_entry_ptr \<Rightarrow> ipc_state \<Rightarrow> bool" where
  "names_entry sp name e s \<longleftrightarrow> (case ks_spaces s sp of None \<Rightarrow> False | Some w \<Rightarrow> ptr_ok w name e)"

inductive right_step :: "ipc_state \<Rightarrow> ipc_state \<Rightarrow> bool" where
  lookup: "entry_lookup sp name s = Some (e, s') \<Longrightarrow> right_step s s'"
| get: "ks_spaces s sp = Some w \<Longrightarrow> ipc_entry_get w = Inr (name, e, w') \<Longrightarrow> right_step s (put_space sp w' s)"
| dealloc_entry: "names_entry sp name e s \<Longrightarrow> entry_dealloc sp name e s = Some s' \<Longrightarrow> right_step s s'"
| inuse: "names_entry sp name e s \<Longrightarrow> ipc_right_inuse sp name e s = Some (b, s') \<Longrightarrow> right_step s s'"
| clean: "names_entry sp name e s \<Longrightarrow> ipc_right_clean port_destroy sp name e s = Some s' \<Longrightarrow> right_step s s'"
| destroy: "names_entry sp name e s \<Longrightarrow> ipc_right_destroy port_destroy sp name e s = Some (kr, s') \<Longrightarrow> right_step s s'"
| dealloc: "names_entry sp name e s \<Longrightarrow> ipc_right_dealloc sp name e s = Some (kr, s') \<Longrightarrow> right_step s s'"
| delta: "names_entry sp name e s \<Longrightarrow> ipc_right_delta sp name e rt d s = Some (kr, s') \<Longrightarrow> right_step s s'"
| info: "names_entry sp name e s \<Longrightarrow> ipc_right_info sp name e s = Some (r, s') \<Longrightarrow> right_step s s'"
| copyin: "names_entry sp name e s \<Longrightarrow> ipc_right_copyin sp name e msgt_name deadok s = Some (r, s') \<Longrightarrow> right_step s s'"
| copyin_undo: "names_entry sp name e s \<Longrightarrow> get_entry sp e s = Some x \<Longrightarrow> copyin_undo_ok msgt_name soright x \<Longrightarrow>
    ipc_right_copyin_undo sp name e msgt_name object soright s = Some s' \<Longrightarrow> right_step s s'"
| copyin_two: "names_entry sp name e s \<Longrightarrow> ipc_right_copyin_two sp name e s = Some (r, s') \<Longrightarrow> right_step s s'"
| copyout: "names_entry sp name e s \<Longrightarrow> get_entry sp e s = Some x \<Longrightarrow> copyout_ok msgt_name x \<Longrightarrow>
    ipc_right_copyout sp name e msgt_name overflow port s = Some (kr, s') \<Longrightarrow> right_step s s'"
| copyin_compat: "names_entry sp name e s \<Longrightarrow> get_entry sp e s = Some x \<Longrightarrow> receive_live x s \<Longrightarrow>
    ipc_right_copyin_compat sp name e msgt_name dealloc s = Some (c, s') \<Longrightarrow> right_step s s'"
| copyin_header: "names_entry sp name e s \<Longrightarrow> ipc_right_copyin_header sp name e s = Some (h, s') \<Longrightarrow> right_step s s'"
| port_destroy: "port_destroy port s = Some s' \<Longrightarrow> right_step s s'"

lemma names_entry_live: "names_entry sp name e s \<Longrightarrow> typed s \<Longrightarrow> live sp {(name, e)} s"
  by (simp add: names_entry_def live_def split: option.splits)

lemma post_typed: "m = Some (r, s') \<Longrightarrow> post m (\<lambda>x. typed (snd x)) \<Longrightarrow> typed s'" "m' = Some s' \<Longrightarrow> post m' typed \<Longrightarrow> typed s'"
  by (simp_all add: post_def)

lemmas safe_routines = safe_right_inuse safe_right_clean safe_right_destroy safe_right_dealloc safe_right_delta safe_right_info
  safe_right_copyin safe_copyin_undo safe_copyin_two safe_copyout safe_copyin_compat safe_copyin_header safe_port_destroy_2

lemma port_destroy_safe: "safe_op port_destroy"
  unfolding port_destroy_def by (rule safe_port_destroy)

lemma right_step_typed: "right_step s s' \<Longrightarrow> typed s \<Longrightarrow> typed s'"
proof (induction rule: right_step.induct)
  case (lookup sp name s e s')
  have "post (entry_lookup sp name s) (\<lambda>x. typed (snd x))"
    by (rule post_entry_lookup [OF lookup.prems]) (auto dest: live_typed)
  then show ?case by (rule post_typed(1) [OF lookup.hyps])
next
  case (get s sp w name e w')
  then show ?case using entry_get_ok [of w] by (auto simp: typed_def)
next
  case (dealloc_entry sp name e s s')
  then show ?case using postD [OF post_entry_dealloc [OF names_entry_live]] by blast
qed ((rule post_typed, assumption, rule safe_routines,
    (assumption | rule names_entry_live port_destroy_safe | simp only: snd_conv | erule live_typed | (simp del: ipc_right_delta.simps; fail))+)+)

lemma right_steps_typed: "right_step\<^sup>*\<^sup>* s s' \<Longrightarrow> typed s \<Longrightarrow> typed s'"
  by (induction rule: rtranclp_induct) (auto intro: right_step_typed)

text \<open>A sample: the space has a receive right under the name 256.\<close>

definition sample_typed :: ipc_state where
  "sample_typed = put_port 7 sample_port (put_space 5 sample_named empty_state)"

lemma sample_table:
  "is_table sample_named =
    [\<lparr>ie_bits = 0xff000000, ie_object = 0, ie_request = 2, ie_index = 0\<rparr>, \<lparr>ie_bits = 0x20000, ie_object = 7, ie_request = 0, ie_index = 0\<rparr>,
     \<lparr>ie_bits = 0xff000000, ie_object = 0, ie_request = 3, ie_index = 0\<rparr>, \<lparr>ie_bits = 0xff000000, ie_object = 0, ie_request = 0, ie_index = 0\<rparr>]"
  "ist_inorder (is_tree sample_named) = []" "is_table_size sample_named = 4"
  by code_simp+

lemma sample_typed_ok: "typed sample_typed"
proof -
  have "right_ok 0xff000000" "right_ok 0x20000" by code_simp+
  moreover have "ist_inv (is_tree sample_named)" using names_invD(7) [OF sample_named_names(1)] .
  ultimately have "space_ok sample_named" by (simp add: space_ok_def sample_table)
  then show ?thesis by (auto simp: typed_def sample_typed_def empty_state_def)
qed



end
