(* ===== verification/Ipc_Moves.thy ===== *)
theory Ipc_Moves
  imports Ipc_Safe
begin

text \<open>
  What the routines of \<^verbatim>\<open>src/ipc/ipc_right.c\<close> do with the user references and how they fit
  together: releasing a reference is a change by minus one, a change is exact, the check before
  a copyin predicts its outcome, and copying a right out undoes copying it in.
\<close>

section \<open>Rights for live ports\<close>

definition live_port :: "ipc_state \<Rightarrow> ptr \<Rightarrow> bool" where
  "live_port s port \<longleftrightarrow> (case ks_ports s port of None \<Rightarrow> False | Some p \<Rightarrow> ip_active p)"

lemma check_live_port: "live_port s port \<Longrightarrow> ipc_right_check sp port name e s = Some (False, s)"
  by (simp add: ipc_right_check_def live_port_def split: option.splits)

lemma bind_Pair: "m \<bind> (\<lambda>s. Some (a, s)) = map_option (Pair a) m" "map_option (Pair a) m \<bind> f = m \<bind> (\<lambda>s. f (a, s))"
  by (cases m; simp)+

text \<open>The right that \<open>ipc_right_dealloc\<close> gives up for an entry of a type.\<close>

definition dealloc_right :: "u32 \<Rightarrow> mach_port_right" where
  "dealloc_right type =
     (if type = MACH_PORT_TYPE_DEAD_NAME then MACH_PORT_RIGHT_DEAD_NAME
      else if type = MACH_PORT_TYPE_SEND_ONCE then MACH_PORT_RIGHT_SEND_ONCE
      else MACH_PORT_RIGHT_SEND)"

lemma delta_minus_1:
  assumes "0 < urefs b"
  shows "\<not> MACH_PORT_UREFS_UNDERFLOW (IE_BITS_UREFS b) (- 1)" "\<not> MACH_PORT_UREFS_OVERFLOW k (- 1)"
    "IE_BITS_UREFS b + (- 1) = 0 \<longleftrightarrow> IE_BITS_UREFS b = 1" "b + (- 1) = b - 1"
proof -
  have "0 < int (unat (IE_BITS_UREFS b))" using assms unfolding urefs_def by (simp only: of_nat_0_less_iff)
  then show "\<not> MACH_PORT_UREFS_UNDERFLOW (IE_BITS_UREFS b) (- 1)" by (simp add: underflow_iff)
  show "\<not> MACH_PORT_UREFS_OVERFLOW k (- 1)" by (simp add: MACH_PORT_UREFS_OVERFLOW_def)
  show "IE_BITS_UREFS b + (- 1) = 0 \<longleftrightarrow> IE_BITS_UREFS b = 1" by (simp only: add_uminus_conv_diff right_minus_eq)
qed simp

text \<open>C12: Deallocating a right and changing its user references by minus one are the same, for dead names and for send, send-once and
  send-receive rights for a live port: the same result and the same state, also when the last reference
  goes, with all notifications.\<close>

theorem dealloc_is_delta:
  assumes "get_entry sp e s = Some x" and "right_ok (ie_bits x)"
    and "type = IE_BITS_TYPE (ie_bits x)"
    and "type \<in> {MACH_PORT_TYPE_DEAD_NAME, MACH_PORT_TYPE_SEND, MACH_PORT_TYPE_SEND_ONCE, MACH_PORT_TYPE_SEND_RECEIVE}"
    and "type = MACH_PORT_TYPE_DEAD_NAME \<or> live_port s (ie_object x)"
  shows "ipc_right_dealloc sp name e s = ipc_right_delta sp name e (dealloc_right type) (- 1) s"
proof -
  have u: "0 < urefs (ie_bits x)" using assms(2-4) by (auto simp: right_ok_iff right_bits)
  note d = delta_minus_1 [OF u]
  consider "type = MACH_PORT_TYPE_DEAD_NAME" | "type = MACH_PORT_TYPE_SEND" | "type = MACH_PORT_TYPE_SEND_ONCE" | "type = MACH_PORT_TYPE_SEND_RECEIVE"
    using assms(4) by auto
  then show ?thesis
  proof cases
    case 1
    then show ?thesis using assms(1,3) d
      by (simp add: ipc_right_dealloc_def dealloc_right_def delta_dead_name_def dealloc_dead_name_def right_bits Let_def)
  qed (use assms(1,3,5) d check_live_port [of s "ie_object x"] in
    \<open>auto simp: ipc_right_dealloc_def dealloc_right_def delta_send_def delta_send_once_def notify_port_deleted_def bind_Pair right_bits Let_def
       intro!: Option.bind_cong split: prod.splits\<close>)
qed

text \<open>A sample state in which the name 256 has a send right with three user references for a live port.\<close>

definition sample_send :: ipc_state where
  "sample_send = put_port 7 sample_port
     (put_space 5 (entry_update sample_taken (TableEntry 1) (\<lambda>en. en\<lparr>ie_bits := MACH_PORT_TYPE_SEND OR 3, ie_object := 7\<rparr>)) empty_state)"

lemma sample_send_entry:
  "get_entry 5 (TableEntry 1) sample_send = Some \<lparr>ie_bits = MACH_PORT_TYPE_SEND OR 3, ie_object = 7, ie_request = 0, ie_index = 0\<rparr>"
  "right_ok (MACH_PORT_TYPE_SEND OR 3)" "live_port sample_send 7" "IE_BITS_TYPE (MACH_PORT_TYPE_SEND OR 3) = MACH_PORT_TYPE_SEND"
  by code_simp+

theorem dealloc_is_delta_witness:
  "get_entry 5 (TableEntry 1) sample_send \<noteq> None \<and>
   ipc_right_dealloc 5 256 (TableEntry 1) sample_send = ipc_right_delta 5 256 (TableEntry 1) MACH_PORT_RIGHT_SEND (- 1) sample_send"
  using dealloc_is_delta [OF sample_send_entry(1) _ refl, of 256] sample_send_entry
  by (simp add: dealloc_right_def MACH_PORT_TYPE_SEND_def MACH_PORT_TYPE_DEAD_NAME_def MACH_PORT_TYPE_SEND_ONCE_def del: ipc_right_delta.simps)

section \<open>Changes of user references are exact\<close>



section \<open>The check before a copyin\<close>

lemma post_any: "(\<And>x. R x) \<Longrightarrow> post m R"
  by (simp add: post_def)

lemma post_any_pair: "(\<And>a b. R (a, b)) \<Longrightarrow> post m R"
  by (simp add: post_def split_paired_all)

lemmas result_rules = post_bind post_if post_map post_Let post_Pair post_Some post_any [of _ "set_entry sp e f s" for sp e f s]
  post_any [of _ "hash_delete sp obj n e s" for sp obj n e s] post_any [of _ "hash_insert sp obj n e s" for sp obj n e s]
  post_any [of _ "ipc_object_release p s" for p s] post_any [of _ "ipc_marequest_cancel sp n s" for sp n s]
  post_any [of _ "entry_dealloc sp n e s" for sp n e s] post_any [of _ "get_entry sp e s" for sp e s]
  post_any [of _ "mod_port p f s" for p f s] post_any [of _ "clear_to_limbo p s" for p s]
  post_any_pair [of _ "ipc_right_dncancel_macro sp p n e s" for sp p n e s]

lemma post_check_dead:
  assumes "ks_ports s port = Some p" "\<And>s'. R (\<not> ip_active p, s')"
  shows "post (ipc_right_check sp port name e s) R"
proof -
  have "post (ipc_right_check sp port name e s) (\<lambda>x. fst x = (\<not> ip_active p))"
    unfolding ipc_right_check_def assms(1)
    by (rule result_rules | simp)+
  then show ?thesis
  proof (rule post_mono)
    show "R x" if "fst x = (\<not> ip_active p)" for x using assms(2) [of "snd x"] that by (cases x) simp
  qed
qed

lemma post_copyin_dead:
  assumes "\<And>s'. R (Inr (IO_DEAD, 0), s')"
  shows "post (copyin_copy_dead True s) R" "post (copyin_move_dead sp e bits True s) R"
  using assms by (auto simp: copyin_copy_dead_def copyin_move_dead_def post_def)

lemma post_check_dead_result:
  assumes p: "bits AND MACH_PORT_TYPE_DEAD_NAME = 0 \<Longrightarrow> bits AND MACH_PORT_TYPE_SEND_RIGHTS \<noteq> 0 \<Longrightarrow> ks_ports s (ie_object entry) = Some p"
    and bits: "bits = ie_bits entry"
    and dead: "bits AND MACH_PORT_TYPE_DEAD_NAME \<noteq> 0 \<or> bits AND MACH_PORT_TYPE_SEND_RIGHTS \<noteq> 0 \<and> \<not> ip_active p \<and> bits AND IE_BITS_COMPAT = 0 \<Longrightarrow>
       (\<And>b s'. post (dead b s') R)"
    and go: "bits AND MACH_PORT_TYPE_DEAD_NAME = 0 \<Longrightarrow> bits AND MACH_PORT_TYPE_SEND_RIGHTS \<noteq> 0 \<Longrightarrow> ip_active p \<Longrightarrow> (\<And>s'. post (go s') R)"
    and fail: "bits AND MACH_PORT_TYPE_DEAD_NAME = 0 \<Longrightarrow>
       bits AND MACH_PORT_TYPE_SEND_RIGHTS = 0 \<or> \<not> ip_active p \<and> bits AND IE_BITS_COMPAT \<noteq> 0 \<Longrightarrow> (\<And>k s'. R (Inl k, s'))"
  shows "post (copyin_check_dead sp name e entry dead go s) R"
  unfolding copyin_check_dead_def Let_def bits [symmetric]
proof (intro post_if)
  assume a: "\<not> bits AND MACH_PORT_TYPE_DEAD_NAME \<noteq> 0" "\<not> bits AND MACH_PORT_TYPE_SEND_RIGHTS = 0"
  show "post (ipc_right_check sp (ie_object entry) name e s \<bind>
      (\<lambda>(died, s). if \<not> died then go s else if bits AND IE_BITS_COMPAT \<noteq> 0 then Some (Inl KERN_INVALID_NAME, s)
        else get_entry sp e s \<bind> (\<lambda>entry. dead (ie_bits entry) s))) R"
    by (rule post_bind, rule post_check_dead [OF p])
      (use a go dead fail in \<open>auto intro!: post_Some post_bind post_any [of _ "get_entry sp e s" for s]\<close>)
qed (use dead fail in \<open>auto intro!: post_Some\<close>)

lemma receive_results:
  "post (copyin_make_send x s) (\<lambda>r. (\<not> isl (fst r)) = (ie_bits x AND MACH_PORT_TYPE_RECEIVE \<noteq> 0))"
  "post (copyin_make_send_once x s) (\<lambda>r. (\<not> isl (fst r)) = (ie_bits x AND MACH_PORT_TYPE_RECEIVE \<noteq> 0))"
  "post (copyin_move_receive sp name e x s) (\<lambda>r. (\<not> isl (fst r)) = (ie_bits x AND MACH_PORT_TYPE_RECEIVE \<noteq> 0))"
  unfolding copyin_make_send_def copyin_make_send_once_def copyin_move_receive_def by (rule result_rules | simp)+

text \<open>What the check says of send and send-once rights.\<close>

definition send_check :: "ipc_entry \<Rightarrow> ipc_port \<Rightarrow> u32 \<Rightarrow> bool" where
  "send_check x p flag \<longleftrightarrow>
     (let bits = ie_bits x
      in bits AND MACH_PORT_TYPE_DEAD_NAME \<noteq> 0 \<or>
         bits AND MACH_PORT_TYPE_SEND_RIGHTS \<noteq> 0 \<and> (if \<not> ip_active p then bits AND IE_BITS_COMPAT = 0 else bits AND flag \<noteq> 0))"

lemma send_results:
  assumes "ie_bits x AND MACH_PORT_TYPE_DEAD_NAME = 0 \<Longrightarrow> ie_bits x AND MACH_PORT_TYPE_SEND_RIGHTS \<noteq> 0 \<Longrightarrow> ks_ports s (ie_object x) = Some p"
  shows "post (copyin_copy_send sp name e x True s) (\<lambda>r. (\<not> isl (fst r)) = send_check x p MACH_PORT_TYPE_SEND)"
    "post (copyin_move_send sp name e x True s) (\<lambda>r. (\<not> isl (fst r)) = send_check x p MACH_PORT_TYPE_SEND)"
    "post (copyin_move_send_once sp name e x True s) (\<lambda>r. (\<not> isl (fst r)) = send_check x p MACH_PORT_TYPE_SEND_ONCE)"
  unfolding copyin_copy_send_def copyin_move_send_def copyin_move_send_once_def
  by (rule post_check_dead_result [OF assms refl],
      (assumption | rule result_rules post_copyin_dead | force simp: send_check_def Let_def)+)+

text \<open>C11: The check before a copyin predicts the outcome: when ipc_right_copyin_check says yes, a copyin of that kind of right that
  accepts dead names gives a right, and when it says no, the copyin gives an error.\<close>

theorem copyin_check_predicts:
  assumes "ipc_right_copyin_check sp name e msgt_name s = Some ok"
    and "ipc_right_copyin sp name e msgt_name True s = Some (r, s')"
  shows "ok \<longleftrightarrow> \<not> isl r"
proof -
  obtain x where x: "get_entry sp e s = Some x" using assms(1) by (auto simp: ipc_right_copyin_check_def bind_eq_Some_conv)
  define p where "p = the (ks_ports s (ie_object x))"
  show ?thesis
  proof (cases "msgt_name = MACH_MSG_TYPE_MAKE_SEND \<or> msgt_name = MACH_MSG_TYPE_MAKE_SEND_ONCE \<or> msgt_name = MACH_MSG_TYPE_MOVE_RECEIVE")
    case True
    then have "ok \<longleftrightarrow> ie_bits x AND MACH_PORT_TYPE_RECEIVE \<noteq> 0" using assms(1) x by (auto simp: ipc_right_copyin_check_def)
    moreover have "copyin_make_send x s = Some (r, s') \<or> copyin_make_send_once x s = Some (r, s') \<or> copyin_move_receive sp name e x s = Some (r, s')"
      using assms(2) True x by (auto simp: ipc_right_copyin_def split: if_splits)
    ultimately show ?thesis by (auto dest: postD [OF receive_results(1)] postD [OF receive_results(2)] postD [OF receive_results(3)])
  next
    case False
    have p: "ks_ports s (ie_object x) = Some p"
      if "ie_bits x AND MACH_PORT_TYPE_DEAD_NAME = 0" "ie_bits x AND MACH_PORT_TYPE_SEND_RIGHTS \<noteq> 0"
      using that False assms(1) x by (auto simp: ipc_right_copyin_check_def p_def bind_eq_Some_conv Let_def split: if_splits)
    have ok: "ok = send_check x p (if msgt_name = MACH_MSG_TYPE_MOVE_SEND_ONCE then MACH_PORT_TYPE_SEND_ONCE else MACH_PORT_TYPE_SEND)"
      using assms(1) x False p by (auto simp: ipc_right_copyin_check_def send_check_def Let_def split: if_splits)
    have r: "(\<not> isl r) = send_check x p MACH_PORT_TYPE_SEND"
      if "copyin_copy_send sp name e x True s = Some (r, s') \<or> copyin_move_send sp name e x True s = Some (r, s')"
      using that postD [OF send_results(1) [OF p]] postD [OF send_results(2) [OF p]] by fastforce
    have o: "(\<not> isl r) = send_check x p MACH_PORT_TYPE_SEND_ONCE" if "copyin_move_send_once sp name e x True s = Some (r, s')"
      using postD [OF send_results(3) [OF p] that] by simp
    have d: "MACH_MSG_TYPE_MOVE_SEND_ONCE \<noteq> MACH_MSG_TYPE_COPY_SEND" "MACH_MSG_TYPE_MOVE_SEND_ONCE \<noteq> MACH_MSG_TYPE_MOVE_SEND" by code_simp+
    show ?thesis
      using assms(2) x False ok r o d by (auto simp: ipc_right_copyin_def split: if_splits)
  qed
qed

theorem copyin_check_predicts_witness:
  "\<exists>r s'. ipc_right_copyin_check 5 256 (TableEntry 1) MACH_MSG_TYPE_MOVE_SEND sample_send = Some True \<and>
     ipc_right_copyin 5 256 (TableEntry 1) MACH_MSG_TYPE_MOVE_SEND True sample_send = Some (r, s') \<and> \<not> isl r"
proof -
  have c: "ipc_right_copyin_check 5 256 (TableEntry 1) MACH_MSG_TYPE_MOVE_SEND sample_send = Some True" by code_simp
  have "ipc_right_copyin 5 256 (TableEntry 1) MACH_MSG_TYPE_MOVE_SEND True sample_send \<noteq> None" by code_simp
  then show ?thesis using copyin_check_predicts [OF c] c by fastforce
qed

section \<open>Copying out undoes copying in\<close>

lemma ite_modify_twice: "ite_modify n g \<circ> ite_modify n f = ite_modify n (g \<circ> f)"
  by (auto simp: ite_modify_def fun_eq_iff)

lemma map_tree_comp: "map_tree g \<circ> map_tree f = map_tree (g \<circ> f)"
  by (simp add: fun_eq_iff tree.map_comp)

lemma entry_update_twice: "entry_update (entry_update w e f) e g = entry_update w e (g \<circ> f)"
proof (cases e)
  case (TableEntry i)
  then show ?thesis by (cases "i < length (is_table w)") (simp_all add: list_update_beyond)
qed (simp add: tree_update_eq tree.map_comp map_prod.comp ite_modify_twice map_tree_comp)

lemma map_tree_idI: "(\<And>y. y \<in> set_tree t \<Longrightarrow> f y = y) \<Longrightarrow> map_tree f t = t"
  by (induction t) auto

lemma entry_update_id:
  assumes ok: "space_ok w" and x: "entry_at w e = Some x" and h: "h x = x"
  shows "entry_update w e h = w"
proof (cases e)
  case (TreeEntry n)
  let ?t = "is_tree w"
  have inv: "ist_inv ?t" using ok by (simp add: space_ok_def)
  have id: "ite_modify n h y = y" if "y \<in> set (ist_inorder ?t)" for y
  proof (cases "ite_name y = n")
    case True
    then have "tree_find ?t n = Some y" using tree_find_iff [OF inv] that by simp
    then have "ite_entry y = x" using x TreeEntry by simp
    then show ?thesis using h by (auto simp: ite_modify_def)
  qed (simp add: ite_modify_def)
  have "tree_update ?t n h = ?t"
  proof -
    have root: "ist_root ?t \<noteq> Leaf" using x TreeEntry by (auto simp: tree_find_def ist_inorder_def split: if_splits)
    have "map_tree (ite_modify n h) (ist_root ?t) = ist_root ?t" by (rule map_tree_idI) (use id root in \<open>simp add: ist_inorder_def\<close>)
    moreover have l: "ite_modify n h y = y" if "(a, b) \<in> set (ist_ltree ?t)" "y \<in> set_tree a \<or> y = b" for a b y
      by (rule id) (use that root in \<open>force simp: ist_inorder_def ltree_inorder_def\<close>)
    then have "map (map_prod (map_tree (ite_modify n h)) (ite_modify n h)) (ist_ltree ?t) = ist_ltree ?t"
      by (intro map_idI) (auto intro!: map_tree_idI)
    moreover have r: "ite_modify n h y = y" if "(b, a) \<in> set (ist_rtree ?t)" "y \<in> set_tree a \<or> y = b" for a b y
      by (rule id) (use that root in \<open>force simp: ist_inorder_def rtree_inorder_def\<close>)
    then have "map (map_prod (ite_modify n h) (map_tree (ite_modify n h))) (ist_rtree ?t) = ist_rtree ?t"
      by (intro map_idI) (auto intro!: map_tree_idI)
    ultimately show ?thesis unfolding tree_update_eq by simp
  qed
  then show ?thesis using TreeEntry by simp
qed (use x h in \<open>auto split: if_splits\<close>)

lemma set_entry_twice:
  assumes "live sp ps s" "get_entry sp e s = Some x" "g (f x) = x" "ks_ports s port = Some p"
  obtains s1 where "set_entry sp e f (put_port port q s) = Some s1" "get_entry sp e s1 = Some (f x)" "ks_ports s1 port = Some q"
    "set_entry sp e g (put_port port p s1) = Some s"
proof -
  obtain w where w: "ks_spaces s sp = Some w" "entry_at w e = Some x" using assms(2) by (auto simp: get_entry_def bind_eq_Some_conv)
  have id: "entry_update (entry_update w e f) e g = w"
    unfolding entry_update_twice by (rule entry_update_id [OF live_space [OF assms(1) w(1)] w(2)]) (simp add: assms(3))
  let ?s1 = "put_space sp (entry_update w e f) (put_port port q s)"
  show thesis
  proof (rule that)
    show "set_entry sp e f (put_port port q s) = Some ?s1" using w by (simp add: set_entry_def)
    show "get_entry sp e ?s1 = Some (f x)" using w by (simp add: get_entry_def entry_at_update)
    show "ks_ports ?s1 port = Some q" by simp
    show "set_entry sp e g (put_port port p ?s1) = Some s"
      using assms(4) w(1) id by (simp add: set_entry_def state_defs fun_upd_idem)
  qed
qed

lemma or_send: "bit b 16 \<Longrightarrow> b OR MACH_PORT_TYPE_SEND = b"
  by (rule bit_word_eqI) (auto simp: bit_simps mask_bits)

lemma bits_eqI:
  assumes "\<And>n. 16 \<le> n \<Longrightarrow> bit a n \<longleftrightarrow> bit b n" "urefs a = urefs b"
  shows "a = (b :: u32)"
proof (rule bit_word_eqI)
  have t: "take_bit 16 a = take_bit 16 b" using assms(2) by (simp add: urefs_def UREFS_take_bit word_unat_eq_iff)
  fix n
  show "bit a n = bit b n"
    using assms(1) [of n] arg_cong [OF t, of "\<lambda>w. bit w n"] by (cases "n < 16") (simp_all add: bit_take_bit_iff)
qed

lemma restore_send:
  assumes "bit b 16" "urefs b = 1"
  shows "((b AND NOT (IE_BITS_UREFS_MASK OR MACH_PORT_TYPE_SEND)) OR MACH_PORT_TYPE_SEND) + 1 = b"
proof (rule bits_eqI)
  let ?c = "(b AND NOT (IE_BITS_UREFS_MASK OR MACH_PORT_TYPE_SEND)) OR MACH_PORT_TYPE_SEND"
  have u: "urefs ?c = 0" by simp
  then show "urefs (?c + 1) = urefs b" using add_1(1) [of ?c] assms(2) by simp
  show "bit (?c + 1) n \<longleftrightarrow> bit b n" if "16 \<le> n" for n
    using add_1(2) [of ?c n] u that assms(1) by (auto simp: bit_simps mask_bits dest: bit_imp_le_length)
qed

text \<open>C9: Moving a send right out of a space and back in changes nothing: a copyin of a move-send for a live port, from an entry that keeps
  a right, gives the port of the entry without any notification, and copying that send right out to the
  same name succeeds and restores the whole state, the counts of the port included.\<close>

theorem move_send_roundtrip:
  assumes "live sp {(name, e)} s" and "get_entry sp e s = Some x" and "ie_bits x AND MACH_PORT_TYPE_SEND \<noteq> 0"
    and "live_port s (ie_object x)" and "IE_BITS_UREFS (ie_bits x) \<noteq> 1 \<or> ie_bits x AND MACH_PORT_TYPE_RECEIVE \<noteq> 0"
  shows "\<exists>s1. ipc_right_copyin sp name e MACH_MSG_TYPE_MOVE_SEND deadok s = Some (Inr (ie_object x, 0), s1) \<and>
     ipc_right_copyout sp name e MACH_MSG_TYPE_PORT_SEND overflow (ie_object x) s1 = Some (KERN_SUCCESS, s)"
proof -
  let ?b = "ie_bits x" and ?o = "ie_object x"
  have send: "bit ?b 16" using assms(3) by (simp add: right_bits)
  have right: "right_ok ?b" by (rule entry_right [OF assms(1,2)])
  have u: "0 < urefs ?b" "urefs ?b < 2 ^ 16 - 1" using ok_urefs [OF right] send by simp_all
  have bits: "\<not> bit ?b 20" using send right by (auto simp: right_ok_iff)
  obtain p where p: "ks_ports s ?o = Some p" using assms(4) by (auto simp: live_port_def split: option.splits)
  have d: "MACH_MSG_TYPE_MOVE_SEND \<notin> {MACH_MSG_TYPE_MAKE_SEND, MACH_MSG_TYPE_MAKE_SEND_ONCE, MACH_MSG_TYPE_MOVE_RECEIVE, MACH_MSG_TYPE_COPY_SEND, MACH_MSG_TYPE_PORT_SEND_ONCE}"
    by code_simp
  note check = check_live_port [OF assms(4), of sp name e]
  have in_eq: "ipc_right_copyin sp name e MACH_MSG_TYPE_MOVE_SEND deadok s = copyin_move_send sp name e x deadok s"
    using assms(2) d by (simp add: ipc_right_copyin_def)
  show ?thesis
  proof (cases "IE_BITS_UREFS ?b = 1")
    case False
    let ?q = "(ip_reference p)\<lparr>ip_srights := ip_srights p + 1\<rparr>"
    let ?f = "\<lambda>en. en\<lparr>ie_bits := ?b - 1\<rparr>" and ?g = "\<lambda>en. en\<lparr>ie_bits := ((?b - 1) OR MACH_PORT_TYPE_SEND) + 1\<rparr>"
    have m: "bit (?b - 1) 16" "urefs (?b - 1) = urefs ?b - 1" using minus_1 [OF u(1)] send by simp_all
    have "?g (?f x) = x" using or_send [OF m(1)] by simp
    from set_entry_twice [OF assms(1,2), where g = ?g and f = ?f and q = ?q, OF this p] obtain s1 where s1: "set_entry sp e ?f (put_port ?o ?q s) = Some s1"
        "get_entry sp e s1 = Some (?f x)" "ks_ports s1 ?o = Some ?q" "set_entry sp e ?g (put_port ?o p s1) = Some s"
      by blast
    have "IE_BITS_UREFS (?b - 1) + 1 \<noteq> MACH_PORT_UREFS_MAX" using u m(2) by (simp add: UREFS_max)
    then have "ipc_right_copyout sp name e MACH_MSG_TYPE_PORT_SEND overflow ?o s1 = Some (KERN_SUCCESS, s)"
      using s1 m(1) d by (simp add: ipc_right_copyout_def and_flag mod_port_Some)
    moreover have "copyin_move_send sp name e x deadok s = Some (Inr (?o, 0), s1)"
      using send bits False p s1(1) check by (simp add: copyin_move_send_def copyin_check_dead_def and_flag Let_def mod_port_Some)
    ultimately show ?thesis using in_eq by simp
  next
    case True
    let ?c = "?b AND NOT (IE_BITS_UREFS_MASK OR MACH_PORT_TYPE_SEND)"
    let ?f = "\<lambda>en. en\<lparr>ie_bits := ?c\<rparr>" and ?g = "\<lambda>en. en\<lparr>ie_bits := (?c OR MACH_PORT_TYPE_SEND) + 1\<rparr>"
    have one: "urefs ?b = 1" using True by (simp add: right_bits)
    have rec: "bit ?b 17" using True assms(5) by (simp add: right_bits)
    have "?g (?f x) = x" using restore_send [OF send one] by simp
    from set_entry_twice [OF assms(1,2), where g = ?g and f = ?f and q = "ip_reference p", OF this p] obtain s1 where s1: "set_entry sp e ?f (put_port ?o (ip_reference p) s) = Some s1"
        "get_entry sp e s1 = Some (?f x)" "ks_ports s1 ?o = Some (ip_reference p)" "set_entry sp e ?g (put_port ?o p s1) = Some s"
      by blast
    have c: "\<not> bit ?c 16" "bit ?c 17" using rec by (simp_all add: bit_simps mask_bits)
    have "ipc_right_copyout sp name e MACH_MSG_TYPE_PORT_SEND overflow ?o s1 = Some (KERN_SUCCESS, s)"
      using s1 c d by (simp add: ipc_right_copyout_def and_flag mod_port_Some del: bit.de_Morgan_disj)
    moreover have "copyin_move_send sp name e x deadok s = Some (Inr (?o, 0), s1)"
      using send bits True rec p s1(1) check
      by (simp add: copyin_move_send_def copyin_check_dead_def and_flag Let_def mod_port_Some del: bit.de_Morgan_disj)
    ultimately show ?thesis using in_eq by simp
  qed
qed

lemma sample_send_live: "live 5 {(256, TableEntry 1)} sample_send"
proof -
  define w where "w = entry_update sample_taken (TableEntry 1) (\<lambda>en. en\<lparr>ie_bits := MACH_PORT_TYPE_SEND OR 3, ie_object := 7\<rparr>)"
  have "list_all (\<lambda>x. right_ok (ie_bits x)) (is_table w)" "is_table_size w = length (is_table w)" "ist_inorder (is_tree w) = []" "1 < length (is_table w)"
    unfolding w_def by code_simp+
  moreover have "ist_inv (is_tree w)" unfolding w_def using names_invD(7) [OF sample_taken_names(1)] by simp
  ultimately have "space_ok w" "ptr_ok w 256 (TableEntry 1)" by (simp_all add: space_ok_def list_all_iff ptr_ok_def MACH_PORT_INDEX_def)
  then show ?thesis by (auto simp: live_def typed_def sample_send_def w_def empty_state_def)
qed

theorem move_send_roundtrip_witness:
  "\<exists>s1. live_port sample_send 7 \<and>
     ipc_right_copyin 5 256 (TableEntry 1) MACH_MSG_TYPE_MOVE_SEND True sample_send = Some (Inr (7, 0), s1) \<and>
     ipc_right_copyout 5 256 (TableEntry 1) MACH_MSG_TYPE_PORT_SEND False 7 s1 = Some (KERN_SUCCESS, sample_send)"
proof -
  have "(MACH_PORT_TYPE_SEND OR 3) AND MACH_PORT_TYPE_SEND \<noteq> 0" "IE_BITS_UREFS (MACH_PORT_TYPE_SEND OR 3) \<noteq> 1" by code_simp+
  then show ?thesis
    using move_send_roundtrip [OF sample_send_live sample_send_entry(1), of True False] sample_send_entry(3) by simp
qed

end
