(* ===== verification/Ipc_Depth.thy ===== *)
theory Ipc_Depth
  imports Ipc_Post
begin

text \<open>
  The depth of the recursion in the destruction of ports.  A port that is dead stays dead, so the
  notifications that the destruction of a port sends do not destroy a further port; and a port whose backup
  port has been taken is destroyed without looking for one again.
\<close>

section \<open>Facts about a port that routines keep\<close>

definition port_holds :: "(ipc_port \<Rightarrow> bool) \<Rightarrow> ptr \<Rightarrow> ipc_state \<Rightarrow> bool" where
  "port_holds K q s \<longleftrightarrow> (\<forall>p. ks_ports s q = Some p \<longrightarrow> K p)"

named_theorems keep_rules \<open>rules for routines that keep a fact about a port\<close>

lemmas post_text = post_bind post_Some post_None post_if post_map post_Let post_Pair post_sum post_option
  post_read [of "ks_ports s p" for s p] post_read [of "ks_psets s p" for s p] post_read [of "ks_spaces s p" for s p]
  post_read [of "ks_marequests s p" for s p] post_read [of "get_mqueue q s" for q s] post_read [of "get_entry sp e s" for sp e s]

lemma port_holdsD: "port_holds K q s \<Longrightarrow> ks_ports s q = Some p \<Longrightarrow> K p"
  by (simp add: port_holds_def)

lemma holds_ports: "port_holds K q s \<Longrightarrow> ks_ports s' = ks_ports s \<Longrightarrow> port_holds K q s'"
  by (simp add: port_holds_def)

lemma holds_updates [simp]:
  "port_holds K q (put_space sp is s) \<longleftrightarrow> port_holds K q s" "port_holds K q (put_pset ps x s) \<longleftrightarrow> port_holds K q s"
  "port_holds K q (put_thread th t s) \<longleftrightarrow> port_holds K q s" "port_holds K q (effect ef s) \<longleftrightarrow> port_holds K q s"
  "port_holds K q (imar_put m r s) \<longleftrightarrow> port_holds K q s" "port_holds K q (s\<lparr>ks_hash := h\<rparr>) \<longleftrightarrow> port_holds K q s"
  "port_holds K q (s\<lparr>ks_mabuckets := b\<rparr>) \<longleftrightarrow> port_holds K q s" "port_holds K q (s\<lparr>ks_spaces := sps\<rparr>) \<longleftrightarrow> port_holds K q s"
  "port_holds K q (s\<lparr>ks_psets := pss\<rparr>) \<longleftrightarrow> port_holds K q s" "port_holds K q (s\<lparr>ks_zalloc := z\<rparr>) \<longleftrightarrow> port_holds K q s"
  "port_holds K q (s\<lparr>ks_timestamp := t'\<rparr>) \<longleftrightarrow> port_holds K q s"
  by (simp_all add: port_holds_def put_space_def put_pset_def put_thread_def effect_def imar_put_def)

lemma holds_put_port:
  "port_holds K q s \<Longrightarrow> ks_ports s p = Some x \<Longrightarrow> (K x \<Longrightarrow> K y) \<Longrightarrow> port_holds K q (put_port p y s)"
  by (auto simp: port_holds_def put_port_def)

lemma holds_no_port: "port_holds K q s \<Longrightarrow> port_holds K q (s\<lparr>ks_ports := (ks_ports s)(p := None)\<rparr>)"
  by (auto simp: port_holds_def)

lemma keep_mod_port:
  "port_holds K q s \<Longrightarrow> (\<And>x. K x \<Longrightarrow> K (f x)) \<Longrightarrow> (\<And>s'. port_holds K q s' \<Longrightarrow> R s') \<Longrightarrow> post (mod_port p f s) R"
  by (auto simp: post_def mod_port_def port_holds_def put_port_def)

subsection \<open>Routines that leave the ports alone\<close>

lemma keep_others [keep_rules]:
  "port_holds K q s \<Longrightarrow> (\<And>s'. port_holds K q s' \<Longrightarrow> R s') \<Longrightarrow> post (mod_pset ps g s) R"
  "port_holds K q s \<Longrightarrow> (\<And>s'. port_holds K q s' \<Longrightarrow> R s') \<Longrightarrow> post (mod_thread th h s) R"
  "port_holds K q s \<Longrightarrow> (\<And>s'. port_holds K q s' \<Longrightarrow> R s') \<Longrightarrow> post (ips_check_unlock ps s) R"
  "port_holds K q s \<Longrightarrow> (\<And>s'. port_holds K q s' \<Longrightarrow> R s') \<Longrightarrow> post (set_entry sp e u s) R"
  "port_holds K q s \<Longrightarrow> (\<And>s'. port_holds K q s' \<Longrightarrow> R s') \<Longrightarrow> post (space_release sp s) R"
  "port_holds K q s \<Longrightarrow> (\<And>s'. port_holds K q s' \<Longrightarrow> R s') \<Longrightarrow> post (entry_dealloc sp n e s) R"
  "port_holds K q s \<Longrightarrow> (\<And>s'. port_holds K q s' \<Longrightarrow> R s') \<Longrightarrow> post (hash_delete sp obj n e s) R"
  "port_holds K q s \<Longrightarrow> (\<And>m s'. port_holds K q s' \<Longrightarrow> R2 (m, s')) \<Longrightarrow> post (imar_unlink sp n s) R2"
  by (auto simp: post_def mod_pset_def mod_thread_def ips_check_unlock_def set_entry_def space_release_def entry_dealloc_def
      hash_delete_def imar_unlink_def Let_def bind_eq_Some_conv split: option.splits)

lemma keep_lookup [keep_rules]:
  "port_holds K q s \<Longrightarrow> (\<And>r s'. port_holds K q s' \<Longrightarrow> R (r, s')) \<Longrightarrow> post (entry_lookup sp n s) R"
  by (auto simp: post_def entry_lookup_def bind_eq_Some_conv case_prod_unfold Let_def)

lemma keep_threads [keep_rules]:
  "port_holds K q s \<Longrightarrow> (\<And>s'. port_holds K q s' \<Longrightarrow> R s') \<Longrightarrow> post (changed_loop mr ths s) R"
  "port_holds K q s \<Longrightarrow> (\<And>s'. port_holds K q s' \<Longrightarrow> R s') \<Longrightarrow> post (wake_senders ths s) R"
  by (induction ths arbitrary: s) (auto intro!: post_text keep_rules)

lemma keep_marequest_cancel [keep_rules]:
  "port_holds K q s \<Longrightarrow> (\<And>s'. port_holds K q s' \<Longrightarrow> R s') \<Longrightarrow> post (ipc_marequest_cancel sp n s) R"
  unfolding ipc_marequest_cancel_def by (rule post_text keep_rules | assumption | simp)+

lemma keep_zalloc [keep_rules]:
  "port_holds K q s \<Longrightarrow> (\<And>a s'. port_holds K q s' \<Longrightarrow> post (f a s') Q) \<Longrightarrow> post (case zalloc s of (a, s) \<Rightarrow> f a s) Q"
  by (simp add: zalloc_def split: list.split)

subsection \<open>Facts that do not depend on counts and queues\<close>

locale kept_fact =
  fixes K :: "ipc_port \<Rightarrow> bool"
  assumes kept_references: "K p \<Longrightarrow> K (p\<lparr>ip_references := r\<rparr>)"
    and kept_srights: "K p \<Longrightarrow> K (p\<lparr>ip_srights := n\<rparr>)"
    and kept_sorights: "K p \<Longrightarrow> K (p\<lparr>ip_sorights := n\<rparr>)"
    and kept_nsrequest: "K p \<Longrightarrow> K (p\<lparr>ip_nsrequest := ns\<rparr>)"
    and kept_messages: "K p \<Longrightarrow> K (p\<lparr>ip_messages := mq\<rparr>)"
    and kept_data: "K p \<Longrightarrow> K (p\<lparr>ip_data := dt\<rparr>)"
begin

lemmas kept = kept_references kept_srights kept_sorights kept_nsrequest kept_messages kept_data

lemma keep_mod [keep_rules]:
  "port_holds K q s \<Longrightarrow> (\<And>s'. port_holds K q s' \<Longrightarrow> R s') \<Longrightarrow> post (mod_port p ip_release s) R"
  "port_holds K q s \<Longrightarrow> (\<And>s'. port_holds K q s' \<Longrightarrow> R s') \<Longrightarrow> post (mod_port p ip_reference s) R"
  "port_holds K q s \<Longrightarrow> (\<And>s'. port_holds K q s' \<Longrightarrow> R s') \<Longrightarrow> post (mod_port p (\<lambda>x. x\<lparr>ip_data := d\<rparr>) s) R"
  "port_holds K q s \<Longrightarrow> (\<And>s'. port_holds K q s' \<Longrightarrow> R s') \<Longrightarrow>
     post (mod_port p (\<lambda>x. x\<lparr>ip_messages := (ip_messages x)\<lparr>imq_messages := ks\<rparr>\<rparr>) s) R"
  by (auto intro!: keep_mod_port simp: kept)

lemma keep_put_mqueue [keep_rules]:
  "port_holds K q s \<Longrightarrow> (\<And>s'. port_holds K q s' \<Longrightarrow> R s') \<Longrightarrow> post (put_mqueue m mq s) R"
  by (cases m) (auto intro!: keep_rules keep_mod_port simp: kept)

lemma keep_ip_check [keep_rules]:
  "port_holds K q s \<Longrightarrow> (\<And>s'. port_holds K q s' \<Longrightarrow> R s') \<Longrightarrow> post (ip_check_unlock p s) R"
  by (auto simp: post_def ip_check_unlock_def intro: holds_no_port)

lemma keep_object_release [keep_rules]:
  assumes s: "port_holds K q s" and R: "\<And>s'. port_holds K q s' \<Longrightarrow> R s'"
  shows "post (ipc_object_release p s) R"
proof (cases "ks_ports s p")
  case (Some x)
  have "port_holds K q (put_port p (ip_release x) s)"
    by (rule holds_put_port [OF s Some]) (rule kept)
  then show ?thesis using Some R by (auto simp: ipc_object_release_def intro!: keep_rules)
qed (auto simp: ipc_object_release_def intro!: post_text keep_rules s R)

lemma keep_changed [keep_rules]:
  "port_holds K q s \<Longrightarrow> (\<And>s'. port_holds K q s' \<Longrightarrow> R s') \<Longrightarrow> post (ipc_mqueue_changed m mr s) R"
  unfolding ipc_mqueue_changed_def by (rule post_text keep_rules | assumption | simp)+

lemma keep_pset_destroy [keep_rules]:
  "port_holds K q s \<Longrightarrow> (\<And>s'. port_holds K q s' \<Longrightarrow> R s') \<Longrightarrow> post (ipc_pset_destroy ps s) R"
  unfolding ipc_pset_destroy_def by (rule post_text keep_rules | assumption | simp)+

lemma keep_release_sonce [keep_rules]:
  assumes s: "port_holds K q s" and R: "\<And>s'. port_holds K q s' \<Longrightarrow> R s'"
  shows "post (ipc_port_release_sonce p s) R"
  unfolding ipc_port_release_sonce_def
  by (rule post_text keep_ip_check R | erule holds_put_port [OF s] | intro kept | assumption)+

lemma keep_notify [keep_rules]:
  "port_holds K q s \<Longrightarrow> (\<And>s'. port_holds K q s' \<Longrightarrow> R s') \<Longrightarrow> post (ipc_notify_port_deleted p n s) R"
  "port_holds K q s \<Longrightarrow> (\<And>s'. port_holds K q s' \<Longrightarrow> R s') \<Longrightarrow> post (ipc_notify_no_senders p m s) R"
  "port_holds K q s \<Longrightarrow> (\<And>s'. port_holds K q s' \<Longrightarrow> R s') \<Longrightarrow> post (ipc_notify_send_once p s) R"
  "port_holds K q s \<Longrightarrow> (\<And>s'. port_holds K q s' \<Longrightarrow> R s') \<Longrightarrow> post (ipc_notify_dead_name p n s) R"
  unfolding notify_defs by (rule post_text keep_rules | assumption | simp; fail)+

lemma keep_no_senders [keep_rules]:
  "port_holds K q s \<Longrightarrow> (\<And>s'. port_holds K q s' \<Longrightarrow> R s') \<Longrightarrow> post (notify_no_senders p m s) R"
  unfolding notify_no_senders_def by (rule post_text keep_rules | assumption | simp; fail)+

lemma kept_drop_sright: "K p \<Longrightarrow> drop_sright p = (a, b, p') \<Longrightarrow> K p'"
  by (auto simp: drop_sright_def Let_def kept split: if_splits)

lemma keep_release_send [keep_rules]:
  assumes s: "port_holds K q s" and R: "\<And>s'. port_holds K q s' \<Longrightarrow> R s'"
  shows "post (ipc_port_release_send p s) R"
proof (cases "ks_ports s p")
  case (Some x)
  obtain a b y where d: "drop_sright (ip_release x) = (a, b, y)" by (cases "drop_sright (ip_release x)")
  have "port_holds K q (put_port p (ip_release x) s)" "port_holds K q (put_port p y s)"
    by (rule holds_put_port [OF s Some]; auto intro: kept kept_drop_sright [OF _ d])+
  then show ?thesis using Some R d by (auto simp: ipc_port_release_send_def Let_def intro!: keep_rules)
qed (simp add: ipc_port_release_send_def post_None)

lemma keep_deleted_compat [keep_rules]:
  "port_holds K q s \<Longrightarrow> (\<And>s'. port_holds K q s' \<Longrightarrow> R s') \<Longrightarrow> post (ipc_notify_port_deleted_compat p n s) R"
  unfolding ipc_notify_port_deleted_compat_def ipc_mqueue_send_always_def
  by (rule post_text keep_rules | assumption | simp; fail)+

lemma keep_make_notify [keep_rules]:
  assumes s: "port_holds K q s" and R: "\<And>r s'. port_holds K q s' \<Longrightarrow> R (r, s')"
  shows "post (ipc_space_make_notify sp s) R"
  unfolding ipc_space_make_notify_def ipc_port_copy_send_def
  by (intro post_text; auto intro!: R s holds_put_port [OF s] kept)

end

interpretation dead: kept_fact "\<lambda>p. \<not> ip_active p"
  by unfold_locales simp_all

interpretation no_backup: kept_fact "\<lambda>p. ip_pdrequest p = 0"
  by unfold_locales simp_all

section \<open>Routines that get a routine for destroying ports\<close>

text \<open>Two programs that differ only in a routine they do not reach are the same.\<close>

lemma bind_same: "post m (\<lambda>x. f x = g x) \<Longrightarrow> m \<bind> f = m \<bind> g"
  by (cases m) (simp_all add: post_def)

lemma if_same: "(b \<Longrightarrow> x = x') \<Longrightarrow> (\<not> b \<Longrightarrow> y = y') \<Longrightarrow> (if b then x else y) = (if b then x' else y')"
  by simp

lemma sum_same:
  "(\<And>a. r = Inl a \<Longrightarrow> f a = f' a) \<Longrightarrow> (\<And>b. r = Inr b \<Longrightarrow> g b = g' b) \<Longrightarrow>
   (case r of Inl a \<Rightarrow> f a | Inr b \<Rightarrow> g b) = (case r of Inl a \<Rightarrow> f' a | Inr b \<Rightarrow> g' b)"
  by (simp split: sum.split)

lemma prod_same: "f a b = g a b \<Longrightarrow> (case (a, b) of (x, y) \<Rightarrow> f x y) = (case (a, b) of (x, y) \<Rightarrow> g x y)"
  by simp

lemma bind_arg: "m = m' \<Longrightarrow> Option.bind m f = Option.bind m' f"
  by simp

lemmas same_rules = refl if_same sum_same prod_same

lemma post_conj: "post m Q \<Longrightarrow> post m R \<Longrightarrow> post m (\<lambda>x. Q x \<and> R x)"
  by (simp add: post_def)

abbreviation dead_port :: "ptr \<Rightarrow> ipc_state \<Rightarrow> bool" where
  "dead_port \<equiv> port_holds (\<lambda>p. \<not> ip_active p)"

lemma right_destroy_dead:
  assumes "get_entry sp e s = Some entry" "dead_port (ie_object entry) s"
  shows "ipc_right_destroy d sp n e s = ipc_right_destroy d' sp n e s"
proof -
  have same: "do { p \<leftarrow> ks_ports s' (ie_object entry); (if \<not> ip_active p then a p else b p) } =
      do { p \<leftarrow> ks_ports s' (ie_object entry); (if \<not> ip_active p then a p else b' p) }"
    if "dead_port (ie_object entry) s'" for s' a and b b' :: "ipc_port \<Rightarrow> 'b option"
    using that by (cases "ks_ports s' (ie_object entry)") (auto dest: port_holdsD)
  show ?thesis
    unfolding ipc_right_destroy_def assms(1) Option.bind.simps Let_def
    by (rule same same_rules | rule bind_same post_text keep_rules assms(2) | assumption)+
qed

lemma right_destroy_keeps_dead:
  assumes "get_entry sp e s = Some entry" "dead_port (ie_object entry) s" "\<And>kr s'. dead_port (ie_object entry) s' \<Longrightarrow> R (kr, s')"
  shows "post (ipc_right_destroy d sp n e s) R"
proof -
  have dead: "post (do { p \<leftarrow> ks_ports s' (ie_object entry); (if \<not> ip_active p then a p else b p) }) R"
    if "dead_port (ie_object entry) s'" "\<And>p. dead_port (ie_object entry) (put_port (ie_object entry) (ip_release p) s') \<Longrightarrow> post (a p) R"
    for s' a b
    using port_holdsD [OF that(1)] by (auto intro!: post_text that(2) holds_put_port [OF that(1)])
  show ?thesis
    unfolding ipc_right_destroy_def assms(1) Option.bind.simps Let_def
    by (rule dead | rule post_text keep_rules assms(2,3) | assumption)+
qed

lemma delete_compat_dead:
  assumes "dead_port port s"
  shows "ipc_port_delete_compat d port sp n s = ipc_port_delete_compat d' port sp n s"
    "(\<And>s'. dead_port port s' \<Longrightarrow> R s') \<Longrightarrow> post (ipc_port_delete_compat d port sp n s) R"
proof -
  have entry: "post (ipc_space_make_notify sp s') (\<lambda>(r, s''). get_entry sp e s'' = Some entry \<and> dead_port port s'')"
    if "dead_port port s'" "get_entry sp e s' = Some entry" for s' e entry
  proof -
    have "post (ipc_space_make_notify sp s') (\<lambda>x. get_entry sp e (snd x) = Some entry \<and> dead_port port (snd x))"
      using that
      by (intro post_conj, intro post_make_notify, simp add: get_entry_def) (intro dead.keep_make_notify, simp_all)
    then show ?thesis by (simp add: case_prod_unfold)
  qed
  have same: "do { (r, s'') \<leftarrow> ipc_space_make_notify sp s'; (kr, s'') \<leftarrow> ipc_right_destroy d sp n e s''; f r s'' } =
      do { (r, s'') \<leftarrow> ipc_space_make_notify sp s'; (kr, s'') \<leftarrow> ipc_right_destroy d' sp n e s''; f r s'' }"
    if "dead_port port s'" "get_entry sp e s' = Some entry" "ie_object entry = port" for s' e entry and f :: "ptr \<Rightarrow> ipc_state \<Rightarrow> 'b option"
    by (rule bind_same, rule post_mono [OF entry [OF that(1,2)]])
      (auto simp: right_destroy_dead [of sp e _ entry d n d'] that(3))
  have keep: "post (do { (r, s'') \<leftarrow> ipc_space_make_notify sp s'; (kr, s'') \<leftarrow> ipc_right_destroy d sp n e s''; Some (r, s'') }) Q"
    if "dead_port port s'" "get_entry sp e s' = Some entry" "ie_object entry = port" "\<And>r s''. dead_port port s'' \<Longrightarrow> Q (r, s'')"
    for s' e entry Q
    by (rule post_bind, rule post_mono [OF entry [OF that(1,2)]])
      (auto intro!: post_text right_destroy_keeps_dead [of sp e _ entry] simp: that(3,4))
  show "ipc_port_delete_compat d port sp n s = ipc_port_delete_compat d' port sp n s"
    unfolding ipc_port_delete_compat_def ipc_right_lookup_write_def
    by (rule same_rules same | rule bind_same bind_arg post_text keep_rules assms | assumption)+
  show "(\<And>s'. dead_port port s' \<Longrightarrow> R s') \<Longrightarrow> post (ipc_port_delete_compat d port sp n s) R"
    unfolding ipc_port_delete_compat_def ipc_right_lookup_write_def
    by (rule keep | rule post_text keep_rules assms | assumption)+
qed

lemma bind_both: "m = m' \<Longrightarrow> post m (\<lambda>x. f x = g x) \<Longrightarrow> Option.bind m f = Option.bind m' g"
  by (cases m) (auto simp: post_def)

lemma destroy_requests_dead:
  "dead_port port s \<Longrightarrow> destroy_requests d port rs s = destroy_requests d' port rs s"
proof (induction rs arbitrary: s)
  case (Cons r rs)
  show ?case
    unfolding destroy_requests.simps
    by (rule bind_both same_rules delete_compat_dead(1) Cons | rule post_text delete_compat_dead(2) keep_rules | assumption)+
qed simp

lemma keep_messages [keep_rules]:
  "dead_port q s \<Longrightarrow> (\<And>s'. dead_port q s' \<Longrightarrow> R s') \<Longrightarrow> post (destroy_messages port ks s) R"
proof (induction ks arbitrary: s)
  case (Cons k ks)
  show ?case unfolding destroy_messages.simps by (rule Cons.IH post_text keep_rules Cons.prems | simp; fail)+
qed (simp add: post_Some)

lemma destroy_dead_same: "destroy_dead d port s = destroy_dead d' port s"
proof -
  have dies: "post (mod_port port (\<lambda>p. p\<lparr>ip_blocked := [], ip_bits := ip_bits p AND NOT IO_BITS_ACTIVE, ip_data := t\<rparr>) s') R"
    if "\<And>s'. dead_port port s' \<Longrightarrow> R s'" for s' t R
    using that by (auto simp: post_def mod_port_def port_holds_def put_port_def)
  show ?thesis
    unfolding destroy_dead_def Let_def case_prod_unfold
    by (rule same_rules option.case_cong | rule bind_same bind_arg dies destroy_requests_dead post_wake_senders post_text keep_rules | assumption)+
qed

section \<open>Two levels are enough\<close>

lemma destroy_no_backup:
  assumes "port_holds (\<lambda>p. ip_pdrequest p = 0) port s"
  shows "ipc_port_destroy (Suc n) port s = ipc_port_destroy (Suc m) port s"
  using port_holdsD [OF assms] destroy_dead_same
  by (cases "ks_ports s port") (auto simp: Let_def)

lemma release_receive_no_backup:
  assumes "port_holds (\<lambda>p. ip_pdrequest p = 0) port s"
  shows "ipc_port_release_receive (ipc_port_destroy (Suc n)) port s = ipc_port_release_receive (ipc_port_destroy (Suc m)) port s"
  unfolding ipc_port_release_receive_def destroy_no_backup [OF assms, of n m] ..

lemma zalloc_same: "(\<And>a s'. port_holds K q s' \<Longrightarrow> f a s' = g a s') \<Longrightarrow> port_holds K q s \<Longrightarrow>
    (case zalloc s of (a, s) \<Rightarrow> f a s) = (case zalloc s of (a, s) \<Rightarrow> g a s)"
  by (simp add: zalloc_def split: list.split)

lemma notify_destroyed_no_backup:
  assumes "port_holds (\<lambda>p. ip_pdrequest p = 0) port s"
  shows "ipc_notify_port_destroyed (ipc_port_release_receive (ipc_port_destroy (Suc n))) b port s =
      ipc_notify_port_destroyed (ipc_port_release_receive (ipc_port_destroy (Suc m))) b port s"
    "ipc_notify_port_destroyed_compat (ipc_port_release_receive (ipc_port_destroy (Suc n))) b port s =
      ipc_notify_port_destroyed_compat (ipc_port_release_receive (ipc_port_destroy (Suc m))) b port s"
  unfolding ipc_notify_port_destroyed_def ipc_notify_port_destroyed_compat_def Let_def
  by (rule zalloc_same same_rules bind_same release_receive_no_backup assms | rule no_backup.keep_release_send no_backup.keep_release_sonce |
      assumption)+

lemma circularity_no_backup:
  assumes "port_holds (\<lambda>p. ip_pdrequest p = 0) port s" "\<And>c s'. port_holds (\<lambda>p. ip_pdrequest p = 0) port s' \<Longrightarrow> R (c, s')"
  shows "post (ipc_port_check_circularity try port dest s) R"
  unfolding ipc_port_check_circularity_def
  by (rule post_text no_backup.keep_mod post_read [of "transit_base s' p" for s' p] assms | assumption)+


end
