(* ===== verification/Ipc_Object.thy ===== *)
theory Ipc_Object
  imports Ipc_Right Ipc_Dealloc
begin

text \<open>
  Objects, \<^verbatim>\<open>src/ipc/ipc_object.c\<close>: translating names, allocating objects, and copying rights in
  and out of spaces by name.  \<open>fuel\<close> bounds the rounds of the loops that start again after a table
  has been grown, and \<open>ws\<close> has what happens to the space while it is unlocked.
\<close>

section \<open>Entries of the state\<close>

definition entry_get :: "ptr \<Rightarrow> ipc_state \<Rightarrow> ((kern_return + mach_port_t \<times> ipc_entry_ptr) \<times> ipc_state) option" where
  "entry_get sp s =
     do {
       is \<leftarrow> ks_spaces s sp;
       Some (case ipc_entry_get is of
               Inl kr \<Rightarrow> (Inl kr, s)
             | Inr (name, e, is) \<Rightarrow> (Inr (name, e), put_space sp is s))
     }"

definition entry_alloc ::
    "nat \<Rightarrow> ptr \<Rightarrow> window list \<Rightarrow> ipc_state \<Rightarrow> ((kern_return + mach_port_t \<times> ipc_entry_ptr) \<times> ipc_state) option" where
  "entry_alloc fuel sp ws s =
     do {
       is \<leftarrow> ks_spaces s sp;
       (r, (h, is), ws) \<leftarrow> ipc_entry_alloc fuel (ks_its s) sp (ks_hash s) is ws;
       Some (r, put_space sp is (s\<lparr>ks_hash := h\<rparr>))
     }"

definition entry_alloc_name ::
    "nat \<Rightarrow> ptr \<Rightarrow> mach_port_t \<Rightarrow> window list \<Rightarrow> ipc_state \<Rightarrow>
     ((kern_return + ipc_entry_ptr) \<times> window list \<times> ipc_state) option" where
  "entry_alloc_name fuel sp name ws s =
     do {
       is \<leftarrow> ks_spaces s sp;
       (r, (h, is), ws) \<leftarrow> ipc_entry_alloc_name fuel (ks_its s) sp False (ks_hash s) is name ws;
       Some (r, ws, put_space sp is (s\<lparr>ks_hash := h\<rparr>))
     }"

definition entry_grow_table ::
    "ptr \<Rightarrow> window list \<Rightarrow> ipc_state \<Rightarrow> (kern_return \<times> window list \<times> ipc_state) option" where
  "entry_grow_table sp ws s =
     do {
       is \<leftarrow> ks_spaces s sp;
       (kr, locked, (h, is), ws) \<leftarrow> ipc_entry_grow_table (ks_its s) sp None (ks_hash s) is ws;
       Some (kr, ws, put_space sp is (s\<lparr>ks_hash := h\<rparr>))
     }"

section \<open>Translating\<close>

primrec MACH_PORT_TYPE :: "mach_port_right \<Rightarrow> u32" where
  "MACH_PORT_TYPE MACH_PORT_RIGHT_SEND = MACH_PORT_TYPE_SEND"
| "MACH_PORT_TYPE MACH_PORT_RIGHT_RECEIVE = MACH_PORT_TYPE_RECEIVE"
| "MACH_PORT_TYPE MACH_PORT_RIGHT_SEND_ONCE = MACH_PORT_TYPE_SEND_ONCE"
| "MACH_PORT_TYPE MACH_PORT_RIGHT_PORT_SET = MACH_PORT_TYPE_PORT_SET"
| "MACH_PORT_TYPE MACH_PORT_RIGHT_DEAD_NAME = MACH_PORT_TYPE_DEAD_NAME"

definition ipc_object_translate ::
    "ptr \<Rightarrow> mach_port_t \<Rightarrow> mach_port_right \<Rightarrow> ipc_state \<Rightarrow> ((kern_return + ptr) \<times> ipc_state) option" where
  "ipc_object_translate space name rt s =
     do {
       (r, s) \<leftarrow> ipc_right_lookup_write space name s;
       (case r of
          Inl kr \<Rightarrow> Some (Inl kr, s)
        | Inr e \<Rightarrow>
            do {
              entry \<leftarrow> get_entry space e s;
              Some (if ie_bits entry AND MACH_PORT_TYPE rt = 0 then Inl KERN_INVALID_RIGHT else Inr (ie_object entry), s)
            })
     }"

section \<open>Allocating\<close>

definition ipc_object_alloc_dead ::
    "nat \<Rightarrow> ptr \<Rightarrow> window list \<Rightarrow> ipc_state \<Rightarrow> ((kern_return + mach_port_t) \<times> ipc_state) option" where
  "ipc_object_alloc_dead fuel space ws s =
     do {
       (r, s) \<leftarrow> entry_alloc fuel space ws s;
       (case r of
          Inl kr \<Rightarrow> Some (Inl kr, s)
        | Inr (name, e) \<Rightarrow>
            map_option (Pair (Inr name))
              (set_entry space e (\<lambda>en. en\<lparr>ie_bits := ie_bits en OR (MACH_PORT_TYPE_DEAD_NAME OR 1)\<rparr>) s))
     }"

definition ipc_object_alloc_dead_name ::
    "nat \<Rightarrow> ptr \<Rightarrow> mach_port_t \<Rightarrow> window list \<Rightarrow> ipc_state \<Rightarrow> (kern_return \<times> ipc_state) option" where
  "ipc_object_alloc_dead_name fuel space name ws s =
     do {
       (r, ws, s) \<leftarrow> entry_alloc_name fuel space name ws s;
       (case r of
          Inl kr \<Rightarrow> Some (kr, s)
        | Inr e \<Rightarrow>
            do {
              (inuse, s) \<leftarrow> ipc_right_inuse space name e s;
              (if inuse then Some (KERN_NAME_EXISTS, s)
               else
                 map_option (Pair KERN_SUCCESS)
                   (set_entry space e (\<lambda>en. en\<lparr>ie_bits := ie_bits en OR (MACH_PORT_TYPE_DEAD_NAME OR 1)\<rparr>) s))
            })
     }"

text \<open>The type of an object, with what its memory held before.\<close>

datatype ipc_object_type =
    IoPort ipc_port
  | IoPortSet ipc_pset

fun io_create :: "ipc_object_type \<Rightarrow> ptr \<Rightarrow> ipc_state \<Rightarrow> ipc_state" where
  "io_create (IoPort fresh) obj s =
     put_port obj (fresh\<lparr>ip_references := 1, ip_bits := io_makebits True IOT_PORT 0\<rparr>) s"
| "io_create (IoPortSet fresh) obj s =
     put_pset obj (fresh\<lparr>ips_references := 1, ips_bits := io_makebits True IOT_PORT_SET 0\<rparr>) s"

definition ipc_object_alloc ::
    "nat \<Rightarrow> ptr \<Rightarrow> ipc_object_type \<Rightarrow> u32 \<Rightarrow> u32 \<Rightarrow> window list \<Rightarrow> ipc_state \<Rightarrow>
     ((kern_return + mach_port_t \<times> ptr) \<times> ipc_state) option" where
  "ipc_object_alloc fuel space otype type urefs ws s =
     (let (obj, s) = zalloc s
      in if obj = 0 then Some (Inl KERN_RESOURCE_SHORTAGE, s)
         else
           do {
             (r, s) \<leftarrow> entry_alloc fuel space ws s;
             (case r of
                Inl kr \<Rightarrow> Some (Inl kr, s)
              | Inr (name, e) \<Rightarrow>
                  do {
                    s \<leftarrow> set_entry space e (\<lambda>en. en\<lparr>ie_bits := ie_bits en OR (type OR urefs), ie_object := obj\<rparr>) s;
                    Some (Inr (name, obj), io_create otype obj s)
                  })
           })"

definition ipc_object_alloc_name ::
    "nat \<Rightarrow> ptr \<Rightarrow> ipc_object_type \<Rightarrow> u32 \<Rightarrow> u32 \<Rightarrow> mach_port_t \<Rightarrow> window list \<Rightarrow> ipc_state \<Rightarrow>
     ((kern_return + ptr) \<times> ipc_state) option" where
  "ipc_object_alloc_name fuel space otype type urefs name ws s =
     (let (obj, s) = zalloc s
      in if obj = 0 then Some (Inl KERN_RESOURCE_SHORTAGE, s)
         else
           do {
             (r, ws, s) \<leftarrow> entry_alloc_name fuel space name ws s;
             (case r of
                Inl kr \<Rightarrow> Some (Inl kr, s)
              | Inr e \<Rightarrow>
                  do {
                    (inuse, s) \<leftarrow> ipc_right_inuse space name e s;
                    (if inuse then Some (Inl KERN_NAME_EXISTS, s)
                     else
                       do {
                         s \<leftarrow> set_entry space e
                           (\<lambda>en. en\<lparr>ie_bits := ie_bits en OR (type OR urefs), ie_object := obj\<rparr>) s;
                         Some (Inr obj, io_create otype obj s)
                       })
                  })
           })"

section \<open>Copying in\<close>

text \<open>\<open>None\<close>: strange rights.\<close>

definition ipc_object_copyin_type :: "u32 \<Rightarrow> u32 option" where
  "ipc_object_copyin_type msgt_name =
     (if msgt_name = 0 then Some 0
      else if msgt_name = MACH_MSG_TYPE_MOVE_RECEIVE then Some MACH_MSG_TYPE_PORT_RECEIVE
      else if msgt_name = MACH_MSG_TYPE_MOVE_SEND_ONCE \<or> msgt_name = MACH_MSG_TYPE_MAKE_SEND_ONCE
      then Some MACH_MSG_TYPE_PORT_SEND_ONCE
      else if msgt_name = MACH_MSG_TYPE_MOVE_SEND \<or> msgt_name = MACH_MSG_TYPE_MAKE_SEND \<or>
              msgt_name = MACH_MSG_TYPE_COPY_SEND
      then Some MACH_MSG_TYPE_PORT_SEND
      else if msgt_name = MSG_TYPE_PORT then Some MACH_MSG_TYPE_PORT_SEND
      else if msgt_name = MSG_TYPE_PORT_ALL then Some MACH_MSG_TYPE_PORT_RECEIVE
      else None)"

definition ipc_object_copyin ::
    "ptr \<Rightarrow> mach_port_t \<Rightarrow> u32 \<Rightarrow> ipc_state \<Rightarrow> ((kern_return + ptr) \<times> ipc_state) option" where
  "ipc_object_copyin space name msgt_name s =
     do {
       (r, s) \<leftarrow> ipc_right_lookup_write space name s;
       (case r of
          Inl kr \<Rightarrow> Some (Inl kr, s)
        | Inr e \<Rightarrow>
            do {
              (r, s) \<leftarrow> ipc_right_copyin space name e msgt_name True s;
              entry \<leftarrow> get_entry space e s;
              s \<leftarrow> (if IE_BITS_TYPE (ie_bits entry) = MACH_PORT_TYPE_NONE then entry_dealloc space name e s else Some s);
              (case r of
                 Inl kr \<Rightarrow> Some (Inl kr, s)
               | Inr (obj, soright) \<Rightarrow> map_option (Pair (Inr obj)) (notify_port_deleted soright name s))
            })
     }"

definition ipc_object_copyin_from_kernel :: "ptr \<Rightarrow> u32 \<Rightarrow> ipc_state \<Rightarrow> ipc_state option" where
  "ipc_object_copyin_from_kernel object msgt_name s =
     (if msgt_name = MSG_TYPE_PORT_ALL \<or> msgt_name = MACH_MSG_TYPE_MOVE_RECEIVE then
        mod_port object (\<lambda>p. p\<lparr>ip_mscount := 0, ip_receiver_name := MACH_PORT_NULL, ip_data := 0\<rparr>) s
      else if msgt_name = MSG_TYPE_PORT \<or> msgt_name = MACH_MSG_TYPE_COPY_SEND then
        mod_port object
          (\<lambda>p. ip_reference (if ip_active p then p\<lparr>ip_srights := ip_srights p + 1\<rparr> else p)) s
      else if msgt_name = MACH_MSG_TYPE_MAKE_SEND then
        mod_port object
          (\<lambda>p. (ip_reference p)\<lparr>ip_mscount := ip_mscount p + 1, ip_srights := ip_srights p + 1\<rparr>) s
      else if msgt_name = MACH_MSG_TYPE_MOVE_SEND then Some s
      else if msgt_name = MACH_MSG_TYPE_MAKE_SEND_ONCE then
        mod_port object (\<lambda>p. (ip_reference p)\<lparr>ip_sorights := ip_sorights p + 1\<rparr>) s
      else if msgt_name = MACH_MSG_TYPE_MOVE_SEND_ONCE then Some s
      else None)"

definition ipc_object_destroy :: "ptr \<Rightarrow> u32 \<Rightarrow> ipc_state \<Rightarrow> ipc_state option" where
  "ipc_object_destroy object msgt_name s =
     (if msgt_name = MACH_MSG_TYPE_PORT_SEND then ipc_port_release_send object s
      else if msgt_name = MACH_MSG_TYPE_PORT_SEND_ONCE then ipc_notify_send_once object s
      else if msgt_name = MACH_MSG_TYPE_PORT_RECEIVE then ipc_port_release_receive port_destroy object s
      else None)"

section \<open>Copying out\<close>

primrec ipc_object_copyout ::
    "nat \<Rightarrow> ptr \<Rightarrow> ptr \<Rightarrow> u32 \<Rightarrow> bool \<Rightarrow> window list \<Rightarrow> ipc_state \<Rightarrow>
     ((kern_return + mach_port_t) \<times> ipc_state) option" where
  "ipc_object_copyout 0 space object msgt_name overflow ws s = None"
| "ipc_object_copyout (Suc fuel) space object msgt_name overflow ws s =
     do {
       is \<leftarrow> ks_spaces s space;
       (if \<not> is_active is then Some (Inl KERN_INVALID_TASK, s)
        else
          do {
            (found, s) \<leftarrow>
              (if msgt_name \<noteq> MACH_MSG_TYPE_PORT_SEND_ONCE then ipc_right_reverse space object s else Some (None, s));
            let copyout = (\<lambda>name e s.
              do {
                (kr, s) \<leftarrow> ipc_right_copyout space name e msgt_name overflow object s;
                Some (if kr = KERN_SUCCESS then Inr name else Inl kr, s)
              });
            (case found of
               Some (name, e) \<Rightarrow> copyout name e s
             | None \<Rightarrow>
                 do {
                   (r, s) \<leftarrow> entry_get space s;
                   (case r of
                      Inl _ \<Rightarrow>
                        do {
                          (kr, ws, s) \<leftarrow> entry_grow_table space ws s;
                          (if kr \<noteq> KERN_SUCCESS then Some (Inl kr, s)
                           else ipc_object_copyout fuel space object msgt_name overflow ws s)
                        }
                    | Inr (name, e) \<Rightarrow>
                        do {
                          p \<leftarrow> ks_ports s object;
                          (if \<not> ip_active p then
                             map_option (Pair (Inl KERN_INVALID_CAPABILITY)) (entry_dealloc space name e s)
                           else
                             do {
                               s \<leftarrow> set_entry space e (\<lambda>en. en\<lparr>ie_object := object\<rparr>) s;
                               copyout name e s
                             })
                        })
                 })
          })
     }"

definition ipc_object_copyout_name ::
    "nat \<Rightarrow> ptr \<Rightarrow> ptr \<Rightarrow> u32 \<Rightarrow> bool \<Rightarrow> mach_port_t \<Rightarrow> window list \<Rightarrow> ipc_state \<Rightarrow> (kern_return \<times> ipc_state) option" where
  "ipc_object_copyout_name fuel space object msgt_name overflow name ws s =
     do {
       (r, ws, s) \<leftarrow> entry_alloc_name fuel space name ws s;
       (case r of
          Inl kr \<Rightarrow> Some (kr, s)
        | Inr e \<Rightarrow>
            do {
              (found, s) \<leftarrow>
                (if msgt_name \<noteq> MACH_MSG_TYPE_PORT_SEND_ONCE then ipc_right_reverse space object s else Some (None, s));
              (case found of
                 Some (oname, oe) \<Rightarrow>
                   if name \<noteq> oname then
                     do {
                       entry \<leftarrow> get_entry space e s;
                       s \<leftarrow> (if IE_BITS_TYPE (ie_bits entry) = MACH_PORT_TYPE_NONE then entry_dealloc space name e s else Some s);
                       Some (KERN_RIGHT_EXISTS, s)
                     }
                   else ipc_right_copyout space name e msgt_name overflow object s
               | None \<Rightarrow>
                   do {
                     (inuse, s) \<leftarrow> ipc_right_inuse space name e s;
                     (if inuse then Some (KERN_NAME_EXISTS, s)
                      else
                        do {
                          p \<leftarrow> ks_ports s object;
                          (if \<not> ip_active p then
                             map_option (Pair KERN_INVALID_CAPABILITY) (entry_dealloc space name e s)
                           else
                             do {
                               s \<leftarrow> set_entry space e (\<lambda>en. en\<lparr>ie_object := object\<rparr>) s;
                               ipc_right_copyout space name e msgt_name overflow object s
                             })
                        })
                   })
            })
     }"

definition ipc_object_copyout_dest :: "ptr \<Rightarrow> ptr \<Rightarrow> u32 \<Rightarrow> ipc_state \<Rightarrow> (mach_port_t \<times> ipc_state) option" where
  "ipc_object_copyout_dest space object msgt_name s =
     do {
       p \<leftarrow> ks_ports s object;
       let p = ip_release p;
       (if msgt_name = MACH_MSG_TYPE_PORT_SEND then
          do {
            let (nsrequest, mscount, p) = drop_sright p;
            let name = (if ip_data p = space then ip_receiver_name p else MACH_PORT_NULL);
            map_option (Pair name) (notify_no_senders nsrequest mscount (put_port object p s))
          }
        else if msgt_name = MACH_MSG_TYPE_PORT_SEND_ONCE then
          if ip_data p = space
          then Some (ip_receiver_name p, put_port object (p\<lparr>ip_sorights := ip_sorights p - 1\<rparr>) s)
          else map_option (Pair MACH_PORT_NULL) (ipc_notify_send_once object (put_port object (ip_reference p) s))
        else None)
     }"

definition ipc_object_rename ::
    "nat \<Rightarrow> ptr \<Rightarrow> mach_port_t \<Rightarrow> mach_port_t \<Rightarrow> window list \<Rightarrow> ipc_state \<Rightarrow> (kern_return \<times> ipc_state) option" where
  "ipc_object_rename fuel space oname nname ws s =
     do {
       (r, ws, s) \<leftarrow> entry_alloc_name fuel space nname ws s;
       (case r of
          Inl kr \<Rightarrow> Some (kr, s)
        | Inr ne \<Rightarrow>
            do {
              (inuse, s) \<leftarrow> ipc_right_inuse space nname ne s;
              (if inuse then Some (KERN_NAME_EXISTS, s)
               else
                 do {
                   (oe, s) \<leftarrow> (if oname = nname then Some (None, s) else entry_lookup space oname s);
                   (case oe of
                      None \<Rightarrow> map_option (Pair KERN_INVALID_NAME) (entry_dealloc space nname ne s)
                    | Some oe \<Rightarrow> ipc_right_rename space oname oe nname ne s)
                 })
            })
     }"

section \<open>The old interface\<close>

definition ipc_object_copyout_type_compat :: "u32 \<Rightarrow> u32 option" where
  "ipc_object_copyout_type_compat msgt_name =
     (if msgt_name = MACH_MSG_TYPE_PORT_SEND \<or> msgt_name = MACH_MSG_TYPE_PORT_SEND_ONCE then Some MSG_TYPE_PORT
      else if msgt_name = MACH_MSG_TYPE_PORT_RECEIVE then Some MSG_TYPE_PORT_ALL
      else None)"

definition ipc_object_copyin_compat :: "ptr \<Rightarrow> mach_port_t \<Rightarrow> u32 \<Rightarrow> bool \<Rightarrow> ipc_state \<Rightarrow> compat_result" where
  "ipc_object_copyin_compat space name msgt_name dealloc s =
     do {
       (r, s) \<leftarrow> ipc_right_lookup_write space name s;
       (case r of
          Inl kr \<Rightarrow> Some (Inl kr, s)
        | Inr e \<Rightarrow> ipc_right_copyin_compat space name e msgt_name dealloc s)
     }"

definition ipc_object_copyin_header ::
    "ptr \<Rightarrow> mach_port_t \<Rightarrow> ipc_state \<Rightarrow> ((kern_return + ptr \<times> u32) \<times> ipc_state) option" where
  "ipc_object_copyin_header space name s =
     do {
       (r, s) \<leftarrow> ipc_right_lookup_write space name s;
       (case r of
          Inl kr \<Rightarrow> Some (Inl kr, s)
        | Inr e \<Rightarrow> ipc_right_copyin_header space name e s)
     }"

text \<open>
  What both copyouts do with a new entry: the port, a dead-name request for the space, and the
  flag.  A result of \<open>None\<close> asks for another round.
\<close>

definition copyout_compat_entry ::
    "(ipc_state \<Rightarrow> ipc_state) \<Rightarrow> ptr \<Rightarrow> ptr \<Rightarrow> mach_port_t \<Rightarrow> ipc_entry_ptr \<Rightarrow> ipc_state \<Rightarrow>
     (kern_return option \<times> ipc_state) option" where
  "copyout_compat_entry env space port name e s =
     do {
       p \<leftarrow> ks_ports s port;
       (if \<not> ip_active p then
          map_option (Pair (Some KERN_INVALID_CAPABILITY)) (entry_dealloc space name e s)
        else
          case ipc_port_dnrequest p name (ipr_spacem space) of
            Inl _ \<Rightarrow>
              do {
                s \<leftarrow> entry_dealloc space name e s;
                (kr, s) \<leftarrow> ipc_port_dngrow env port None s;
                Some (if kr \<noteq> KERN_SUCCESS then Some kr else None, s)
              }
          | Inr (request, p) \<Rightarrow>
              do {
                s \<leftarrow> space_reference space (put_port port p s);
                s \<leftarrow> set_entry space e
                  (\<lambda>en. en\<lparr>ie_object := port, ie_request := request, ie_bits := ie_bits en OR IE_BITS_COMPAT\<rparr>) s;
                Some (Some KERN_SUCCESS, s)
              })
     }"

primrec ipc_object_copyout_compat ::
    "nat \<Rightarrow> (ipc_state \<Rightarrow> ipc_state) \<Rightarrow> ptr \<Rightarrow> ptr \<Rightarrow> u32 \<Rightarrow> window list \<Rightarrow> ipc_state \<Rightarrow>
     ((kern_return + mach_port_t) \<times> ipc_state) option" where
  "ipc_object_copyout_compat 0 env space port msgt_name ws s = None"
| "ipc_object_copyout_compat (Suc fuel) env space port msgt_name ws s =
     do {
       is \<leftarrow> ks_spaces s space;
       (if \<not> is_active is then Some (Inl KERN_INVALID_TASK, s)
        else
          do {
            (found, s) \<leftarrow>
              (if msgt_name \<noteq> MACH_MSG_TYPE_PORT_SEND_ONCE then ipc_right_reverse space port s else Some (None, s));
            let copyout = (\<lambda>name e s.
              do {
                (kr, s) \<leftarrow> ipc_right_copyout space name e msgt_name True port s;
                Some (if kr = KERN_SUCCESS then Inr name else Inl kr, s)
              });
            (case found of
               Some (name, e) \<Rightarrow> copyout name e s
             | None \<Rightarrow>
                 do {
                   (r, s) \<leftarrow> entry_get space s;
                   (case r of
                      Inl _ \<Rightarrow>
                        do {
                          (kr, ws, s) \<leftarrow> entry_grow_table space ws s;
                          (if kr \<noteq> KERN_SUCCESS then Some (Inl kr, s)
                           else ipc_object_copyout_compat fuel env space port msgt_name ws s)
                        }
                    | Inr (name, e) \<Rightarrow>
                        do {
                          (kr, s) \<leftarrow> copyout_compat_entry env space port name e s;
                          (case kr of
                             None \<Rightarrow> ipc_object_copyout_compat fuel env space port msgt_name ws s
                           | Some kr \<Rightarrow> if kr \<noteq> KERN_SUCCESS then Some (Inl kr, s) else copyout name e s)
                        })
                 })
          })
     }"

primrec ipc_object_copyout_name_compat ::
    "nat \<Rightarrow> (ipc_state \<Rightarrow> ipc_state) \<Rightarrow> ptr \<Rightarrow> ptr \<Rightarrow> u32 \<Rightarrow> mach_port_t \<Rightarrow> window list \<Rightarrow> ipc_state \<Rightarrow>
     (kern_return \<times> ipc_state) option" where
  "ipc_object_copyout_name_compat 0 env space port msgt_name name ws s = None"
| "ipc_object_copyout_name_compat (Suc fuel) env space port msgt_name name ws s =
     do {
       (r, ws, s) \<leftarrow> entry_alloc_name (Suc fuel) space name ws s;
       (case r of
          Inl kr \<Rightarrow> Some (kr, s)
        | Inr e \<Rightarrow>
            do {
              (inuse, s) \<leftarrow> ipc_right_inuse space name e s;
              (if inuse then Some (KERN_NAME_EXISTS, s)
               else
                 do {
                   (found, s) \<leftarrow>
                     (if msgt_name \<noteq> MACH_MSG_TYPE_PORT_SEND_ONCE then ipc_right_reverse space port s else Some (None, s));
                   (if found \<noteq> None then map_option (Pair KERN_RIGHT_EXISTS) (entry_dealloc space name e s)
                    else
                      do {
                        (kr, s) \<leftarrow> copyout_compat_entry env space port name e s;
                        (case kr of
                           None \<Rightarrow> ipc_object_copyout_name_compat fuel env space port msgt_name name ws s
                         | Some kr \<Rightarrow>
                             if kr \<noteq> KERN_SUCCESS then Some (kr, s)
                             else ipc_right_copyout space name e msgt_name True port s)
                      })
                 })
            })
     }"

section \<open>A compatibility entry is freed twice\<close>

text \<open>The name 256 has a send-once right, from the old interface, for a port that has died.\<close>

definition dead_compat_state :: ipc_state where
  "dead_compat_state =
     put_port 7 (sample_port\<lparr>ip_bits := 0\<rparr>)
       (put_space 5 (entry_update sample_taken (TableEntry 1)
          (\<lambda>en. en\<lparr>ie_bits := ie_bits en OR MACH_PORT_TYPE_SEND_ONCE OR IE_BITS_COMPAT OR 1, ie_object := 7, ie_request := 1\<rparr>)) empty_state)"

text \<open>Copying the right in, and then taking two entries.\<close>

definition freed_twice :: "((kern_return + ptr) \<times> (kern_return + mach_port_t \<times> ipc_entry_ptr) \<times> (kern_return + mach_port_t \<times> ipc_entry_ptr)) option" where
  "freed_twice =
     do {
       (r, s) \<leftarrow> ipc_object_copyin 5 256 MACH_MSG_TYPE_MOVE_SEND_ONCE dead_compat_state;
       (a, s) \<leftarrow> entry_get 5 s;
       (b, s) \<leftarrow> entry_get 5 s;
       Some (r, a, b)
     }"


end
