(* ===== verification/Ipc_Alloc.thy ===== *)
theory Ipc_Alloc
  imports Ipc_Object
begin

text \<open>
  The routines of \<^verbatim>\<open>src/ipc/ipc_port.c\<close>, \<^verbatim>\<open>src/ipc/ipc_pset.c\<close> and \<^verbatim>\<open>src/ipc/ipc_space.c\<close> that are built on
  those of \<^verbatim>\<open>src/ipc/ipc_object.c\<close>: allocating ports and port sets in a space, copying naked
  rights out, and destroying a space.
\<close>

section \<open>Ports\<close>

definition ipc_port_alloc ::
    "nat \<Rightarrow> ptr \<Rightarrow> ipc_port \<Rightarrow> window list \<Rightarrow> ipc_state \<Rightarrow> ((kern_return + mach_port_t \<times> ptr) \<times> ipc_state) option" where
  "ipc_port_alloc fuel space fresh ws s =
     do {
       (r, s) \<leftarrow> ipc_object_alloc fuel space (IoPort fresh) MACH_PORT_TYPE_RECEIVE 0 ws s;
       (case r of
          Inl kr \<Rightarrow> Some (Inl kr, s)
        | Inr (name, port) \<Rightarrow> map_option (Pair (Inr (name, port))) (mod_port port (ipc_port_init space name) s))
     }"

definition ipc_port_alloc_name ::
    "nat \<Rightarrow> ptr \<Rightarrow> ipc_port \<Rightarrow> mach_port_t \<Rightarrow> window list \<Rightarrow> ipc_state \<Rightarrow> ((kern_return + ptr) \<times> ipc_state) option" where
  "ipc_port_alloc_name fuel space fresh name ws s =
     do {
       (r, s) \<leftarrow> ipc_object_alloc_name fuel space (IoPort fresh) MACH_PORT_TYPE_RECEIVE 0 name ws s;
       (case r of
          Inl kr \<Rightarrow> Some (Inl kr, s)
        | Inr port \<Rightarrow> map_option (Pair (Inr port)) (mod_port port (ipc_port_init space name) s))
     }"

text \<open>
  \<open>garbage\<close> is what the memory of the table of requests held before.  Its first element keeps the
  head of the free list, its second the request of the space itself.
\<close>

definition compat_requests :: "nat list \<Rightarrow> ptr \<Rightarrow> mach_port_t \<Rightarrow> ipc_port_request list \<Rightarrow> ipc_port_request list" where
  "compat_requests dnits space name garbage =
     (let (table, free) = dngrow_free [2..<dnits ! 0] garbage 0
      in table[0 := \<lparr>ipr_notify = of_nat free, ipr_name = 0\<rparr>, 1 := \<lparr>ipr_notify = ipr_spacem space, ipr_name = name\<rparr>])"

definition ipc_port_alloc_compat ::
    "nat \<Rightarrow> ptr \<Rightarrow> ipc_port \<Rightarrow> ipc_port_request list \<Rightarrow> window list \<Rightarrow> ipc_state \<Rightarrow>
     ((kern_return + mach_port_t \<times> ptr) \<times> ipc_state) option" where
  "ipc_port_alloc_compat fuel space fresh garbage ws s =
     (let (port, s) = zalloc s
      in if port = 0 then Some (Inl KERN_RESOURCE_SHORTAGE, s)
         else
           let (addr, s) = zalloc s
           in if addr = 0 then Some (Inl KERN_RESOURCE_SHORTAGE, s)
              else
                do {
                  (r, s) \<leftarrow> entry_alloc fuel space ws s;
                  (case r of
                     Inl kr \<Rightarrow> Some (Inl kr, s)
                   | Inr (name, e) \<Rightarrow>
                       do {
                         s \<leftarrow> set_entry space e
                           (\<lambda>en. en\<lparr>ie_object := port, ie_request := 1,
                                   ie_bits := ie_bits en OR (IE_BITS_COMPAT OR MACH_PORT_TYPE_RECEIVE)\<rparr>) s;
                         let p = ipc_port_init space name
                           (fresh\<lparr>ip_references := 1, ip_bits := io_makebits True IOT_PORT 0\<rparr>);
                         let table = compat_requests (ks_dnits s) space name garbage;
                         s \<leftarrow> space_reference space (put_port port (p\<lparr>ip_dnrequests := Some (addr, table)\<rparr>) s);
                         Some (Inr (name, port), s)
                       })
                })"

definition ipc_port_translate_receive ::
    "ptr \<Rightarrow> mach_port_t \<Rightarrow> ipc_state \<Rightarrow> ((kern_return + ptr) \<times> ipc_state) option" where
  "ipc_port_translate_receive space name s = ipc_object_translate space name MACH_PORT_RIGHT_RECEIVE s"

definition ipc_port_set_mscount :: "ptr \<Rightarrow> u32 \<Rightarrow> ipc_state \<Rightarrow> ipc_state option" where
  "ipc_port_set_mscount port mscount s = mod_port port (\<lambda>p. p\<lparr>ip_mscount := mscount\<rparr>) s"

text \<open>Copying out a naked right; on a failure the right is destroyed.\<close>

definition ipc_port_copyout_send :: "nat \<Rightarrow> ptr \<Rightarrow> ptr \<Rightarrow> window list \<Rightarrow> ipc_state \<Rightarrow> (mach_port_t \<times> ipc_state) option" where
  "ipc_port_copyout_send fuel sright space ws s =
     (if IO_VALID sright then
        do {
          (r, s) \<leftarrow> ipc_object_copyout fuel space sright MACH_MSG_TYPE_PORT_SEND True ws s;
          (case r of
             Inl kr \<Rightarrow>
               map_option (Pair (if kr = KERN_INVALID_CAPABILITY then MACH_PORT_DEAD else MACH_PORT_NULL))
                 (ipc_port_release_send sright s)
           | Inr name \<Rightarrow> Some (name, s))
        }
      else Some (sright, s))"

definition ipc_port_copyout_send_compat ::
    "nat \<Rightarrow> (ipc_state \<Rightarrow> ipc_state) \<Rightarrow> ptr \<Rightarrow> ptr \<Rightarrow> window list \<Rightarrow> ipc_state \<Rightarrow> (mach_port_t \<times> ipc_state) option" where
  "ipc_port_copyout_send_compat fuel env sright space ws s =
     (if IO_VALID sright then
        do {
          (r, s) \<leftarrow> ipc_object_copyout_compat fuel env space sright MACH_MSG_TYPE_PORT_SEND ws s;
          (case r of
             Inl kr \<Rightarrow> map_option (Pair MACH_PORT_NULL) (ipc_port_release_send sright s)
           | Inr name \<Rightarrow> Some (name, s))
        }
      else Some (sright, s))"

definition ipc_port_copyout_receiver :: "ptr \<Rightarrow> ptr \<Rightarrow> ipc_state \<Rightarrow> (mach_port_t \<times> ipc_state) option" where
  "ipc_port_copyout_receiver port space s =
     (if \<not> IO_VALID port then Some (MACH_PORT_NULL, s)
      else
        do {
          p \<leftarrow> ks_ports s port;
          let name = (if ip_data p = space then ip_receiver_name p else MACH_PORT_NULL);
          map_option (Pair name) (ip_check_unlock port (put_port port (ip_release p) s))
        })"

section \<open>Port sets\<close>

definition ipc_pset_init :: "mach_port_t \<Rightarrow> ipc_pset \<Rightarrow> ipc_pset" where
  "ipc_pset_init name ps = ps\<lparr>ips_local_name := name, ips_messages := ipc_mqueue_init\<rparr>"

definition ipc_pset_alloc ::
    "nat \<Rightarrow> ptr \<Rightarrow> ipc_pset \<Rightarrow> window list \<Rightarrow> ipc_state \<Rightarrow> ((kern_return + mach_port_t \<times> ptr) \<times> ipc_state) option" where
  "ipc_pset_alloc fuel space fresh ws s =
     do {
       (r, s) \<leftarrow> ipc_object_alloc fuel space (IoPortSet fresh) MACH_PORT_TYPE_PORT_SET 0 ws s;
       (case r of
          Inl kr \<Rightarrow> Some (Inl kr, s)
        | Inr (name, pset) \<Rightarrow> map_option (Pair (Inr (name, pset))) (mod_pset pset (ipc_pset_init name) s))
     }"

definition ipc_pset_alloc_name ::
    "nat \<Rightarrow> ptr \<Rightarrow> ipc_pset \<Rightarrow> mach_port_t \<Rightarrow> window list \<Rightarrow> ipc_state \<Rightarrow> ((kern_return + ptr) \<times> ipc_state) option" where
  "ipc_pset_alloc_name fuel space fresh name ws s =
     do {
       (r, s) \<leftarrow> ipc_object_alloc_name fuel space (IoPortSet fresh) MACH_PORT_TYPE_PORT_SET 0 name ws s;
       (case r of
          Inl kr \<Rightarrow> Some (Inl kr, s)
        | Inr pset \<Rightarrow> map_option (Pair (Inr pset)) (mod_pset pset (ipc_pset_init name) s))
     }"

section \<open>Destroying a space\<close>

text \<open>
  Waiting until nobody grows the table: each element of \<open>envs\<close> is what the rest of the system does
  while the thread sleeps.  A thread that is not woken again gives \<open>None\<close>.
\<close>

fun space_wait :: "(ipc_state \<Rightarrow> ipc_state) list \<Rightarrow> ptr \<Rightarrow> ipc_state \<Rightarrow> ipc_state option" where
  "space_wait envs space s =
     do {
       is \<leftarrow> ks_spaces s space;
       (if \<not> is_growing is then Some s
        else case envs of [] \<Rightarrow> None | env # envs \<Rightarrow> space_wait envs space (env s))
     }"

fun space_clean_table :: "ptr \<Rightarrow> nat list \<Rightarrow> ipc_state \<Rightarrow> ipc_state option" where
  "space_clean_table space [] s = Some s"
| "space_clean_table space (index # rest) s =
     do {
       entry \<leftarrow> get_entry space (TableEntry index) s;
       s \<leftarrow>
         (if IE_BITS_TYPE (ie_bits entry) \<noteq> MACH_PORT_TYPE_NONE
          then ipc_right_clean port_destroy space (MACH_PORT_MAKEB index (ie_bits entry)) (TableEntry index) s
          else Some s);
       space_clean_table space rest s
     }"

text \<open>The body of the traversal of the tree, which deletes every entry.\<close>

definition space_clean_tentry :: "ptr \<Rightarrow> ipc_tree_entry \<Rightarrow> ipc_state option \<Rightarrow> bool \<times> ipc_state option" where
  "space_clean_tentry space tentry so =
     (True,
      do {
        s \<leftarrow> so;
        is \<leftarrow> ks_spaces s space;
        let name = ite_name tentry;
        let s =
          (if IE_BITS_TYPE (ie_bits (ite_entry tentry)) = MACH_PORT_TYPE_SEND then
             let (h, is) = ipc_hash_global_delete (ks_hash s) space is (ie_object (ite_entry tentry)) name
             in put_space space is (s\<lparr>ks_hash := h\<rparr>)
           else s);
        ipc_right_clean port_destroy space name (TreeEntry name) s
      })"

definition ipc_space_destroy :: "(ipc_state \<Rightarrow> ipc_state) list \<Rightarrow> ptr \<Rightarrow> ipc_state \<Rightarrow> ipc_state option" where
  "ipc_space_destroy envs space s =
     do {
       is \<leftarrow> ks_spaces s space;
       let s = put_space space (is\<lparr>is_active := False\<rparr>) s;
       (if \<not> is_active is then Some s
        else
          do {
            s \<leftarrow> space_wait envs space s;
            is \<leftarrow> ks_spaces s space;
            s \<leftarrow> space_clean_table space [0..<is_table_size is] s;
            is \<leftarrow> ks_spaces s space;
            let tree = is_tree is;
            let s = put_space space (is\<lparr>is_table := []\<rparr>) s;
            (root, so) \<leftarrow>
              ipc_splay_traverse_loop (length (ist_inorder tree)) (space_clean_tentry space)
                (ipc_splay_traverse_start tree) (Some s);
            s \<leftarrow> so;
            is \<leftarrow> ks_spaces s space;
            let s = put_space space (is\<lparr>is_tree := ipc_splay_traverse_finish tree root\<rparr>) s;
            s \<leftarrow> (if IO_VALID (is_notify is) then ipc_port_release_send (is_notify is) s else Some s);
            space_release space s
          })
     }"

end
