(* ===== verification/Mach_Port.thy ===== *)
theory Mach_Port
  imports Ipc_Alloc
begin

text \<open>
  The kernel calls on port names, \<^verbatim>\<open>src/ipc/mach_port.c\<close>.  A call gets the space, 0 when there is
  none.  \<open>fuel\<close> bounds the rounds of loops, \<open>ws\<close> and \<open>envs\<close> have what happens while the space is
  unlocked, \<open>fresh\<close> is what the memory of a new object held before, and \<open>page\<close> is the page size.
\<close>

section \<open>Listing names\<close>

definition round_page :: "nat \<Rightarrow> nat \<Rightarrow> nat" where
  "round_page page x = (x + (page - 1)) div page * page"

text \<open>
  The arrays of names and types are a list of pairs; \<open>sz\<close> is the size of their memory in bytes, and
  storing beyond it gives \<open>None\<close>.
\<close>

definition mach_port_names_helper ::
    "u32 \<Rightarrow> nat \<Rightarrow> ipc_state \<Rightarrow> ipc_entry \<Rightarrow> mach_port_t \<Rightarrow> (mach_port_t \<times> u32) list \<Rightarrow> (mach_port_t \<times> u32) list option" where
  "mach_port_names_helper timestamp sz s entry name acc =
     do {
       let bits = ie_bits entry;
       let request = ie_request entry;
       died \<leftarrow>
         (if bits AND MACH_PORT_TYPE_SEND_RIGHTS \<noteq> 0 then
            do {
              p \<leftarrow> ks_ports s (ie_object entry);
              Some (\<not> ip_active p \<and> IP_TIMESTAMP_ORDER (ip_data p) timestamp)
            }
          else Some False);
       (if died \<and> bits AND IE_BITS_COMPAT \<noteq> 0 then Some acc
        else
          do {
            let (bits, request) =
              (if died then
                 let bits = bits AND NOT (IE_BITS_TYPE_MASK OR IE_BITS_MAREQUEST) OR MACH_PORT_TYPE_DEAD_NAME
                 in (if request \<noteq> 0 then bits + 1 else bits, 0)
               else (bits, request));
            let type = IE_BITS_TYPE bits;
            let type =
              (if bits AND IE_BITS_COMPAT \<noteq> 0 then type OR MACH_PORT_TYPE_COMPAT
               else if request \<noteq> 0 then type OR MACH_PORT_TYPE_DNREQUEST
               else type);
            let type = (if bits AND IE_BITS_MAREQUEST \<noteq> 0 then type OR MACH_PORT_TYPE_MAREQUEST else type);
            (if length acc * 4 < sz then Some (acc @ [(name, type)]) else None)
          })
     }"

text \<open>Getting enough memory, outside the lock, for the names of the space; the result is its size.\<close>

primrec names_memory ::
    "nat \<Rightarrow> nat \<Rightarrow> (nat \<Rightarrow> ipc_state \<Rightarrow> ipc_state) \<Rightarrow> ptr \<Rightarrow> nat \<Rightarrow> ipc_state \<Rightarrow> ((kern_return + nat) \<times> ipc_state) option" where
  "names_memory 0 page env space sz s = None"
| "names_memory (Suc fuel) page env space sz s =
     do {
       is \<leftarrow> ks_spaces s space;
       (if \<not> is_active is then Some (Inl KERN_INVALID_TASK, s)
        else
          let bound = is_table_size is + is_tree_total is;
              size_needed = round_page page (bound * 4)
          in if size_needed \<le> sz then Some (Inr sz, s)
             else
               let (addr1, s) = zalloc s
               in if addr1 = 0 then Some (Inl KERN_RESOURCE_SHORTAGE, s)
                  else
                    let (addr2, s) = zalloc s
                    in if addr2 = 0 then Some (Inl KERN_RESOURCE_SHORTAGE, s)
                       else names_memory fuel page env space size_needed (env fuel s))
     }"

fun names_table ::
    "u32 \<Rightarrow> nat \<Rightarrow> ipc_state \<Rightarrow> ipc_space \<Rightarrow> nat list \<Rightarrow> (mach_port_t \<times> u32) list \<Rightarrow> (mach_port_t \<times> u32) list option" where
  "names_table timestamp sz s is [] acc = Some acc"
| "names_table timestamp sz s is (index # rest) acc =
     do {
       entry \<leftarrow> entry_at is (TableEntry index);
       acc \<leftarrow>
         (if IE_BITS_TYPE (ie_bits entry) \<noteq> MACH_PORT_TYPE_NONE
          then mach_port_names_helper timestamp sz s entry (MACH_PORT_MAKEB index (ie_bits entry)) acc
          else Some acc);
       names_table timestamp sz s is rest acc
     }"

definition names_tentry ::
    "u32 \<Rightarrow> nat \<Rightarrow> ipc_state \<Rightarrow> ipc_tree_entry \<Rightarrow> (mach_port_t \<times> u32) list option \<Rightarrow> bool \<times> (mach_port_t \<times> u32) list option" where
  "names_tentry timestamp sz s tentry acc =
     (False, acc \<bind> mach_port_names_helper timestamp sz s (ite_entry tentry) (ite_name tentry))"

definition mach_port_names ::
    "nat \<Rightarrow> nat \<Rightarrow> (nat \<Rightarrow> ipc_state \<Rightarrow> ipc_state) \<Rightarrow> ptr \<Rightarrow> ipc_state \<Rightarrow>
     ((kern_return + (mach_port_t \<times> u32) list) \<times> ipc_state) option" where
  "mach_port_names fuel page env space s =
     (if space = 0 then Some (Inl KERN_INVALID_TASK, s)
      else
        do {
          (r, s) \<leftarrow> names_memory fuel page env space 0 s;
          (case r of
             Inl kr \<Rightarrow> Some (Inl kr, s)
           | Inr sz \<Rightarrow>
               do {
                 let (timestamp, s) = ipc_port_timestamp s;
                 is \<leftarrow> ks_spaces s space;
                 acc \<leftarrow> names_table timestamp sz s is [0..<is_table_size is] [];
                 (root, acc) \<leftarrow>
                   ipc_splay_traverse_loop (length (ist_inorder (is_tree is))) (names_tentry timestamp sz s)
                     (ipc_splay_traverse_start (is_tree is)) (Some acc);
                 acc \<leftarrow> acc;
                 let is = is\<lparr>is_tree := ipc_splay_traverse_finish (is_tree is) root\<rparr>;
                 Some (Inr acc, put_space space is s)
               })
        })"

definition mach_port_type :: "ptr \<Rightarrow> mach_port_t \<Rightarrow> ipc_state \<Rightarrow> ((kern_return + u32) \<times> ipc_state) option" where
  "mach_port_type space name s =
     (if space = 0 then Some (Inl KERN_INVALID_TASK, s)
      else
        do {
          (r, s) \<leftarrow> ipc_right_lookup_write space name s;
          (case r of
             Inl kr \<Rightarrow> Some (Inl kr, s)
           | Inr e \<Rightarrow>
               do {
                 (r, s) \<leftarrow> ipc_right_info space name e s;
                 Some (map_sum id fst r, s)
               })
        })"

definition mach_port_rename ::
    "nat \<Rightarrow> ptr \<Rightarrow> mach_port_t \<Rightarrow> mach_port_t \<Rightarrow> window list \<Rightarrow> ipc_state \<Rightarrow> (kern_return \<times> ipc_state) option" where
  "mach_port_rename fuel space oname nname ws s =
     (if space = 0 then Some (KERN_INVALID_TASK, s)
      else if \<not> MACH_PORT_VALID nname then Some (KERN_INVALID_VALUE, s)
      else ipc_object_rename fuel space oname nname ws s)"

section \<open>Allocating\<close>

text \<open>The kinds of rights by number; numbers from \<open>MACH_PORT_RIGHT_NUMBER\<close> on are none.\<close>

definition port_right :: "u32 \<Rightarrow> mach_port_right option" where
  "port_right rightn =
     (if rightn = 0 then Some MACH_PORT_RIGHT_SEND
      else if rightn = 1 then Some MACH_PORT_RIGHT_RECEIVE
      else if rightn = 2 then Some MACH_PORT_RIGHT_SEND_ONCE
      else if rightn = 3 then Some MACH_PORT_RIGHT_PORT_SET
      else if rightn = 4 then Some MACH_PORT_RIGHT_DEAD_NAME
      else None)"

definition mach_port_allocate_name ::
    "nat \<Rightarrow> ptr \<Rightarrow> u32 \<Rightarrow> ipc_port \<Rightarrow> ipc_pset \<Rightarrow> mach_port_t \<Rightarrow> window list \<Rightarrow> ipc_state \<Rightarrow> (kern_return \<times> ipc_state) option" where
  "mach_port_allocate_name fuel space rightn fresh_port fresh_pset name ws s =
     (if space = 0 then Some (KERN_INVALID_TASK, s)
      else if \<not> MACH_PORT_VALID name then Some (KERN_INVALID_VALUE, s)
      else
        let kr = map_option (\<lambda>(r, s). (case r of Inl kr \<Rightarrow> kr | Inr _ \<Rightarrow> KERN_SUCCESS, s))
        in case port_right rightn of
             Some MACH_PORT_RIGHT_RECEIVE \<Rightarrow> kr (ipc_port_alloc_name fuel space fresh_port name ws s)
           | Some MACH_PORT_RIGHT_PORT_SET \<Rightarrow> kr (ipc_pset_alloc_name fuel space fresh_pset name ws s)
           | Some MACH_PORT_RIGHT_DEAD_NAME \<Rightarrow> ipc_object_alloc_dead_name fuel space name ws s
           | _ \<Rightarrow> Some (KERN_INVALID_VALUE, s))"

definition mach_port_allocate ::
    "nat \<Rightarrow> ptr \<Rightarrow> u32 \<Rightarrow> ipc_port \<Rightarrow> ipc_pset \<Rightarrow> window list \<Rightarrow> ipc_state \<Rightarrow>
     ((kern_return + mach_port_t) \<times> ipc_state) option" where
  "mach_port_allocate fuel space rightn fresh_port fresh_pset ws s =
     (if space = 0 then Some (Inl KERN_INVALID_TASK, s)
      else
        let name = map_option (\<lambda>(r, s). (map_sum id fst r, s))
        in case port_right rightn of
             Some MACH_PORT_RIGHT_RECEIVE \<Rightarrow> name (ipc_port_alloc fuel space fresh_port ws s)
           | Some MACH_PORT_RIGHT_PORT_SET \<Rightarrow> name (ipc_pset_alloc fuel space fresh_pset ws s)
           | Some MACH_PORT_RIGHT_DEAD_NAME \<Rightarrow> ipc_object_alloc_dead fuel space ws s
           | _ \<Rightarrow> Some (Inl KERN_INVALID_VALUE, s))"

section \<open>Rights of a name\<close>

definition mach_port_destroy :: "ptr \<Rightarrow> mach_port_t \<Rightarrow> ipc_state \<Rightarrow> (kern_return \<times> ipc_state) option" where
  "mach_port_destroy space name s =
     (if space = 0 then Some (KERN_INVALID_TASK, s)
      else
        do {
          (r, s) \<leftarrow> ipc_right_lookup_write space name s;
          (case r of Inl kr \<Rightarrow> Some (kr, s) | Inr e \<Rightarrow> ipc_right_destroy port_destroy space name e s)
        })"

definition mach_port_deallocate :: "ptr \<Rightarrow> mach_port_t \<Rightarrow> ipc_state \<Rightarrow> (kern_return \<times> ipc_state) option" where
  "mach_port_deallocate space name s =
     (if space = 0 then Some (KERN_INVALID_TASK, s)
      else
        do {
          (r, s) \<leftarrow> ipc_right_lookup_write space name s;
          (case r of Inl kr \<Rightarrow> Some (kr, s) | Inr e \<Rightarrow> ipc_right_dealloc space name e s)
        })"

definition mach_port_get_refs ::
    "ptr \<Rightarrow> mach_port_t \<Rightarrow> u32 \<Rightarrow> ipc_state \<Rightarrow> ((kern_return + u32) \<times> ipc_state) option" where
  "mach_port_get_refs space name rightn s =
     (if space = 0 then Some (Inl KERN_INVALID_TASK, s)
      else
        case port_right rightn of
          None \<Rightarrow> Some (Inl KERN_INVALID_VALUE, s)
        | Some rt \<Rightarrow>
            do {
              (r, s) \<leftarrow> ipc_right_lookup_write space name s;
              (case r of
                 Inl kr \<Rightarrow> Some (Inl kr, s)
               | Inr e \<Rightarrow>
                   do {
                     (r, s) \<leftarrow> ipc_right_info space name e s;
                     Some (case r of
                             Inl kr \<Rightarrow> Inl kr
                           | Inr (type, urefs) \<Rightarrow>
                               Inr (if type AND MACH_PORT_TYPE rt = 0 then 0
                                    else if rt = MACH_PORT_RIGHT_DEAD_NAME \<or> rt = MACH_PORT_RIGHT_SEND then urefs
                                    else 1), s)
                   })
            })"

definition mach_port_mod_refs ::
    "ptr \<Rightarrow> mach_port_t \<Rightarrow> u32 \<Rightarrow> u32 \<Rightarrow> ipc_state \<Rightarrow> (kern_return \<times> ipc_state) option" where
  "mach_port_mod_refs space name rightn delta s =
     (if space = 0 then Some (KERN_INVALID_TASK, s)
      else
        case port_right rightn of
          None \<Rightarrow> Some (KERN_INVALID_VALUE, s)
        | Some rt \<Rightarrow>
            do {
              (r, s) \<leftarrow> ipc_right_lookup_write space name s;
              (case r of Inl kr \<Rightarrow> Some (kr, s) | Inr e \<Rightarrow> ipc_right_delta space name e rt delta s)
            })"

section \<open>Attributes of receive rights\<close>

text \<open>The calls that change an attribute: they find the port and run \<open>f\<close> on it.\<close>

definition with_receive ::
    "ptr \<Rightarrow> mach_port_t \<Rightarrow> (ptr \<Rightarrow> ipc_state \<Rightarrow> ipc_state option) \<Rightarrow> ipc_state \<Rightarrow> (kern_return \<times> ipc_state) option" where
  "with_receive space name f s =
     do {
       (r, s) \<leftarrow> ipc_port_translate_receive space name s;
       (case r of Inl kr \<Rightarrow> Some (kr, s) | Inr port \<Rightarrow> map_option (Pair KERN_SUCCESS) (f port s))
     }"

definition mach_port_set_qlimit :: "ptr \<Rightarrow> mach_port_t \<Rightarrow> nat \<Rightarrow> ipc_state \<Rightarrow> (kern_return \<times> ipc_state) option" where
  "mach_port_set_qlimit space name qlimit s =
     (if space = 0 then Some (KERN_INVALID_TASK, s)
      else if MACH_PORT_QLIMIT_MAX < qlimit then Some (KERN_INVALID_VALUE, s)
      else with_receive space name (\<lambda>port. ipc_port_set_qlimit port qlimit) s)"

definition mach_port_set_mscount :: "ptr \<Rightarrow> mach_port_t \<Rightarrow> u32 \<Rightarrow> ipc_state \<Rightarrow> (kern_return \<times> ipc_state) option" where
  "mach_port_set_mscount space name mscount s =
     (if space = 0 then Some (KERN_INVALID_TASK, s)
      else with_receive space name (\<lambda>port. ipc_port_set_mscount port mscount) s)"

definition mach_port_set_seqno :: "ptr \<Rightarrow> mach_port_t \<Rightarrow> u32 \<Rightarrow> ipc_state \<Rightarrow> (kern_return \<times> ipc_state) option" where
  "mach_port_set_seqno space name seqno s =
     (if space = 0 then Some (KERN_INVALID_TASK, s)
      else with_receive space name (\<lambda>port. ipc_port_set_seqno port seqno) s)"

section \<open>Port sets\<close>

text \<open>The array of names as a list, which takes at most \<open>maxnames\<close>, with the count of all members.\<close>

definition mach_port_gst_helper ::
    "ptr \<Rightarrow> ptr \<Rightarrow> nat \<Rightarrow> ipc_state \<Rightarrow> mach_port_t list \<times> nat \<Rightarrow> (mach_port_t list \<times> nat) option" where
  "mach_port_gst_helper pset port maxnames s acc =
     do {
       p \<leftarrow> ks_ports s port;
       let (names, actual) = acc;
       Some (if pset = ip_pset p
             then (if actual < maxnames then names @ [ip_receiver_name p] else names, actual + 1)
             else acc)
     }"

definition gst_entry ::
    "ptr \<Rightarrow> nat \<Rightarrow> ipc_state \<Rightarrow> ipc_entry \<Rightarrow> mach_port_t list \<times> nat \<Rightarrow> (mach_port_t list \<times> nat) option" where
  "gst_entry pset maxnames s entry acc =
     (if ie_bits entry AND MACH_PORT_TYPE_RECEIVE \<noteq> 0
      then mach_port_gst_helper pset (ie_object entry) maxnames s acc
      else Some acc)"

fun gst_table ::
    "ptr \<Rightarrow> nat \<Rightarrow> ipc_state \<Rightarrow> ipc_space \<Rightarrow> nat list \<Rightarrow> mach_port_t list \<times> nat \<Rightarrow> (mach_port_t list \<times> nat) option" where
  "gst_table pset maxnames s is [] acc = Some acc"
| "gst_table pset maxnames s is (index # rest) acc =
     do {
       entry \<leftarrow> entry_at is (TableEntry index);
       acc \<leftarrow> gst_entry pset maxnames s entry acc;
       gst_table pset maxnames s is rest acc
     }"

definition gst_tentry ::
    "ptr \<Rightarrow> nat \<Rightarrow> ipc_state \<Rightarrow> ipc_tree_entry \<Rightarrow> (mach_port_t list \<times> nat) option \<Rightarrow> bool \<times> (mach_port_t list \<times> nat) option" where
  "gst_tentry pset maxnames s tentry acc = (False, acc \<bind> gst_entry pset maxnames s (ite_entry tentry))"

primrec gst_loop ::
    "nat \<Rightarrow> nat \<Rightarrow> (nat \<Rightarrow> ipc_state \<Rightarrow> ipc_state) \<Rightarrow> ptr \<Rightarrow> mach_port_t \<Rightarrow> nat \<Rightarrow> ipc_state \<Rightarrow>
     ((kern_return + mach_port_t list) \<times> ipc_state) option" where
  "gst_loop 0 page env space name sz s = None"
| "gst_loop (Suc fuel) page env space name sz s =
     (let (addr, s) = zalloc s
      in if addr = 0 then Some (Inl KERN_RESOURCE_SHORTAGE, s)
         else
           do {
             (r, s) \<leftarrow> ipc_right_lookup_write space name (env fuel s);
             (case r of
                Inl kr \<Rightarrow> Some (Inl kr, s)
              | Inr e \<Rightarrow>
                  do {
                    entry \<leftarrow> get_entry space e s;
                    (if IE_BITS_TYPE (ie_bits entry) \<noteq> MACH_PORT_TYPE_PORT_SET then Some (Inl KERN_INVALID_RIGHT, s)
                     else
                       do {
                         let pset = ie_object entry;
                         let maxnames = sz div 4;
                         is \<leftarrow> ks_spaces s space;
                         acc \<leftarrow> gst_table pset maxnames s is [0..<is_table_size is] ([], 0);
                         (root, acc) \<leftarrow>
                           ipc_splay_traverse_loop (length (ist_inorder (is_tree is))) (gst_tentry pset maxnames s)
                             (ipc_splay_traverse_start (is_tree is)) (Some acc);
                         (names, actual) \<leftarrow> acc;
                         let s = put_space space (is\<lparr>is_tree := ipc_splay_traverse_finish (is_tree is) root\<rparr>) s;
                         (if actual \<le> maxnames then Some (Inr names, s)
                          else gst_loop fuel page env space name (round_page page (actual * 4) + page) s)
                       })
                  })
           })"

definition mach_port_get_set_status ::
    "nat \<Rightarrow> nat \<Rightarrow> (nat \<Rightarrow> ipc_state \<Rightarrow> ipc_state) \<Rightarrow> ptr \<Rightarrow> mach_port_t \<Rightarrow> ipc_state \<Rightarrow>
     ((kern_return + mach_port_t list) \<times> ipc_state) option" where
  "mach_port_get_set_status fuel page env space name s =
     (if space = 0 then Some (Inl KERN_INVALID_TASK, s) else gst_loop fuel page env space name page s)"

definition mach_port_move_member ::
    "ptr \<Rightarrow> mach_port_t \<Rightarrow> mach_port_t \<Rightarrow> ipc_state \<Rightarrow> (kern_return \<times> ipc_state) option" where
  "mach_port_move_member space member after s =
     (if space = 0 then Some (KERN_INVALID_TASK, s)
      else
        do {
          (r, s) \<leftarrow> ipc_right_lookup_write space member s;
          (case r of
             Inl kr \<Rightarrow> Some (kr, s)
           | Inr e \<Rightarrow>
               do {
                 entry \<leftarrow> get_entry space e s;
                 (if ie_bits entry AND MACH_PORT_TYPE_RECEIVE = 0 then Some (KERN_INVALID_RIGHT, s)
                  else if after = MACH_PORT_NULL then ipc_pset_move (ie_object entry) 0 s
                  else
                    do {
                      (e, s) \<leftarrow> entry_lookup space after s;
                      (case e of
                         None \<Rightarrow> Some (KERN_INVALID_NAME, s)
                       | Some e \<Rightarrow>
                           do {
                             nentry \<leftarrow> get_entry space e s;
                             (if ie_bits nentry AND MACH_PORT_TYPE_PORT_SET = 0 then Some (KERN_INVALID_RIGHT, s)
                              else ipc_pset_move (ie_object entry) (ie_object nentry) s)
                           })
                    })
               })
        })"

section \<open>Notifications and transfer of rights\<close>

definition mach_port_request_notification ::
    "nat \<Rightarrow> (ipc_state \<Rightarrow> ipc_state) \<Rightarrow> ptr \<Rightarrow> mach_port_t \<Rightarrow> u32 \<Rightarrow> u32 \<Rightarrow> ptr \<Rightarrow> ipc_state \<Rightarrow>
     ((kern_return + ptr) \<times> ipc_state) option" where
  "mach_port_request_notification fuel env space name mid sync notify s =
     (if space = 0 then Some (Inl KERN_INVALID_TASK, s)
      else if notify = IO_DEAD then Some (Inl KERN_INVALID_CAPABILITY, s)
      else if mid = MACH_NOTIFY_PORT_DESTROYED then
        if sync \<noteq> 0 then Some (Inl KERN_INVALID_VALUE, s)
        else
          do {
            (r, s) \<leftarrow> ipc_port_translate_receive space name s;
            (case r of
               Inl kr \<Rightarrow> Some (Inl kr, s)
             | Inr port \<Rightarrow>
                 do {
                   (previous, s) \<leftarrow> ipc_port_pdrequest port notify s;
                   (if previous \<noteq> 0 \<and> ip_pdsendp previous
                    then map_option (Pair (Inr 0)) (ipc_port_release_send (ip_pdsend previous) s)
                    else Some (Inr previous, s))
                 })
          }
      else if mid = MACH_NOTIFY_NO_SENDERS then
        do {
          (r, s) \<leftarrow> ipc_port_translate_receive space name s;
          (case r of
             Inl kr \<Rightarrow> Some (Inl kr, s)
           | Inr port \<Rightarrow> map_option (map_prod Inr id) (ipc_port_nsrequest port sync notify s))
        }
      else if mid = MACH_NOTIFY_DEAD_NAME then ipc_right_dnrequest fuel env space name (sync \<noteq> 0) notify s
      else Some (Inl KERN_INVALID_VALUE, s))"

definition MACH_MSG_TYPE_PORT_ANY :: "u32 \<Rightarrow> bool" where
  "MACH_MSG_TYPE_PORT_ANY x \<longleftrightarrow> MACH_MSG_TYPE_MOVE_RECEIVE \<le> x \<and> x \<le> MACH_MSG_TYPE_MAKE_SEND_ONCE"

definition MACH_MSG_TYPE_PORT_ANY_RIGHT :: "u32 \<Rightarrow> bool" where
  "MACH_MSG_TYPE_PORT_ANY_RIGHT x \<longleftrightarrow> MACH_MSG_TYPE_MOVE_RECEIVE \<le> x \<and> x \<le> MACH_MSG_TYPE_MOVE_SEND_ONCE"

definition mach_port_insert_right ::
    "nat \<Rightarrow> ptr \<Rightarrow> mach_port_t \<Rightarrow> ptr \<Rightarrow> u32 \<Rightarrow> window list \<Rightarrow> ipc_state \<Rightarrow> (kern_return \<times> ipc_state) option" where
  "mach_port_insert_right fuel space name poly polyPoly ws s =
     (if space = 0 then Some (KERN_INVALID_TASK, s)
      else if \<not> MACH_PORT_VALID name \<or> \<not> MACH_MSG_TYPE_PORT_ANY_RIGHT polyPoly then Some (KERN_INVALID_VALUE, s)
      else if \<not> IO_VALID poly then Some (KERN_INVALID_CAPABILITY, s)
      else ipc_object_copyout_name fuel space poly polyPoly False name ws s)"

definition mach_port_extract_right ::
    "ptr \<Rightarrow> mach_port_t \<Rightarrow> u32 \<Rightarrow> ipc_state \<Rightarrow> ((kern_return + ptr \<times> u32) \<times> ipc_state) option" where
  "mach_port_extract_right space name msgt_name s =
     (if space = 0 then Some (Inl KERN_INVALID_TASK, s)
      else if \<not> MACH_MSG_TYPE_PORT_ANY msgt_name then Some (Inl KERN_INVALID_VALUE, s)
      else
        do {
          (r, s) \<leftarrow> ipc_object_copyin space name msgt_name s;
          (case r of
             Inl kr \<Rightarrow> Some (Inl kr, s)
           | Inr poly \<Rightarrow>
               do {
                 polyPoly \<leftarrow> ipc_object_copyin_type msgt_name;
                 Some (Inr (poly, polyPoly), s)
               })
        })"

record mach_port_status =
  mps_pset :: mach_port_t
  mps_seqno :: u32
  mps_mscount :: u32
  mps_qlimit :: nat
  mps_msgcount :: nat
  mps_sorights :: nat
  mps_srights :: bool
  mps_pdrequest :: bool
  mps_nsrequest :: bool

text \<open>The name of the set of a port; a port in a dead set is removed from it.\<close>

definition status_pset :: "ptr \<Rightarrow> ipc_state \<Rightarrow> (mach_port_t \<times> ipc_state) option" where
  "status_pset port s =
     do {
       p \<leftarrow> ks_ports s port;
       (if ip_pset p = 0 then Some (MACH_PORT_NULL, s)
        else
          do {
            ps \<leftarrow> ks_psets s (ip_pset p);
            (if \<not> ips_active ps
             then map_option (Pair MACH_PORT_NULL) (ipc_pset_remove (ip_pset p) port s \<bind> ips_check_unlock (ip_pset p))
             else Some (ips_local_name ps, s))
          })
     }"

definition mach_port_get_receive_status ::
    "ptr \<Rightarrow> mach_port_t \<Rightarrow> ipc_state \<Rightarrow> ((kern_return + mach_port_status) \<times> ipc_state) option" where
  "mach_port_get_receive_status space name s =
     (if space = 0 then Some (Inl KERN_INVALID_TASK, s)
      else
        do {
          (r, s) \<leftarrow> ipc_port_translate_receive space name s;
          (case r of
             Inl kr \<Rightarrow> Some (Inl kr, s)
           | Inr port \<Rightarrow>
               do {
                 (pset, s) \<leftarrow> status_pset port s;
                 p \<leftarrow> ks_ports s port;
                 Some (Inr \<lparr>mps_pset = pset, mps_seqno = ip_seqno p, mps_mscount = ip_mscount p, mps_qlimit = ip_qlimit p,
                            mps_msgcount = ip_msgcount p, mps_sorights = ip_sorights p, mps_srights = ip_srights p > 0,
                            mps_pdrequest = ip_pdrequest p \<noteq> 0, mps_nsrequest = ip_nsrequest p \<noteq> 0\<rparr>, s)
               })
        })"

section \<open>The old calls\<close>

text \<open>
  What the old calls start with: the entry of a name and the type of its right, with the codes of the
  old interface.
\<close>

definition compat_lookup ::
    "ptr \<Rightarrow> mach_port_t \<Rightarrow> ipc_state \<Rightarrow> ((kern_return + ipc_entry_ptr \<times> u32) \<times> ipc_state) option" where
  "compat_lookup space name s =
     do {
       (r, s) \<leftarrow> ipc_right_lookup_write space name s;
       (case r of
          Inl kr \<Rightarrow> Some (Inl KERN_INVALID_ARGUMENT, s)
        | Inr e \<Rightarrow>
            do {
              (r, s) \<leftarrow> ipc_right_info space name e s;
              Some (case r of Inl kr \<Rightarrow> Inl KERN_INVALID_ARGUMENT | Inr (type, urefs) \<Rightarrow> Inr (e, type), s)
            })
     }"

text \<open>The same for calls that need a receive right; the result is the port.\<close>

definition port_translate_compat :: "ptr \<Rightarrow> mach_port_t \<Rightarrow> ipc_state \<Rightarrow> ((kern_return + ptr) \<times> ipc_state) option" where
  "port_translate_compat space name s =
     do {
       (r, s) \<leftarrow> compat_lookup space name s;
       (case r of
          Inl kr \<Rightarrow> Some (Inl kr, s)
        | Inr (e, type) \<Rightarrow>
            if type AND MACH_PORT_TYPE_RECEIVE = 0 then
              Some (Inl (if type AND MACH_PORT_TYPE_PORT_OR_DEAD \<noteq> 0 then KERN_NOT_RECEIVER else KERN_INVALID_ARGUMENT), s)
            else
              do {
                entry \<leftarrow> get_entry space e s;
                Some (Inr (ie_object entry), s)
              })
     }"

definition PORT_TYPE_SEND :: u32 where "PORT_TYPE_SEND = 1"
definition PORT_TYPE_RECEIVE_OWN :: u32 where "PORT_TYPE_RECEIVE_OWN = 7"
definition PORT_TYPE_SET :: u32 where "PORT_TYPE_SET = 9"
definition PORT_BACKLOG_MAX :: int where "PORT_BACKLOG_MAX = int MACH_PORT_QLIMIT_MAX"

definition MACH_PORT_TYPE_ALL_RIGHTS :: u32 where
  "MACH_PORT_TYPE_ALL_RIGHTS = MACH_PORT_TYPE_PORT_OR_DEAD OR MACH_PORT_TYPE_PORT_SET"

definition convert_port_type :: "u32 \<Rightarrow> u32 option" where
  "convert_port_type type =
     (let rights = type AND MACH_PORT_TYPE_ALL_RIGHTS
      in if rights = MACH_PORT_TYPE_SEND \<or> rights = MACH_PORT_TYPE_SEND_ONCE \<or> rights = MACH_PORT_TYPE_DEAD_NAME
         then Some PORT_TYPE_SEND
         else if rights = MACH_PORT_TYPE_RECEIVE \<or> rights = MACH_PORT_TYPE_SEND_RECEIVE then Some PORT_TYPE_RECEIVE_OWN
         else if rights = MACH_PORT_TYPE_PORT_SET then Some PORT_TYPE_SET
         else None)"

text \<open>\<open>moved\<close> is the outcome of mapping the array of types back into the kernel.\<close>

definition port_names ::
    "nat \<Rightarrow> nat \<Rightarrow> (nat \<Rightarrow> ipc_state \<Rightarrow> ipc_state) \<Rightarrow> bool \<Rightarrow> ptr \<Rightarrow> ipc_state \<Rightarrow>
     ((kern_return + (mach_port_t \<times> u32) list) \<times> ipc_state) option" where
  "port_names fuel page env moved space s =
     do {
       (r, s) \<leftarrow> mach_port_names fuel page env space s;
       (case r of
          Inl kr \<Rightarrow> Some (Inl (if kr \<noteq> KERN_RESOURCE_SHORTAGE then KERN_INVALID_ARGUMENT else kr), s)
        | Inr acc \<Rightarrow>
            if \<not> moved then Some (Inl KERN_RESOURCE_SHORTAGE, s)
            else
              do {
                types \<leftarrow> those (map (convert_port_type \<circ> snd) acc);
                Some (Inr (zip (map fst acc) types), s)
              })
     }"

definition port_type :: "ptr \<Rightarrow> mach_port_t \<Rightarrow> ipc_state \<Rightarrow> ((kern_return + u32) \<times> ipc_state) option" where
  "port_type space name s =
     do {
       (r, s) \<leftarrow> mach_port_type space name s;
       (case r of
          Inl kr \<Rightarrow> Some (Inl KERN_INVALID_ARGUMENT, s)
        | Inr type \<Rightarrow> map_option (\<lambda>type. (Inr type, s)) (convert_port_type type))
     }"

definition port_rename ::
    "nat \<Rightarrow> ptr \<Rightarrow> mach_port_t \<Rightarrow> mach_port_t \<Rightarrow> window list \<Rightarrow> ipc_state \<Rightarrow> (kern_return \<times> ipc_state) option" where
  "port_rename fuel space old_name new_name ws s =
     do {
       (kr, s) \<leftarrow> mach_port_rename fuel space old_name new_name ws s;
       Some (if kr \<noteq> KERN_SUCCESS \<and> kr \<noteq> KERN_NAME_EXISTS then KERN_INVALID_ARGUMENT else kr, s)
     }"

text \<open>Codes other than a shortage of memory become \<open>KERN_INVALID_ARGUMENT\<close>.\<close>

definition compat_code :: "kern_return \<Rightarrow> kern_return" where
  "compat_code kr = (if kr \<noteq> KERN_RESOURCE_SHORTAGE then KERN_INVALID_ARGUMENT else kr)"

definition port_allocate ::
    "nat \<Rightarrow> ptr \<Rightarrow> ipc_port \<Rightarrow> ipc_port_request list \<Rightarrow> window list \<Rightarrow> ipc_state \<Rightarrow>
     ((kern_return + mach_port_t) \<times> ipc_state) option" where
  "port_allocate fuel space fresh garbage ws s =
     (if space = 0 then Some (Inl KERN_INVALID_ARGUMENT, s)
      else map_option (\<lambda>(r, s). (map_sum compat_code fst r, s)) (ipc_port_alloc_compat fuel space fresh garbage ws s))"

definition port_deallocate :: "ptr \<Rightarrow> mach_port_t \<Rightarrow> ipc_state \<Rightarrow> (kern_return \<times> ipc_state) option" where
  "port_deallocate space name s =
     (if space = 0 then Some (KERN_INVALID_ARGUMENT, s)
      else
        do {
          (r, s) \<leftarrow> compat_lookup space name s;
          (case r of
             Inl kr \<Rightarrow> Some (kr, s)
           | Inr (e, type) \<Rightarrow>
               if type AND MACH_PORT_TYPE_PORT_OR_DEAD = 0 then Some (KERN_INVALID_ARGUMENT, s)
               else
                 do {
                   (kr, s) \<leftarrow> ipc_right_destroy port_destroy space name e s;
                   Some (KERN_SUCCESS, s)
                 })
        })"

definition port_set_backlog :: "ptr \<Rightarrow> mach_port_t \<Rightarrow> int \<Rightarrow> ipc_state \<Rightarrow> (kern_return \<times> ipc_state) option" where
  "port_set_backlog space name backlog s =
     (if space = 0 \<or> backlog \<le> 0 \<or> backlog > PORT_BACKLOG_MAX then Some (KERN_INVALID_ARGUMENT, s)
      else
        do {
          (r, s) \<leftarrow> port_translate_compat space name s;
          (case r of
             Inl kr \<Rightarrow> Some (kr, s)
           | Inr port \<Rightarrow> map_option (Pair KERN_SUCCESS) (ipc_port_set_qlimit port (nat backlog) s))
        })"

definition port_set_backup ::
    "ptr \<Rightarrow> mach_port_t \<Rightarrow> ptr \<Rightarrow> ipc_state \<Rightarrow> ((kern_return + ptr) \<times> ipc_state) option" where
  "port_set_backup space name backup s =
     (if space = 0 then Some (Inl KERN_INVALID_ARGUMENT, s)
      else
        let backup = (if backup = IO_DEAD then 0 else if backup \<noteq> 0 then ip_pdsendm backup else backup)
        in do {
             (r, s) \<leftarrow> port_translate_compat space name s;
             (case r of
                Inl kr \<Rightarrow> Some (Inl kr, s)
              | Inr port \<Rightarrow>
                  do {
                    (previous, s) \<leftarrow> ipc_port_pdrequest port backup s;
                    (if previous = 0 then Some (Inr 0, s)
                     else if ip_pdsendp previous then Some (Inr (ip_pdsend previous), s)
                     else map_option (Pair (Inr 0)) (ipc_notify_send_once previous s))
                  })
           })"

text \<open>Name of the set, number of messages, backlog, ownership, and receive rights.\<close>

definition port_status ::
    "ptr \<Rightarrow> mach_port_t \<Rightarrow> ipc_state \<Rightarrow> ((kern_return + mach_port_t \<times> int \<times> int \<times> bool \<times> bool) \<times> ipc_state) option" where
  "port_status space name s =
     (if space = 0 then Some (Inl KERN_INVALID_ARGUMENT, s)
      else
        do {
          (r, s) \<leftarrow> compat_lookup space name s;
          (case r of
             Inl kr \<Rightarrow> Some (Inl kr, s)
           | Inr (e, type) \<Rightarrow>
               if type AND MACH_PORT_TYPE_PORT_OR_DEAD = 0 then Some (Inl KERN_INVALID_ARGUMENT, s)
               else if type AND MACH_PORT_TYPE_RECEIVE \<noteq> 0 then
                 do {
                   entry \<leftarrow> get_entry space e s;
                   (enabled, s) \<leftarrow> status_pset (ie_object entry) s;
                   p \<leftarrow> ks_ports s (ie_object entry);
                   Some (Inr (enabled, int (ip_msgcount p), int (ip_qlimit p), True, True), s)
                 }
               else Some (Inr (MACH_PORT_NULL, -1, 0, False, False), s))
        })"

definition port_set_allocate ::
    "nat \<Rightarrow> ptr \<Rightarrow> ipc_pset \<Rightarrow> window list \<Rightarrow> ipc_state \<Rightarrow> ((kern_return + mach_port_t) \<times> ipc_state) option" where
  "port_set_allocate fuel space fresh ws s =
     (if space = 0 then Some (Inl KERN_INVALID_ARGUMENT, s)
      else map_option (\<lambda>(r, s). (map_sum compat_code fst r, s)) (ipc_pset_alloc fuel space fresh ws s))"

definition port_set_deallocate :: "ptr \<Rightarrow> mach_port_t \<Rightarrow> ipc_state \<Rightarrow> (kern_return \<times> ipc_state) option" where
  "port_set_deallocate space name s =
     (if space = 0 then Some (KERN_INVALID_ARGUMENT, s)
      else
        do {
          (r, s) \<leftarrow> ipc_right_lookup_write space name s;
          (case r of
             Inl kr \<Rightarrow> Some (kr, s)
           | Inr e \<Rightarrow>
               do {
                 entry \<leftarrow> get_entry space e s;
                 (if ie_bits entry AND MACH_PORT_TYPE_PORT_SET = 0 then Some (KERN_INVALID_ARGUMENT, s)
                  else ipc_right_destroy port_destroy space name e s)
               })
        })"

definition port_set_add :: "ptr \<Rightarrow> mach_port_t \<Rightarrow> mach_port_t \<Rightarrow> ipc_state \<Rightarrow> (kern_return \<times> ipc_state) option" where
  "port_set_add space set_name port_name s =
     (if space = 0 then Some (KERN_INVALID_ARGUMENT, s)
      else
        do {
          (r, s) \<leftarrow> port_translate_compat space port_name s;
          (case r of
             Inl kr \<Rightarrow> Some (kr, s)
           | Inr port \<Rightarrow>
               do {
                 (e, s) \<leftarrow> entry_lookup space set_name s;
                 (case e of
                    None \<Rightarrow> Some (KERN_INVALID_ARGUMENT, s)
                  | Some e \<Rightarrow>
                      do {
                        entry \<leftarrow> get_entry space e s;
                        (if ie_bits entry AND MACH_PORT_TYPE_PORT_SET = 0 then Some (KERN_INVALID_ARGUMENT, s)
                         else ipc_pset_move port (ie_object entry) s)
                      })
               })
        })"

definition port_set_remove :: "ptr \<Rightarrow> mach_port_t \<Rightarrow> ipc_state \<Rightarrow> (kern_return \<times> ipc_state) option" where
  "port_set_remove space name s =
     (if space = 0 then Some (KERN_INVALID_ARGUMENT, s)
      else
        do {
          (r, s) \<leftarrow> port_translate_compat space name s;
          (case r of Inl kr \<Rightarrow> Some (kr, s) | Inr port \<Rightarrow> ipc_pset_move port 0 s)
        })"

definition port_set_status ::
    "nat \<Rightarrow> nat \<Rightarrow> (nat \<Rightarrow> ipc_state \<Rightarrow> ipc_state) \<Rightarrow> ptr \<Rightarrow> mach_port_t \<Rightarrow> ipc_state \<Rightarrow>
     ((kern_return + mach_port_t list) \<times> ipc_state) option" where
  "port_set_status fuel page env space name s =
     map_option (map_prod (map_sum compat_code id) id) (mach_port_get_set_status fuel page env space name s)"

text \<open>The codes of the two calls that insert a right.\<close>

definition insert_code :: "kern_return \<Rightarrow> kern_return" where
  "insert_code kr =
     (if kr = KERN_SUCCESS \<or> kr = KERN_NAME_EXISTS \<or> kr = KERN_RESOURCE_SHORTAGE then kr
      else if kr = KERN_RIGHT_EXISTS then KERN_FAILURE
      else KERN_INVALID_ARGUMENT)"

definition port_insert_send ::
    "nat \<Rightarrow> (ipc_state \<Rightarrow> ipc_state) \<Rightarrow> ptr \<Rightarrow> ptr \<Rightarrow> mach_port_t \<Rightarrow> window list \<Rightarrow> ipc_state \<Rightarrow> (kern_return \<times> ipc_state) option" where
  "port_insert_send fuel env space port name ws s =
     (if space = 0 \<or> \<not> MACH_PORT_VALID name \<or> \<not> IO_VALID port then Some (KERN_INVALID_ARGUMENT, s)
      else map_option (map_prod insert_code id)
             (ipc_object_copyout_name_compat fuel env space port MACH_MSG_TYPE_PORT_SEND name ws s))"

definition port_extract_send :: "ptr \<Rightarrow> mach_port_t \<Rightarrow> ipc_state \<Rightarrow> ((kern_return + ptr) \<times> ipc_state) option" where
  "port_extract_send space name s =
     (if space = 0 then Some (Inl KERN_INVALID_ARGUMENT, s)
      else map_option (map_prod (map_sum (\<lambda>_. KERN_INVALID_ARGUMENT) id) id)
             (ipc_object_copyin_compat space name MSG_TYPE_PORT True s))"

definition port_insert_receive ::
    "nat \<Rightarrow> (ipc_state \<Rightarrow> ipc_state) \<Rightarrow> ptr \<Rightarrow> ptr \<Rightarrow> mach_port_t \<Rightarrow> window list \<Rightarrow> ipc_state \<Rightarrow> (kern_return \<times> ipc_state) option" where
  "port_insert_receive fuel env space port name ws s =
     (if space = 0 \<or> \<not> MACH_PORT_VALID name \<or> \<not> IO_VALID port then Some (KERN_INVALID_ARGUMENT, s)
      else map_option (map_prod insert_code id)
             (ipc_object_copyout_name_compat fuel env space port MACH_MSG_TYPE_PORT_RECEIVE name ws s))"

definition port_extract_receive :: "ptr \<Rightarrow> mach_port_t \<Rightarrow> ipc_state \<Rightarrow> ((kern_return + ptr) \<times> ipc_state) option" where
  "port_extract_receive space name s =
     (if space = 0 then Some (Inl KERN_INVALID_ARGUMENT, s)
      else map_option (map_prod (map_sum (\<lambda>_. KERN_INVALID_ARGUMENT) id) id)
             (ipc_object_copyin_compat space name MSG_TYPE_PORT_ALL True s))"

end
