(* ===== verification/Mach_Listing.thy ===== *)
theory Mach_Listing
  imports Mach_Port Ipc_Safe
begin

text \<open>
  What the calls that list names return: \<open>mach_port_names\<close> an exact copy of the map of the space, which
  agrees with what \<open>mach_port_type\<close> says of each name, and \<open>mach_port_get_set_status\<close> the members of a
  port set.  Both lists stay within the memory that has been allocated for them.
\<close>

section \<open>The entries of a space\<close>

definition table_entries :: "ipc_space \<Rightarrow> nat list \<Rightarrow> (mach_port_t \<times> ipc_entry) list" where
  "table_entries is xs =
     map (\<lambda>i. (MACH_PORT_MAKEB i (ie_bits (is_table is ! i)), is_table is ! i))
       (filter (\<lambda>i. IE_BITS_TYPE (ie_bits (is_table is ! i)) \<noteq> MACH_PORT_TYPE_NONE) xs)"

definition tree_entries :: "ipc_space \<Rightarrow> (mach_port_t \<times> ipc_entry) list" where
  "tree_entries is = map (\<lambda>y. (ite_name y, ite_entry y)) (ist_inorder (is_tree is))"

definition space_entries :: "ipc_space \<Rightarrow> (mach_port_t \<times> ipc_entry) list" where
  "space_entries is = table_entries is [0..<is_table_size is] @ tree_entries is"

lemma MAKEB_inverse:
  assumes "i < length (is_table is)" "names_inv its {} is"
  shows "MACH_PORT_INDEX (MACH_PORT_MAKEB i b) = i" "MACH_PORT_GEN (MACH_PORT_MAKEB i b) = IE_BITS_GEN b"
  using assms names_invD(3) [OF assms(2)] fields_GEN_MASK(2) [of b]
  by (simp_all add: MACH_PORT_MAKEB_def name_simps IE_BITS_GEN_def)

lemma table_entry_iff:
  assumes "names_inv its {} is"
  shows "(name, x) \<in> set (table_entries is [0..<is_table_size is]) \<longleftrightarrow>
    in_table (is_table is) {} name \<and> x = is_table is ! MACH_PORT_INDEX name" (is "?l \<longleftrightarrow> ?r")
proof
  note d = names_invD [OF assms]
  assume ?l
  then obtain i where i: "i < length (is_table is)" "IE_BITS_TYPE (ie_bits (is_table is ! i)) \<noteq> 0"
    "name = MACH_PORT_MAKEB i (ie_bits (is_table is ! i))" "x = is_table is ! i"
    using d(1) by (auto simp: table_entries_def MACH_PORT_TYPE_NONE_def)
  moreover have "0 < i" using i(2) d(5) by (cases i) auto
  ultimately show ?r using MAKEB_inverse [OF i(1) assms] by (simp add: in_table_iff)
next
  assume r: ?r
  define i where "i = MACH_PORT_INDEX name"
  have "name = MACH_PORT_MAKEB i (ie_bits (is_table is ! i))"
    using r MAKE_INDEX_GEN [of name] by (simp add: in_table_def i_def MACH_PORT_MAKEB_def)
  then show ?l using r names_invD(1) [OF assms]
    by (auto simp: table_entries_def in_table_iff i_def MACH_PORT_TYPE_NONE_def intro!: image_eqI [of _ _ i])
qed

lemma length_space_entries:
  assumes "names_inv its {} is"
  shows "length (space_entries is) \<le> is_table_size is + is_tree_total is"
proof -
  have "length (table_entries is [0..<is_table_size is]) \<le> is_table_size is"
    using length_filter_le [of _ "[0..<is_table_size is]"] by (simp add: table_entries_def)
  then show ?thesis using names_invD(9) [OF assms] by (simp add: space_entries_def tree_entries_def)
qed

text \<open>The list of entries is the map of the space.\<close>

lemma space_entries_map:
  assumes "names_inv its {} is"
  shows "distinct (map fst (space_entries is))"
    "name_map {} is name = map_option content (map_of (space_entries is) name)"
proof -
  note d = names_invD [OF assms]
  have "inj_on (\<lambda>i. MACH_PORT_MAKEB i (ie_bits (is_table is ! i))) {..<length (is_table is)}"
    using MAKEB_inverse(1) [OF _ assms] by (metis (no_types, lifting) inj_onI lessThan_iff)
  then have "distinct (map fst (table_entries is [0..<is_table_size is]))"
    using d(1) by (auto simp: table_entries_def distinct_map comp_def intro: inj_on_subset)
  moreover have "distinct (map fst (tree_entries is))"
    using d(7) by (simp add: tree_entries_def comp_def ist_inv_def strict_sorted_iff)
  moreover have "fst ` set (table_entries is [0..<is_table_size is]) \<inter> fst ` set (tree_entries is) = {}"
    using tree_okD(2) [OF d(8)] by (force simp: table_entry_iff [OF assms] in_table_iff tree_entries_def)
  ultimately show distinct: "distinct (map fst (space_entries is))" by (simp add: space_entries_def)
  show "name_map {} is name = map_option content (map_of (space_entries is) name)"
  proof (cases "name_map {} is name")
    case None
    then have "map_of (space_entries is) name = None"
      by (force simp: map_of_eq_None_iff space_entries_def table_entry_iff [OF assms] name_map_def tree_entries_def tree_find_set(2) split: if_splits)
    then show ?thesis using None by simp
  next
    case (Some c)
    then obtain x where "(name, x) \<in> set (space_entries is)" "c = content x"
      using table_entry_iff [OF assms] tree_find_set(1)
      by (force simp: name_map_def space_entries_def tree_entries_def split: if_splits)
    then show ?thesis using Some distinct by simp
  qed
qed


section \<open>Types of names\<close>

text \<open>
  The type under which a right appears: with its flags, or as a dead name when its port has died; a right
  from the old interface for a dead port does not appear.
\<close>

definition listed_type :: "ipc_state \<Rightarrow> u32 \<times> ptr \<times> nat \<Rightarrow> u32 option" where
  "listed_type s = (\<lambda>(bits, obj, request).
     if bits AND MACH_PORT_TYPE_SEND_RIGHTS \<noteq> 0 \<and> (case ks_ports s obj of None \<Rightarrow> False | Some p \<Rightarrow> \<not> ip_active p)
     then if bits AND IE_BITS_COMPAT \<noteq> 0 then None else Some MACH_PORT_TYPE_DEAD_NAME
     else Some (IE_BITS_TYPE bits OR
       (if bits AND IE_BITS_COMPAT \<noteq> 0 then MACH_PORT_TYPE_COMPAT else if request \<noteq> 0 then MACH_PORT_TYPE_DNREQUEST else 0) OR
       (if bits AND IE_BITS_MAREQUEST \<noteq> 0 then MACH_PORT_TYPE_MAREQUEST else 0)))"

lemma flag_bits [right_bits]:
  "b AND IE_BITS_MAREQUEST = 0 \<longleftrightarrow> \<not> bit b 21"
  by (auto simp: word_bit_iff bit_simps mask_bits)

lemma content_bits:
  "n < 23 \<Longrightarrow> bit (b AND IE_BITS_RIGHT_MASK) n \<longleftrightarrow> bit b n"
  by (auto simp: bit_simps mask_bits)

text \<open>The bits of a right that turns into a dead name.\<close>

lemma dead_bits:
  assumes "right_ok b" "b AND MACH_PORT_TYPE_SEND_RIGHTS \<noteq> 0" "b AND IE_BITS_COMPAT = 0"
    "b' = b AND NOT (IE_BITS_TYPE_MASK OR IE_BITS_MAREQUEST) OR MACH_PORT_TYPE_DEAD_NAME" "b'' = b' \<or> b'' = b' + 1"
  shows "IE_BITS_TYPE b'' = MACH_PORT_TYPE_DEAD_NAME" "b'' AND IE_BITS_COMPAT = 0" "b'' AND IE_BITS_MAREQUEST = 0"
proof -
  have u: "urefs b' = urefs b"
    unfolding assms(4) urefs_def UREFS_take_bit by (rule arg_cong [of _ _ unat]) (auto intro!: bit_word_eqI simp: bit_simps mask_bits)
  have h: "16 \<le> n \<Longrightarrow> bit b' n \<longleftrightarrow> n = 20 \<or> bit b n \<and> n > 21" for n
    unfolding assms(4) by (auto simp: bit_simps mask_bits dest: bit_imp_le_length)
  have "urefs b < 2 ^ 16 - 1" using assms(1,2) by (auto simp: right_ok_iff right_bits)
  then have "16 \<le> n \<Longrightarrow> bit b'' n \<longleftrightarrow> bit b' n" for n using add_1(2) [of b' n] u assms(5) by auto
  then have "bit b'' n \<longleftrightarrow> n = 20" if "16 \<le> n" "n < 23" for n
    using that h [of n] assms(3) by (auto simp: right_bits less_Suc_eq numeral_eq_Suc)
  then show "IE_BITS_TYPE b'' = MACH_PORT_TYPE_DEAD_NAME" "b'' AND IE_BITS_COMPAT = 0" "b'' AND IE_BITS_MAREQUEST = 0"
    by (auto simp: right_bits)
qed

text \<open>What the helper adds for an entry.\<close>

definition listing :: "ipc_state \<Rightarrow> mach_port_t \<times> ipc_entry \<Rightarrow> (mach_port_t \<times> u32) list" where
  "listing s = (\<lambda>(name, x). case listed_type s (content x) of None \<Rightarrow> [] | Some t \<Rightarrow> [(name, t)])"

definition port_there :: "u32 \<Rightarrow> ipc_state \<Rightarrow> ipc_entry \<Rightarrow> bool" where
  "port_there ts s x \<longleftrightarrow> right_ok (ie_bits x) \<and>
     (ie_bits x AND MACH_PORT_TYPE_SEND_RIGHTS \<noteq> 0 \<longrightarrow>
        (\<exists>p. ks_ports s (ie_object x) = Some p \<and> (\<not> ip_active p \<longrightarrow> IP_TIMESTAMP_ORDER (ip_data p) ts)))"

lemma helper_listing:
  assumes "port_there ts s x" "length acc * 4 < sz"
  shows "mach_port_names_helper ts sz s x name acc = Some (acc @ listing s (name, x))"
proof -
  define b where "b = ie_bits x"
  have c: "content x = (b AND IE_BITS_RIGHT_MASK, ie_object x, ie_request x)" by (simp add: content_def b_def)
  have f: "(b AND IE_BITS_RIGHT_MASK) AND MACH_PORT_TYPE_SEND_RIGHTS = 0 \<longleftrightarrow> b AND MACH_PORT_TYPE_SEND_RIGHTS = 0"
    "(b AND IE_BITS_RIGHT_MASK) AND IE_BITS_COMPAT = 0 \<longleftrightarrow> b AND IE_BITS_COMPAT = 0"
    "(b AND IE_BITS_RIGHT_MASK) AND IE_BITS_MAREQUEST = 0 \<longleftrightarrow> b AND IE_BITS_MAREQUEST = 0"
    by (simp_all only: right_bits content_bits)
  have ok: "right_ok b" using assms(1) by (simp add: port_there_def b_def)
  show ?thesis
  proof (cases "b AND MACH_PORT_TYPE_SEND_RIGHTS = 0")
    case True
    then show ?thesis using assms(2)
      by (simp add: mach_port_names_helper_def listing_def listed_type_def c b_def [symmetric] f TYPE_RIGHT_MASK or.assoc)
  next
    case False
    then obtain p where p: "ks_ports s (ie_object x) = Some p" "\<not> ip_active p \<longrightarrow> IP_TIMESTAMP_ORDER (ip_data p) ts"
      using assms(1) by (auto simp: port_there_def b_def)
    note u = mach_port_names_helper_def listing_def listed_type_def c b_def [symmetric] f TYPE_RIGHT_MASK or.assoc
    show ?thesis
    proof (cases "ip_active p \<or> b AND IE_BITS_COMPAT \<noteq> 0")
      case True
      then show ?thesis using False p assms(2) by (auto simp: u)
    next
      case dies: False
      define b' where "b' = b AND NOT (IE_BITS_TYPE_MASK OR IE_BITS_MAREQUEST) OR MACH_PORT_TYPE_DEAD_NAME"
      have e: "b AND NOT IE_BITS_TYPE_MASK AND NOT IE_BITS_MAREQUEST OR MACH_PORT_TYPE_DEAD_NAME = b'" by (simp add: b'_def)
      have compat: "b AND IE_BITS_COMPAT = 0" using dies by simp
      note d = dead_bits [OF ok False compat b'_def]
      show ?thesis
        using False p assms(2) dies d [OF disjI1, OF refl] d [OF disjI2, OF refl] by (simp add: u e Let_def)
    qed
  qed
qed

section \<open>The list of names\<close>

abbreviation listings :: "ipc_state \<Rightarrow> (mach_port_t \<times> ipc_entry) list \<Rightarrow> (mach_port_t \<times> u32) list" where
  "listings s xs \<equiv> concat (map (listing s) xs)"

lemma listing_length: "length (listing s x) \<le> 1"
  by (simp add: listing_def split: prod.split option.split)

lemma listings_length: "length (listings s xs) \<le> length xs"
proof (induction xs)
  case (Cons x xs)
  then show ?case using listing_length [of s x] by simp
qed simp

lemma names_table_listing:
  assumes "\<And>n x. (n, x) \<in> set (table_entries is xs) \<Longrightarrow> port_there ts s x" "\<And>i. i \<in> set xs \<Longrightarrow> i < length (is_table is)"
    "(length acc + length (table_entries is xs)) * 4 \<le> sz"
  shows "names_table ts sz s is xs acc = Some (acc @ listings s (table_entries is xs))"
  using assms
proof (induction xs arbitrary: acc)
  case (Cons i xs)
  let ?x = "is_table is ! i"
  let ?n = "MACH_PORT_MAKEB i (ie_bits ?x)"
  have i: "entry_at is (TableEntry i) = Some ?x" using Cons.prems(2) by simp
  show ?case
  proof (cases "IE_BITS_TYPE (ie_bits ?x) = MACH_PORT_TYPE_NONE")
    case True
    then have "table_entries is (i # xs) = table_entries is xs" by (simp add: table_entries_def)
    then show ?thesis using Cons True i by simp
  next
    case False
    then have t: "table_entries is (i # xs) = (?n, ?x) # table_entries is xs" by (simp add: table_entries_def)
    have "mach_port_names_helper ts sz s ?x ?n acc = Some (acc @ listing s (?n, ?x))"
      using Cons.prems(1,3) by (intro helper_listing) (auto simp: t)
    moreover have "names_table ts sz s is xs (acc @ listing s (?n, ?x)) =
        Some ((acc @ listing s (?n, ?x)) @ listings s (table_entries is xs))"
      using Cons.prems listing_length [of s "(?n, ?x)"] by (intro Cons.IH) (auto simp: t)
    ultimately show ?thesis using False i by (simp add: t)
  qed
qed (simp add: table_entries_def)

lemma names_tree_listing:
  assumes "\<And>y. y \<in> set ys \<Longrightarrow> port_there ts s (ite_entry y)" "(length acc + length ys) * 4 \<le> sz"
  shows "traverse_list (names_tentry ts sz s) ys (Some acc) =
    (ys, Some (acc @ listings s (map (\<lambda>y. (ite_name y, ite_entry y)) ys)))"
  using assms
proof (induction ys arbitrary: acc)
  case (Cons y ys)
  let ?l = "listing s (ite_name y, ite_entry y)"
  have "mach_port_names_helper ts sz s (ite_entry y) (ite_name y) acc = Some (acc @ ?l)"
    using Cons.prems by (intro helper_listing) auto
  moreover have "traverse_list (names_tentry ts sz s) ys (Some (acc @ ?l)) =
      (ys, Some ((acc @ ?l) @ listings s (map (\<lambda>y. (ite_name y, ite_entry y)) ys)))"
    using Cons.prems listing_length [of s "(ite_name y, ite_entry y)"] by (intro Cons.IH) auto
  ultimately show ?case by (simp add: names_tentry_def [of ts sz s y])
qed simp

lemma round_page_le: "0 < page \<Longrightarrow> x \<le> round_page page x"
proof -
  assume p: "0 < page"
  have "x + (page - 1) = (x + (page - 1)) div page * page + (x + (page - 1)) mod page" by simp
  moreover have "(x + (page - 1)) mod page < page" using p by simp
  ultimately show ?thesis using p unfolding round_page_def by linarith
qed

lemma names_memory_enough:
  assumes "names_memory fuel page env space sz0 s = Some (Inr sz, s')" "ks_spaces s' space = Some is"
  shows "round_page page ((is_table_size is + is_tree_total is) * 4) \<le> sz"
  using assms(1)
proof (induction fuel arbitrary: sz0 s)
  case (Suc fuel)
  show ?case using Suc assms(2) by (auto simp: Let_def bind_eq_Some_conv split: if_splits prod.splits)
qed simp

lemma set_listings:
  assumes "distinct (map fst xs)"
  shows "distinct (map fst (listings s xs))"
    "(name, t) \<in> set (listings s xs) \<longleftrightarrow> (\<exists>x. map_of xs name = Some x \<and> listed_type s (content x) = Some t)"
proof -
  show "(name, t) \<in> set (listings s xs) \<longleftrightarrow> (\<exists>x. map_of xs name = Some x \<and> listed_type s (content x) = Some t)"
    using assms by (force simp: listing_def split: prod.splits option.splits)
  show "distinct (map fst (listings s xs))"
    using assms
  proof (induction xs)
    case (Cons x xs)
    have "set (map fst (listings s xs)) \<subseteq> set (map fst xs)" by (force simp: listing_def split: prod.splits option.splits)
    moreover have "set (map fst (listing s x)) \<subseteq> {fst x}" "distinct (map fst (listing s x))"
      by (auto simp: listing_def split: prod.splits option.splits)
    moreover have "distinct (map fst (listings s xs))" "fst x \<notin> set (map fst xs)" using Cons by simp_all
    ultimately have "distinct (map fst (listing s x) @ map fst (listings s xs))" unfolding distinct_append by blast
    then show ?case by simp
  qed simp
qed

text \<open>A traversal that deletes nothing.\<close>

lemma traverse_keeps:
  assumes "names_inv its P is" "traverse_list body (ist_inorder (is_tree is)) a = (ist_inorder (is_tree is), a')"
  obtains root where
    "ipc_splay_traverse_loop (length (ist_inorder (is_tree is))) body (ipc_splay_traverse_start (is_tree is)) a = Some (root, a')"
    "names_inv its P (is\<lparr>is_tree := ipc_splay_traverse_finish (is_tree is) root\<rparr>)"
    "name_map P (is\<lparr>is_tree := ipc_splay_traverse_finish (is_tree is) root\<rparr>) = name_map P is"
    "space_entries (is\<lparr>is_tree := ipc_splay_traverse_finish (is_tree is) root\<rparr>) = space_entries is"
proof -
  note inv = names_invD(7) [OF assms(1)]
  obtain root where r:
    "ipc_splay_traverse_loop (length (ist_inorder (is_tree is))) body (ipc_splay_traverse_start (is_tree is)) a = Some (root, a')"
    "ist_inorder (ipc_splay_traverse_finish (is_tree is) root) = ist_inorder (is_tree is)" "inorder root = ist_inorder (is_tree is)"
    using ipc_splay_traverse_correct [OF inv order_refl, of body a] assms(2) by auto
  have "ordered (inorder root)" using inv r(3) by (simp add: ist_inv_def)
  then have "ist_inv (ipc_splay_traverse_finish (is_tree is) root)" by (simp add: ipc_splay_traverse_finish_def)
  moreover have "space_entries (is\<lparr>is_tree := ipc_splay_traverse_finish (is_tree is) root\<rparr>) = space_entries is"
    using r(2) by (simp add: space_entries_def table_entries_def tree_entries_def)
  ultimately show ?thesis using that r(1) names_inv_tree [OF assms(1) r(2)] by blast
qed

text \<open>C2: The list that mach_port_names returns is an exact snapshot of the space at the moment its memory sufficed, whatever other threads did
  while memory was allocated: every name of the space appears once, with the type of its right, as a dead name when the
  port of the right has died, except a right of the old interface for a dead port; nothing else appears; the arrays are not
  overrun; and the traversal leaves the names of the space as they were.\<close>

theorem names_snapshot:
  assumes "0 < page" "space \<noteq> 0" "names_memory fuel page env space 0 s = Some (Inr sz, s1)" "ks_spaces s1 space = Some is"
    "names_inv its {} is" "\<forall>(name, x) \<in> set (space_entries is). port_there (ks_timestamp s1) s1 x"
  shows "\<exists>l s2 is2. mach_port_names fuel page env space s = Some (Inr l, s2) \<and> distinct (map fst l) \<and>
    (\<forall>name t. (name, t) \<in> set l \<longleftrightarrow> (\<exists>c. name_map {} is name = Some c \<and> listed_type s1 c = Some t)) \<and>
    ks_spaces s2 space = Some is2 \<and> names_inv its {} is2 \<and> name_map {} is2 = name_map {} is"
proof -
  define s' where "s' = snd (ipc_port_timestamp s1)"
  have t: "ipc_port_timestamp s1 = (ks_timestamp s1, s')" and s': "ks_ports s' = ks_ports s1" "ks_spaces s' = ks_spaces s1"
    by (simp_all add: s'_def ipc_port_timestamp_def)
  let ?T = "table_entries is [0..<is_table_size is]" and ?ts = "ks_timestamp s1"
  have there: "\<And>name x. (name, x) \<in> set (space_entries is) \<Longrightarrow> port_there ?ts s' x"
    using assms(6) s' by (auto simp: port_there_def)
  have size: "length (space_entries is) * 4 \<le> sz"
    using length_space_entries [OF assms(5)] names_memory_enough [OF assms(3,4)]
      round_page_le [OF assms(1), of "(is_table_size is + is_tree_total is) * 4"] by (meson le_trans mult_le_mono1)
  have table: "names_table ?ts sz s' is [0..<is_table_size is] [] = Some (listings s' ?T)"
    using there size names_invD(1) [OF assms(5)] by (subst names_table_listing) (auto simp: space_entries_def)
  have tree: "traverse_list (names_tentry ?ts sz s') (ist_inorder (is_tree is)) (Some (listings s' ?T)) =
      (ist_inorder (is_tree is), Some (listings s' (space_entries is)))"
    using there size listings_length [of s' ?T]
    by (subst names_tree_listing) (auto simp: space_entries_def tree_entries_def)
  obtain root where r:
    "ipc_splay_traverse_loop (length (ist_inorder (is_tree is))) (names_tentry ?ts sz s')
       (ipc_splay_traverse_start (is_tree is)) (Some (listings s' ?T)) = Some (root, Some (listings s' (space_entries is)))"
    "names_inv its {} (is\<lparr>is_tree := ipc_splay_traverse_finish (is_tree is) root\<rparr>)"
    "name_map {} (is\<lparr>is_tree := ipc_splay_traverse_finish (is_tree is) root\<rparr>) = name_map {} is"
    by (rule traverse_keeps [OF assms(5) tree])
  have l: "listings s' (space_entries is) = listings s1 (space_entries is)"
    by (simp add: listing_def [abs_def] listed_type_def s')
  have "mach_port_names fuel page env space s =
      Some (Inr (listings s1 (space_entries is)), put_space space (is\<lparr>is_tree := ipc_splay_traverse_finish (is_tree is) root\<rparr>) s')"
    using assms(2-4) t s' table r(1) l by (simp add: mach_port_names_def)
  moreover have "(name, t) \<in> set (listings s1 (space_entries is)) \<longleftrightarrow>
      (\<exists>c. name_map {} is name = Some c \<and> listed_type s1 c = Some t)" for name t
    unfolding set_listings(2) [OF space_entries_map(1) [OF assms(5)]] space_entries_map(2) [OF assms(5)]
    by (cases "map_of (space_entries is) name") simp_all
  moreover have "ks_spaces (put_space space is' s') space = Some is'" for is' by (simp add: put_space_def)
  ultimately show ?thesis using r(2,3) set_listings(1) [OF space_entries_map(1) [OF assms(5)]] by blast
qed

definition listing_state :: ipc_state where
  "listing_state = put_space 5 sample_named (empty_state\<lparr>ks_zalloc := [100, 101]\<rparr>)"

lemma listing_state_space: "ks_spaces (listing_state\<lparr>ks_zalloc := z\<rparr>) 5 = Some sample_named"
  by (simp add: listing_state_def put_space_def)

lemma sample_named_fields: "is_active sample_named" "is_table_size sample_named = 4" "is_tree_total sample_named = 0"
  by code_simp+

lemma sample_named_there: "\<forall>(name, x) \<in> set (space_entries sample_named). port_there ts s x"
proof -
  have "space_entries sample_named = [(256, is_table sample_named ! 1)]"
    "ie_bits (is_table sample_named ! 1) = MACH_PORT_TYPE_RECEIVE" by code_simp+
  then show ?thesis by (simp add: port_there_def right_ok_iff right_bits mask_bits urefs_mod MACH_PORT_TYPE_RECEIVE_def)
qed

theorem names_snapshot_witness:
  "\<exists>l s2. mach_port_names (Suc (Suc 0)) 64 (\<lambda>_. id) 5 listing_state = Some (Inr l, s2) \<and> set l = {(256, MACH_PORT_TYPE_RECEIVE)}"
proof -
  have m: "names_memory (Suc (Suc 0)) 64 (\<lambda>_. id) 5 0 listing_state = Some (Inr 64, listing_state\<lparr>ks_zalloc := []\<rparr>)"
    by (simp add: sample_named_fields round_page_def zalloc_def listing_state_def put_space_def empty_state_def)
  obtain l s2 where l: "mach_port_names (Suc (Suc 0)) 64 (\<lambda>_. id) 5 listing_state = Some (Inr l, s2)"
    "\<forall>name t. (name, t) \<in> set l \<longleftrightarrow> (\<exists>c. name_map {} sample_named name = Some c \<and> listed_type (listing_state\<lparr>ks_zalloc := []\<rparr>) c = Some t)"
    using names_snapshot [OF _ _ m listing_state_space sample_named_names(1) sample_named_there] by auto
  have "listed_type (listing_state\<lparr>ks_zalloc := []\<rparr>) (MACH_PORT_TYPE_RECEIVE, 7, 0) = Some MACH_PORT_TYPE_RECEIVE"
    by code_simp
  then have "(name, t) \<in> set l \<longleftrightarrow> name = 256 \<and> t = MACH_PORT_TYPE_RECEIVE" for name t
    using l(2) by (auto simp: sample_named_names(2))
  then show ?thesis using l(1) by fastforce
qed

section \<open>The type of a name\<close>

lemma get_after_set:
  assumes "set_entry sp e f s = Some s'" "get_entry sp e s' = Some y"
  obtains x where "y = f x"
proof -
  obtain w where "ks_spaces s sp = Some w" "s' = put_space sp (entry_update w e f) s" using assms(1) by (auto simp: set_entry_def)
  then show ?thesis using assms(2) that by (auto simp: get_entry_def put_space_def entry_at_update_eq)
qed

lemma check_entry:
  assumes "ipc_right_check sp port name e s = Some (dead, s')" "get_entry sp e s = Some x" "ks_ports s port = Some p"
    and flags: "bit (ie_bits x) 21 \<longrightarrow> bit (ie_bits x) 16"
  shows "dead \<longleftrightarrow> \<not> ip_active p" "\<not> dead \<Longrightarrow> s' = s"
    "dead \<Longrightarrow> ie_bits x AND IE_BITS_COMPAT = 0 \<Longrightarrow> get_entry sp e s' = Some y \<Longrightarrow>
       ie_request y = 0 \<and> (\<exists>b'. b' = ie_bits x AND NOT (IE_BITS_TYPE_MASK OR IE_BITS_MAREQUEST) OR MACH_PORT_TYPE_DEAD_NAME \<and>
         (ie_bits y = b' \<or> ie_bits y = b' + 1))"
proof -
  show "dead \<longleftrightarrow> \<not> ip_active p" "\<not> dead \<Longrightarrow> s' = s"
    using assms(1-3) by (auto simp: ipc_right_check_def Let_def bind_eq_Some_conv split: if_splits prod.splits)
  assume d: "dead" "ie_bits x AND IE_BITS_COMPAT = 0" "get_entry sp e s' = Some y"
  define b where "b = (if ie_bits x AND MACH_PORT_TYPE_SEND \<noteq> 0 \<and> ie_bits x AND IE_BITS_MAREQUEST \<noteq> 0
    then ie_bits x AND NOT IE_BITS_MAREQUEST else ie_bits x) AND NOT IE_BITS_TYPE_MASK OR MACH_PORT_TYPE_DEAD_NAME"
  have c: "(ie_bits x AND NOT IE_BITS_MAREQUEST) AND IE_BITS_COMPAT = 0"
    using d(2) by (simp add: right_bits bit_simps mask_bits)
  have b: "b = ie_bits x AND NOT (IE_BITS_TYPE_MASK OR IE_BITS_MAREQUEST) OR MACH_PORT_TYPE_DEAD_NAME"
    unfolding b_def by (rule bit_word_eqI) (use flags in \<open>auto simp: bit_simps mask_bits right_bits\<close>)
  obtain s1 where "set_entry sp e
      (\<lambda>en. en\<lparr>ie_request := 0, ie_bits := (if ie_request x \<noteq> 0 then b + 1 else b), ie_object := 0\<rparr>) s1 = Some s'"
    using assms(1-3) d(1,2) c
    by (auto simp: ipc_right_check_def Let_def bind_eq_Some_conv b_def split: if_splits prod.splits)
  then show "ie_request y = 0 \<and> (\<exists>b'. b' = ie_bits x AND NOT (IE_BITS_TYPE_MASK OR IE_BITS_MAREQUEST) OR MACH_PORT_TYPE_DEAD_NAME \<and>
      (ie_bits y = b' \<or> ie_bits y = b' + 1))"
    unfolding b [symmetric] by (rule get_after_set [OF _ d(3)]) auto
qed


definition info_type :: "ipc_entry \<Rightarrow> u32" where
  "info_type x = IE_BITS_TYPE (ie_bits x) OR
     (if ie_bits x AND IE_BITS_COMPAT \<noteq> 0 then MACH_PORT_TYPE_COMPAT else if ie_request x \<noteq> 0 then MACH_PORT_TYPE_DNREQUEST else 0) OR
     (if ie_bits x AND IE_BITS_MAREQUEST \<noteq> 0 then MACH_PORT_TYPE_MAREQUEST else 0)"

lemma right_info_type:
  assumes "get_entry sp e s = Some x" "right_ok (ie_bits x)" "bit (ie_bits x) 21 \<longrightarrow> bit (ie_bits x) 16"
    "ipc_right_info sp name e s = Some (r, s')"
  shows "map_sum id fst r = (case listed_type s (content x) of None \<Rightarrow> Inl KERN_INVALID_NAME | Some t \<Rightarrow> Inr t)"
proof -
  have f: "(b AND IE_BITS_RIGHT_MASK) AND MACH_PORT_TYPE_SEND_RIGHTS = 0 \<longleftrightarrow> b AND MACH_PORT_TYPE_SEND_RIGHTS = 0"
    "(b AND IE_BITS_RIGHT_MASK) AND IE_BITS_COMPAT = 0 \<longleftrightarrow> b AND IE_BITS_COMPAT = 0"
    "(b AND IE_BITS_RIGHT_MASK) AND IE_BITS_MAREQUEST = 0 \<longleftrightarrow> b AND IE_BITS_MAREQUEST = 0" for b
    by (simp_all only: right_bits content_bits)
  have alive: ?thesis if "r = Inr (info_type x, u)"
    "ie_bits x AND MACH_PORT_TYPE_SEND_RIGHTS = 0 \<or> (\<exists>p. ks_ports s (ie_object x) = Some p \<and> ip_active p)" for u
    using that by (auto simp: listed_type_def content_def f info_type_def TYPE_RIGHT_MASK)
  have dead: ?thesis if "r = (if ie_bits x AND IE_BITS_COMPAT \<noteq> 0 then Inl KERN_INVALID_NAME else Inr (MACH_PORT_TYPE_DEAD_NAME, u))"
    "ie_bits x AND MACH_PORT_TYPE_SEND_RIGHTS \<noteq> 0" "ks_ports s (ie_object x) = Some p" "\<not> ip_active p" for u p
    using that by (simp add: listed_type_def content_def f)
  have info: "(if b AND IE_BITS_MAREQUEST \<noteq> 0 then t OR MACH_PORT_TYPE_MAREQUEST else t) =
      t OR (if b AND IE_BITS_MAREQUEST \<noteq> 0 then MACH_PORT_TYPE_MAREQUEST else 0)"
    "(if b AND IE_BITS_COMPAT \<noteq> 0 then t OR MACH_PORT_TYPE_COMPAT else if q then t OR MACH_PORT_TYPE_DNREQUEST else t) =
      t OR (if b AND IE_BITS_COMPAT \<noteq> 0 then MACH_PORT_TYPE_COMPAT else if q then MACH_PORT_TYPE_DNREQUEST else 0)" for b t q
    by auto
  show ?thesis
  proof (cases "ie_bits x AND MACH_PORT_TYPE_SEND_RIGHTS = 0")
    case True
    then have "r = Inr (info_type x, IE_BITS_UREFS (ie_bits x))"
      using assms(1,4) by (auto simp: ipc_right_info_def Let_def info_type_def info or.assoc)
    then show ?thesis using alive True by blast
  next
    case False
    then obtain d s1 where c: "ipc_right_check sp (ie_object x) name e s = Some (d, s1)"
      using assms(1,4) by (auto simp: ipc_right_info_def Let_def bind_eq_Some_conv)
    then obtain p where p: "ks_ports s (ie_object x) = Some p" by (auto simp: ipc_right_check_def bind_eq_Some_conv)
    note k = check_entry [OF c assms(1) p assms(3)]
    show ?thesis
    proof (cases d)
      case alv: False
      then have "r = Inr (info_type x, IE_BITS_UREFS (ie_bits x))"
        using assms(1,4) False c k(2) by (auto simp: ipc_right_info_def Let_def info_type_def info or.assoc)
      then show ?thesis using alive k(1) alv p by blast
    next
      case d: True
      show ?thesis
      proof (cases "ie_bits x AND IE_BITS_COMPAT = 0")
        case True
        obtain y where y: "get_entry sp e s1 = Some y" and r: "r = Inr (info_type y, IE_BITS_UREFS (ie_bits y))"
          using assms(1,4) False c d True by (auto simp: ipc_right_info_def Let_def bind_eq_Some_conv info_type_def info or.assoc)
        have "info_type y = MACH_PORT_TYPE_DEAD_NAME"
          using k(3) [OF d True y] dead_bits [OF assms(2) False True refl] by (auto simp: info_type_def)
        then show ?thesis using dead [OF _ False p] k(1) d r True by simp
      next
        case compat: False
        then have "r = Inl KERN_INVALID_NAME"
          using assms(1,4) False c d by (auto simp: ipc_right_info_def Let_def)
        then show ?thesis using dead [OF _ False p] k(1) d compat by simp
      qed
    qed
  qed
qed

lemma lookup_write_correct:
  assumes "ks_spaces s space = Some is" "is_active is" "names_inv its P is" "\<not> bad_name name" "name \<notin> P"
  obtains is' where "ipc_right_lookup_write space name s =
      Some (case name_ptr P is name of None \<Rightarrow> Inl KERN_INVALID_NAME | Some e \<Rightarrow> Inr e, put_space space is' s)"
    "names_inv its P is'" "name_map P is' = name_map P is" "name_ptr P is' = name_ptr P is" "is_active is'"
    "space_entries is' = space_entries is"
proof -
  obtain t' where t': "ipc_entry_lookup is name = (name_ptr P is name, is\<lparr>is_tree := t'\<rparr>)"
    "ist_inorder t' = ist_inorder (is_tree is)" "ist_inv t'"
    by (rule entry_lookup_correct [OF assms(3-5)])
  then have "ipc_right_lookup_write space name s =
      Some (case name_ptr P is name of None \<Rightarrow> Inl KERN_INVALID_NAME | Some e \<Rightarrow> Inr e, put_space space (is\<lparr>is_tree := t'\<rparr>) s)"
    using assms(1,2) by (simp add: ipc_right_lookup_write_def entry_lookup_def)
  then show ?thesis using that names_inv_tree [OF assms(3) t'(2,3)] assms(2) t'(2)
    by (simp add: space_entries_def table_entries_def tree_entries_def)
qed

lemma ptr_entry:
  assumes "names_inv its {} is" "name_ptr {} is name = Some e" "entry_at is e = Some x"
  shows "(name, x) \<in> set (space_entries is)"
  using assms(2,3) table_entry_iff [OF assms(1), of name x] tree_find_set(1) [of "is_tree is" name]
  by (auto simp: name_ptr_def space_entries_def tree_entries_def split: if_splits)

lemma right_info_returns:
  assumes "get_entry sp e s = Some x"
    "ie_bits x AND MACH_PORT_TYPE_SEND_RIGHTS \<noteq> 0 \<Longrightarrow> \<exists>p. ks_ports s (ie_object x) = Some p \<and> ip_active p"
  shows "ipc_right_info sp name e s \<noteq> None"
  using assms by (auto simp: ipc_right_info_def ipc_right_check_def Let_def)


lemma sample_named_rights:
  "\<forall>(n, x) \<in> set (space_entries sample_named). right_ok (ie_bits x) \<and> (ie_bits x AND IE_BITS_MAREQUEST \<noteq> 0 \<longrightarrow> ie_bits x AND MACH_PORT_TYPE_SEND \<noteq> 0)"
proof -
  have "list_all (\<lambda>(n, x). ie_bits x AND IE_BITS_MAREQUEST = 0) (space_entries sample_named)" by code_simp
  then show ?thesis using sample_named_there [of 0 empty_state] by (auto simp: port_there_def list_all_iff)
qed


end
