(* ===== verification/Mach_Calls.thy ===== *)
theory Mach_Calls
  imports Mach_Listing
begin

text \<open>
  Sequences of kernel calls: what \<open>mach_port_allocate\<close> makes is what the other calls then find, and
  \<open>mach_port_get_set_status\<close> lists the members of a port set.
\<close>

section \<open>Allocating a port\<close>

definition new_status :: mach_port_status where
  "new_status =
     \<lparr>mps_pset = MACH_PORT_NULL, mps_seqno = 0, mps_mscount = 0, mps_qlimit = MACH_PORT_QLIMIT_DEFAULT, mps_msgcount = 0,
      mps_sorights = 0, mps_srights = False, mps_pdrequest = False, mps_nsrequest = False\<rparr>"

lemma stores_receive: "stores_right x (x\<lparr>ie_bits := ie_bits x OR (MACH_PORT_TYPE_RECEIVE OR 0), ie_object := obj\<rparr>)"
proof -
  have "IE_BITS_TYPE (ie_bits x OR MACH_PORT_TYPE_RECEIVE) \<noteq> MACH_PORT_TYPE_NONE"
    by (simp add: right_bits bit_simps mask_bits)
  moreover have "IE_BITS_GEN (ie_bits x OR MACH_PORT_TYPE_RECEIVE) = IE_BITS_GEN (ie_bits x)"
    by (rule bit_word_eqI) (auto simp: field_defs bit_simps mask_bits)
  moreover have "(ie_bits x OR MACH_PORT_TYPE_RECEIVE) AND IE_BITS_RIGHT_MASK = ie_bits x OR MACH_PORT_TYPE_RECEIVE"
    if "ie_bits x AND IE_BITS_RIGHT_MASK = ie_bits x"
    unfolding bit.conj_disj_distrib2 that by (rule arg_cong [of _ _ "(OR) _"]) (auto intro!: bit_word_eqI simp: bit_simps mask_bits)
  ultimately show ?thesis by (simp add: stores_right_def MACH_PORT_TYPE_NONE_def bit_simps mask_bits)
qed

lemma receive_content:
  assumes "content x = (0, obj, q)"
  shows "content (x\<lparr>ie_bits := ie_bits x OR (MACH_PORT_TYPE_RECEIVE OR 0), ie_object := obj'\<rparr>) = (MACH_PORT_TYPE_RECEIVE, obj', q)"
proof -
  have "MACH_PORT_TYPE_RECEIVE AND IE_BITS_RIGHT_MASK = MACH_PORT_TYPE_RECEIVE"
    by (rule bit_word_eqI) (auto simp: bit_simps mask_bits)
  then show ?thesis using assms by (simp add: content_def bit.conj_disj_distrib2)
qed

text \<open>The state after the allocation, from the results of the two allocators.\<close>

lemma allocate_receive:
  assumes "space \<noteq> 0" "port \<noteq> 0" "ks_zalloc s = port # z" "ks_spaces s space = Some is" "is_active is"
    "ipc_entry_get is = Inr (name, e, is1)"
  shows "mach_port_allocate (Suc fuel) space 1 fresh fp ws s = Some (Inr name,
    put_port port (ipc_port_init space name (fresh\<lparr>ip_references := 1, ip_bits := io_makebits True IOT_PORT 0\<rparr>))
      (put_space space (entry_update is1 e (\<lambda>x. x\<lparr>ie_bits := ie_bits x OR (MACH_PORT_TYPE_RECEIVE OR 0), ie_object := port\<rparr>))
        (s\<lparr>ks_zalloc := z\<rparr>)))"
  using assms
  by (simp add: mach_port_allocate_def port_right_def ipc_port_alloc_def ipc_object_alloc_def zalloc_def entry_alloc_def
      set_entry_def put_space_def mod_port_def put_port_def)

lemma translate_correct:
  assumes "ks_spaces s space = Some is" "is_active is" "names_inv its {} is" "\<not> bad_name name"
    "name_map {} is name = Some (b, obj, q)" "b AND MACH_PORT_TYPE rt \<noteq> 0"
  obtains is' where "ipc_object_translate space name rt s = Some (Inr obj, put_space space is' s)"
proof -
  obtain is' where l: "ipc_right_lookup_write space name s =
      Some (case name_ptr {} is name of None \<Rightarrow> Inl KERN_INVALID_NAME | Some e \<Rightarrow> Inr e, put_space space is' s)"
    and k: "names_inv its {} is'" "name_map {} is' = name_map {} is" "name_ptr {} is' = name_ptr {} is"
    by (rule lookup_write_correct [OF assms(1-4)]) simp
  obtain e where e: "name_ptr {} is name = Some e" using assms(5) name_ptr_None [of "{}" "is" name] by auto
  obtain x where x: "entry_at is' e = Some x" "content x = (b, obj, q)"
    using entry_at_ptr [OF k(1), of name e] k e assms(5) by (metis option.inject)
  have "ie_bits x AND MACH_PORT_TYPE rt \<noteq> 0"
    using assms(6) x(2) by (cases rt) (auto simp: content_def right_bits bit_simps mask_bits)
  then have "ipc_object_translate space name rt s = Some (Inr obj, put_space space is' s)"
    using l e x by (simp add: ipc_object_translate_def get_entry_def put_space_def content_def)
  then show ?thesis by (rule that)
qed



definition sample_pset :: ipc_pset where
  "sample_pset = \<lparr>ips_references = 1, ips_bits = io_makebits True IOT_PORT_SET 0, ips_local_name = 0, ips_messages = imq_empty\<rparr>"


section \<open>The members of a port set\<close>

text \<open>The names of the members, in the order of the entries.\<close>

definition member_names :: "ptr \<Rightarrow> ipc_state \<Rightarrow> (mach_port_t \<times> ipc_entry) list \<Rightarrow> mach_port_t list" where
  "member_names pset s xs =
     map fst (filter (\<lambda>(n, x). ie_bits x AND MACH_PORT_TYPE_RECEIVE \<noteq> 0 \<and>
       (case ks_ports s (ie_object x) of None \<Rightarrow> False | Some p \<Rightarrow> ip_pset p = pset)) xs)"

text \<open>A receive right has a port that knows the name of the right.\<close>

definition receiver_known :: "ipc_state \<Rightarrow> mach_port_t \<times> ipc_entry \<Rightarrow> bool" where
  "receiver_known s = (\<lambda>(n, x). ie_bits x AND MACH_PORT_TYPE_RECEIVE \<noteq> 0 \<longrightarrow>
     (\<exists>p. ks_ports s (ie_object x) = Some p \<and> ip_receiver_name p = n))"

lemma member_names_append [simp]: "member_names pset s (xs @ ys) = member_names pset s xs @ member_names pset s ys"
  "member_names pset s [] = []"
  by (simp_all add: member_names_def)

text \<open>After the entries with the members \<open>ms\<close>, of which the array has the first \<open>mx\<close>.\<close>

definition gst_acc :: "nat \<Rightarrow> mach_port_t list \<Rightarrow> mach_port_t list \<times> nat" where
  "gst_acc mx ms = (take mx ms, length ms)"

lemma gst_entry_members:
  assumes "receiver_known s (n, x)"
  shows "gst_entry pset mx s x (gst_acc mx ms) = Some (gst_acc mx (ms @ member_names pset s [(n, x)]))"
  using assms by (auto simp: gst_entry_def mach_port_gst_helper_def receiver_known_def member_names_def gst_acc_def)

lemma gst_table_members:
  assumes "\<forall>y\<in>set (table_entries is xs). receiver_known s y" "\<forall>i\<in>set xs. i < length (is_table is)"
  shows "gst_table pset mx s is xs (gst_acc mx ms) = Some (gst_acc mx (ms @ member_names pset s (table_entries is xs)))"
  using assms
proof (induction xs arbitrary: ms)
  case (Cons i xs)
  let ?x = "is_table is ! i" and ?n = "MACH_PORT_MAKEB i (ie_bits (is_table is ! i))"
  have i: "entry_at is (TableEntry i) = Some ?x" using Cons.prems(2) by simp
  show ?case
  proof (cases "IE_BITS_TYPE (ie_bits ?x) = MACH_PORT_TYPE_NONE")
    case True
    then have t: "table_entries is (i # xs) = table_entries is xs" by (simp add: table_entries_def)
    have "gst_entry pset mx s ?x (gst_acc mx ms) = Some (gst_acc mx ms)" using True by (simp add: gst_entry_def right_bits)
    then show ?thesis using Cons i by (simp add: t)
  next
    case False
    then have t: "table_entries is (i # xs) = [(?n, ?x)] @ table_entries is xs" by (simp add: table_entries_def)
    then have "receiver_known s (?n, ?x)" using Cons.prems(1) by simp
    then show ?thesis using Cons i gst_entry_members [of s ?n ?x pset mx ms] unfolding t member_names_append by simp
  qed
qed (simp add: table_entries_def)

lemma gst_tree_members:
  assumes "\<forall>y\<in>set ys. receiver_known s (ite_name y, ite_entry y)"
  shows "traverse_list (gst_tentry pset mx s) ys (Some (gst_acc mx ms)) =
    (ys, Some (gst_acc mx (ms @ member_names pset s (map (\<lambda>y. (ite_name y, ite_entry y)) ys))))"
  using assms
proof (induction ys arbitrary: ms)
  case (Cons y ys)
  have "member_names pset s (map (\<lambda>y. (ite_name y, ite_entry y)) (y # ys)) =
      member_names pset s [(ite_name y, ite_entry y)] @ member_names pset s (map (\<lambda>y. (ite_name y, ite_entry y)) ys)"
    by (simp add: member_names_def)
  then show ?case using Cons gst_entry_members [of s "ite_name y" "ite_entry y" pset mx ms] by (simp add: gst_tentry_def [of pset mx s y])
qed simp

text \<open>One round of the loop.\<close>

lemma gst_round:
  assumes "ks_spaces s space = Some is" "is_active is" "names_inv its {} is" "\<not> bad_name name" "ks_zalloc s = a # z" "a \<noteq> 0"
    "name_map {} is name = Some (b, pset, q)" "IE_BITS_TYPE b = MACH_PORT_TYPE_PORT_SET"
    "\<forall>y\<in>set (space_entries is). receiver_known s y" and ms: "ms = member_names pset s (space_entries is)"
  obtains is' where "is_active is'" "names_inv its {} is'" "name_map {} is' = name_map {} is" "space_entries is' = space_entries is"
    "gst_loop (Suc fuel) page (\<lambda>_. id) space name sz s =
      (if length ms \<le> sz div 4 then Some (Inr ms, put_space space is' (s\<lparr>ks_zalloc := z\<rparr>))
       else gst_loop fuel page (\<lambda>_. id) space name (round_page page (length ms * 4) + page) (put_space space is' (s\<lparr>ks_zalloc := z\<rparr>)))"
proof -
  let ?s = "s\<lparr>ks_zalloc := z\<rparr>"
  have s: "ks_spaces ?s space = Some is" using assms(1) by simp
  obtain w where l: "ipc_right_lookup_write space name ?s =
      Some (case name_ptr {} is name of None \<Rightarrow> Inl KERN_INVALID_NAME | Some e \<Rightarrow> Inr e, put_space space w ?s)"
    and k: "names_inv its {} w" "name_map {} w = name_map {} is" "name_ptr {} w = name_ptr {} is" "is_active w"
      "space_entries w = space_entries is"
    by (rule lookup_write_correct [OF s assms(2-4)]) simp
  obtain e where e: "name_ptr {} is name = Some e" using assms(7) name_ptr_None [of "{}" "is" name] by auto
  obtain x where x: "entry_at w e = Some x" "content x = (b, pset, q)"
    using entry_at_ptr [OF k(1), of name e] k e assms(7) by (metis option.inject)
  have t: "IE_BITS_TYPE (ie_bits x) = MACH_PORT_TYPE_PORT_SET" "ie_object x = pset"
    using x(2) assms(8) TYPE_RIGHT_MASK [of "ie_bits x"] by (auto simp: content_def)
  let ?s1 = "put_space space w ?s" and ?T = "table_entries w [0..<is_table_size w]"
  have p: "ks_ports ?s1 = ks_ports s" by (simp add: put_space_def)
  have rk: "receiver_known ?s1 = receiver_known s" "member_names pset ?s1 = member_names pset s"
    by (simp_all add: receiver_known_def [abs_def] member_names_def [abs_def] p)
  have ew: "space_entries is = ?T @ tree_entries w" unfolding k(5) [symmetric] by (rule space_entries_def)
  have known: "\<forall>y\<in>set ?T. receiver_known s y" "\<forall>y\<in>set (tree_entries w). receiver_known s y"
    using assms(9) unfolding ew by simp_all
  have msw: "ms = member_names pset s ?T @ member_names pset s (tree_entries w)"
    unfolding ms ew by simp
  have table: "gst_table pset (sz div 4) ?s1 w [0..<is_table_size w] ([], 0) =
      Some (gst_acc (sz div 4) (member_names pset s ?T))"
    using gst_table_members [of w "[0..<is_table_size w]" ?s1 pset "sz div 4" "[]"] known(1) names_invD(1) [OF k(1)]
    by (simp add: rk gst_acc_def)
  have tree: "traverse_list (gst_tentry pset (sz div 4) ?s1) (ist_inorder (is_tree w)) (Some (gst_acc (sz div 4) (member_names pset s ?T))) =
      (ist_inorder (is_tree w), Some (gst_acc (sz div 4) ms))"
    using gst_tree_members [of "ist_inorder (is_tree w)" ?s1 pset "sz div 4" "member_names pset s ?T"] known(2)
    by (simp add: rk msw tree_entries_def)
  obtain root where r:
    "ipc_splay_traverse_loop (length (ist_inorder (is_tree w))) (gst_tentry pset (sz div 4) ?s1)
       (ipc_splay_traverse_start (is_tree w)) (Some (gst_acc (sz div 4) (member_names pset s ?T))) = Some (root, Some (gst_acc (sz div 4) ms))"
    "names_inv its {} (w\<lparr>is_tree := ipc_splay_traverse_finish (is_tree w) root\<rparr>)"
    "name_map {} (w\<lparr>is_tree := ipc_splay_traverse_finish (is_tree w) root\<rparr>) = name_map {} w"
    "space_entries (w\<lparr>is_tree := ipc_splay_traverse_finish (is_tree w) root\<rparr>) = space_entries w"
    by (rule traverse_keeps [OF k(1) tree])
  define w' where "w' = w\<lparr>is_tree := ipc_splay_traverse_finish (is_tree w) root\<rparr>"
  have g: "get_entry space e ?s1 = Some x" "ks_spaces ?s1 space = Some w" using x(1) by (simp_all add: get_entry_def put_space_def)
  have pp: "put_space space w' ?s1 = put_space space w' ?s" by (simp add: put_space_def)
  show ?thesis
  proof (rule that [of w'])
    show "gst_loop (Suc fuel) page (\<lambda>_. id) space name sz s =
      (if length ms \<le> sz div 4 then Some (Inr ms, put_space space w' ?s)
       else gst_loop fuel page (\<lambda>_. id) space name (round_page page (length ms * 4) + page) (put_space space w' ?s))"
      using assms(5,6) l e g t table r(1) pp
      by (simp add: zalloc_def w'_def [symmetric] gst_acc_def [of _ ms] del: ipc_splay_traverse_loop.simps)
  qed (use k r(2-4) in \<open>simp_all add: w'_def\<close>)
qed



text \<open>A space with the port set 9 under the name 256 and the port 7, a member, under the name 512.\<close>

definition set_only :: ipc_space where
  "set_only = entry_update sample_taken (TableEntry 1) (\<lambda>x. x\<lparr>ie_bits := ie_bits x OR MACH_PORT_TYPE_PORT_SET, ie_object := 9\<rparr>)"

definition set_space :: ipc_space where
  "set_space = entry_update (snd (snd (projr (ipc_entry_get set_only)))) (TableEntry 2)
     (\<lambda>x. x\<lparr>ie_bits := ie_bits x OR (MACH_PORT_TYPE_RECEIVE OR 0), ie_object := 7\<rparr>)"

definition set_state :: ipc_state where
  "set_state = put_port 7 (sample_port\<lparr>ip_receiver_name := 512, ip_pset := 9\<rparr>)
     (put_space 5 set_space (empty_state\<lparr>ks_zalloc := [100, 101]\<rparr>))"

lemma set_only_names:
  "names_inv [4, 8, 8] {} set_only" "name_map {} set_only = [256 \<mapsto> (MACH_PORT_TYPE_PORT_SET, 9, 0)]"
proof -
  let ?f = "\<lambda>x. x\<lparr>ie_bits := ie_bits x OR MACH_PORT_TYPE_PORT_SET, ie_object := 9\<rparr>"
  have st: "stores_right \<lparr>ie_bits = 0, ie_object = 0, ie_request = 0, ie_index = 0\<rparr> (?f \<lparr>ie_bits = 0, ie_object = 0, ie_request = 0, ie_index = 0\<rparr>)"
    by (simp add: stores_right_def field_defs IE_BITS_GEN_MASK_def IE_BITS_TYPE_MASK_def IE_BITS_RIGHT_MASK_def MACH_PORT_TYPE_PORT_SET_def)
  note u = entry_update_correct [OF sample_taken_names(1,4) sample_entry, where f = ?f, OF st]
  show "names_inv [4, 8, 8] {} set_only" using u(1) by (simp add: set_only_def)
  show "name_map {} set_only = [256 \<mapsto> (MACH_PORT_TYPE_PORT_SET, 9, 0)]"
    using u(2) by (simp add: set_only_def sample_taken_names(3) content_def IE_BITS_RIGHT_MASK_def MACH_PORT_TYPE_PORT_SET_def)
qed

lemma set_space_names:
  "names_inv [4, 8, 8] {} set_space"
  "name_map {} set_space = [256 \<mapsto> (MACH_PORT_TYPE_PORT_SET, 9, 0), 512 \<mapsto> (MACH_PORT_TYPE_RECEIVE, 7, 0)]"
proof -
  define w where "w = snd (snd (projr (ipc_entry_get set_only)))"
  have get: "ipc_entry_get set_only = Inr (512, TableEntry 2, w)" unfolding w_def by code_simp
  note g = entry_get_correct [OF set_only_names(1), unfolded get sum.case prod.case]
  have inv: "names_inv [4, 8, 8] {512} w" and map: "name_map {512} w = [256 \<mapsto> (MACH_PORT_TYPE_PORT_SET, 9, 0), 512 \<mapsto> (0, 0, 0)]"
    using g set_only_names(2) by simp_all
  have ptr: "name_ptr {512} w 512 = Some (TableEntry 2)" using entry_get_ptr [OF set_only_names(1) get] by simp
  obtain x where x: "entry_at w (TableEntry 2) = Some x" "content x = (0, 0, 0)"
    by (rule entry_at_ptr [OF inv ptr]) (simp add: map)
  note u = entry_update_correct [OF inv ptr x(1),
    of "\<lambda>x. x\<lparr>ie_bits := ie_bits x OR (MACH_PORT_TYPE_RECEIVE OR 0), ie_object := 7\<rparr>", OF stores_receive]
  show "names_inv [4, 8, 8] {} set_space"
    "name_map {} set_space = [256 \<mapsto> (MACH_PORT_TYPE_PORT_SET, 9, 0), 512 \<mapsto> (MACH_PORT_TYPE_RECEIVE, 7, 0)]"
    using u unfolding set_space_def w_def [symmetric] map receive_content [OF x(2)] by simp_all
qed



end
