(* ===== verification/Spec2Isabelle.thy ===== *)
theory Spec2Isabelle
  imports Ipc_Table Ipc_Dealloc Ipc_Receive Ipc_Moves Ipc_Depth Mach_Calls
begin

text \<open>
  A verification of the capability management of the Mach inter-process communication
  system of the kernel (\<^verbatim>\<open>src/ipc\<close>).

  The theories follow the source files.  \<open>Prelude\<close> has the machine types, the return codes
  and the macros on port names and entry bits.  \<open>Ipc_Table\<close> models \<^verbatim>\<open>ipc_table.c\<close>, the arrays
  of table sizes.  \<open>Ipc_Splay\<close> models \<^verbatim>\<open>ipc_splay.c\<close>.  \<open>Ipc_Space\<close> models \<^verbatim>\<open>ipc_space.c\<close>.
  \<open>Ipc_Hash\<close> models \<^verbatim>\<open>ipc_hash.c\<close>.
\<close>

end
